(* ===== verification/Prelude.thy ===== *)
theory Prelude
  imports Main
begin

text \<open>
  Shared vocabulary of the development: the exceptions the C++ code throws, the
  state-and-exception computations the filter engine is written in, and the generic
  lemmas on lists and strings that the component theories use through the simplifier.
\<close>

named_theorems run_simps \<open>unfolding rules of the computations\<close>
named_theorems frame_simps \<open>fields an operation leaves alone\<close>

section \<open>Exceptions\<close>

text \<open>
  One constructor per exception class the modelled code tells apart, with its
  \<^verbatim>\<open>what()\<close> text. The flag of \<open>Regex_Error\<close> says that the error code is
  \<^verbatim>\<open>error_complexity\<close> or \<^verbatim>\<open>error_stack\<close>. \<open>Unspecific\<close>
  is anything that is not a \<^verbatim>\<open>std::exception\<close> (what only \<^verbatim>\<open>catch (...)\<close> sees).
\<close>

datatype exn =
    Filter_Exception string
  | Out_Of_Range string
  | Invalid_Argument string
  | Bad_Lexical_Cast string
  | Regex_Error bool string
  | Runtime_Error string
  | Std_Exception string
  | Unspecific

type_synonym 'a res = "exn + 'a"

fun exn_what :: "exn \<Rightarrow> string" where
  "exn_what (Filter_Exception s) = s"
| "exn_what (Out_Of_Range s) = s"
| "exn_what (Invalid_Argument s) = s"
| "exn_what (Bad_Lexical_Cast s) = s"
| "exn_what (Regex_Error _ s) = s"
| "exn_what (Runtime_Error s) = s"
| "exn_what (Std_Exception s) = s"
| "exn_what Unspecific = []"

fun is_std_exception :: "exn \<Rightarrow> bool" where
  "is_std_exception Unspecific = False"
| "is_std_exception _ = True"

definition bind_res :: "'a res \<Rightarrow> ('a \<Rightarrow> 'b res) \<Rightarrow> 'b res" where
  "bind_res r f = (case r of Inl e \<Rightarrow> Inl e | Inr x \<Rightarrow> f x)"

lemma bind_res_simps [simp]: "bind_res (Inl e) f = Inl e" "bind_res (Inr x) f = f x"
  by (simp_all add: bind_res_def)

section \<open>Computations: state passing with exceptions\<close>

type_synonym ('c, 'a) ev = "'c \<Rightarrow> 'a res \<times> 'c"

definition ret :: "'a \<Rightarrow> ('c, 'a) ev" where
  "ret x = (\<lambda>c. (Inr x, c))"

definition throw :: "exn \<Rightarrow> ('c, 'a) ev" where
  "throw e = (\<lambda>c. (Inl e, c))"

definition bindE :: "('c, 'a) ev \<Rightarrow> ('a \<Rightarrow> ('c, 'b) ev) \<Rightarrow> ('c, 'b) ev" where
  "bindE m f = (\<lambda>c. case m c of (Inl e, c') \<Rightarrow> (Inl e, c') | (Inr x, c') \<Rightarrow> f x c')"

definition seqE :: "('c, 'a) ev \<Rightarrow> ('c, 'b) ev \<Rightarrow> ('c, 'b) ev" where
  "seqE m n = bindE m (\<lambda>_. n)"

definition modify :: "('c \<Rightarrow> 'c) \<Rightarrow> ('c, unit) ev" where
  "modify g = (\<lambda>c. (Inr (), g c))"

definition getE :: "('c \<Rightarrow> 'a) \<Rightarrow> ('c, 'a) ev" where
  "getE g = (\<lambda>c. (Inr (g c), c))"

definition lift_res :: "'a res \<Rightarrow> ('c, 'a) ev" where
  "lift_res r = (\<lambda>c. (r, c))"

text \<open>\<^verbatim>\<open>try { m } catch (const std::exception &e) { h(e) }\<close>\<close>

definition catch_std :: "('c, 'a) ev \<Rightarrow> (exn \<Rightarrow> ('c, 'a) ev) \<Rightarrow> ('c, 'a) ev" where
  "catch_std m h = (\<lambda>c. case m c of
       (Inl e, c') \<Rightarrow> (if is_std_exception e then h e c' else (Inl e, c'))
     | (Inr x, c') \<Rightarrow> (Inr x, c'))"

text \<open>\<^verbatim>\<open>try { m } catch (...) { h }\<close>\<close>

definition catch_all :: "('c, 'a) ev \<Rightarrow> (exn \<Rightarrow> ('c, 'a) ev) \<Rightarrow> ('c, 'a) ev" where
  "catch_all m h = (\<lambda>c. case m c of (Inl e, c') \<Rightarrow> h e c' | (Inr x, c') \<Rightarrow> (Inr x, c'))"

primrec mapE :: "('a \<Rightarrow> ('c, 'b) ev) \<Rightarrow> 'a list \<Rightarrow> ('c, 'b list) ev" where
  "mapE f [] = ret []"
| "mapE f (x # xs) = bindE (f x) (\<lambda>y. bindE (mapE f xs) (\<lambda>ys. ret (y # ys)))"

lemma mapE_cong [fundef_cong]:
  assumes "xs = ys" and "\<And>x. x \<in> set ys \<Longrightarrow> f x = g x"
  shows "mapE f xs = mapE g ys"
  using assms by (induction ys arbitrary: xs) auto

lemma ret_run [simp, run_simps]: "ret x c = (Inr x, c)"
  by (simp add: ret_def)

lemma throw_run [simp, run_simps]: "throw e c = (Inl e, c)"
  by (simp add: throw_def)

lemma modify_run [simp, run_simps]: "modify g c = (Inr (), g c)"
  by (simp add: modify_def)

lemma getE_run [simp, run_simps]: "getE g c = (Inr (g c), c)"
  by (simp add: getE_def)

lemma lift_res_run [simp, run_simps]: "lift_res r c = (r, c)"
  by (simp add: lift_res_def)

lemma bindE_Inr: "m c = (Inr x, c') \<Longrightarrow> bindE m f c = f x c'"
  by (simp add: bindE_def)

lemma bindE_Inl: "m c = (Inl e, c') \<Longrightarrow> bindE m f c = (Inl e, c')"
  by (simp add: bindE_def)

lemma bindE_ret [simp]: "bindE (ret x) f = f x"
  by (simp add: bindE_def)

lemma bindE_throw [simp]: "bindE (throw e) f = throw e"
  by (simp add: bindE_def throw_def)

lemma bindE_modify_run [simp, run_simps]: "bindE (modify g) f c = f () (g c)"
  by (simp add: bindE_def)

lemma bindE_getE_run [simp, run_simps]: "bindE (getE g) f c = f (g c) c"
  by (simp add: bindE_def)

lemma seqE_modify_run [simp, run_simps]: "seqE (modify g) n c = n (g c)"
  by (simp add: seqE_def)

lemma bindE_assoc: "bindE (bindE m f) g = bindE m (\<lambda>x. bindE (f x) g)"
  by (rule ext) (auto simp: bindE_def split: prod.splits sum.splits)

lemma catch_std_ret [simp]: "catch_std (ret x) h = ret x"
  by (simp add: catch_std_def ret_def)

lemma catch_all_ret [simp]: "catch_all (ret x) h = ret x"
  by (simp add: catch_all_def ret_def)

text \<open>A computation that never ends in an exception.\<close>

definition no_throw :: "('c, 'a) ev \<Rightarrow> bool" where
  "no_throw m \<longleftrightarrow> (\<forall>c. \<exists>x c'. m c = (Inr x, c'))"

lemma no_throw_ret [simp]: "no_throw (ret x)"
  by (simp add: no_throw_def)

lemma no_throw_modify [simp]: "no_throw (modify g)"
  by (simp add: no_throw_def)

lemma no_throw_getE [simp]: "no_throw (getE g)"
  by (simp add: no_throw_def)

lemma no_throw_cases:
  assumes "no_throw m"
  obtains x c' where "m c = (Inr x, c')"
  using assms unfolding no_throw_def by blast

lemma no_throw_bindE:
  assumes "no_throw m" and "\<And>x. no_throw (f x)"
  shows "no_throw (bindE m f)"
  unfolding no_throw_def
proof
  fix c
  from assms(1) obtain x c' where m: "m c = (Inr x, c')" by (rule no_throw_cases)
  from assms(2) obtain y c'' where "f x c' = (Inr y, c'')" by (rule no_throw_cases)
  with m show "\<exists>y c'. bindE m f c = (Inr y, c')" by (simp add: bindE_def)
qed

lemma no_throw_seqE: "no_throw m \<Longrightarrow> no_throw n \<Longrightarrow> no_throw (seqE m n)"
  by (simp add: seqE_def no_throw_bindE)

lemma no_throw_catch_all:
  assumes "\<And>e. no_throw (h e)"
  shows "no_throw (catch_all m h)"
  unfolding no_throw_def
proof
  fix c
  obtain r c' where m: "m c = (r, c')" by (cases "m c")
  show "\<exists>x c'. catch_all m h c = (Inr x, c')"
  proof (cases r)
    case (Inl e)
    obtain x c'' where "h e c' = (Inr x, c'')" using assms by (rule no_throw_cases)
    with m Inl show ?thesis by (simp add: catch_all_def)
  qed (simp add: m catch_all_def)
qed

text \<open>A part of the state that a computation leaves alone.\<close>

definition keeps :: "('c \<Rightarrow> 'a) \<Rightarrow> ('c, 'b) ev \<Rightarrow> bool" where
  "keeps p m \<longleftrightarrow> (\<forall>c. p (snd (m c)) = p c)"

lemma keeps_ret [simp]: "keeps p (ret x)"
  by (simp add: keeps_def)

lemma keeps_throw [simp]: "keeps p (throw e)"
  by (simp add: keeps_def)

lemma keeps_getE [simp]: "keeps p (getE g)"
  by (simp add: keeps_def)

lemma keeps_lift_res [simp]: "keeps p (lift_res r)"
  by (simp add: keeps_def)

lemma keeps_modify: "(\<And>c. p (g c) = p c) \<Longrightarrow> keeps p (modify g)"
  by (simp add: keeps_def)

lemma keeps_bindE:
  assumes "keeps p m" and "\<And>x. keeps p (f x)"
  shows "keeps p (bindE m f)"
  unfolding keeps_def
proof
  fix c
  obtain r c' where m: "m c = (r, c')" by (cases "m c")
  from assms(1) have "p (snd (m c)) = p c" by (simp add: keeps_def)
  then have "p c' = p c" by (simp add: m)
  with assms(2) show "p (snd ((bindE m f) c)) = p c"
    by (cases r) (simp_all add: m bindE_def keeps_def)
qed

lemma keeps_seqE: "keeps p m \<Longrightarrow> keeps p n \<Longrightarrow> keeps p (seqE m n)"
  by (simp add: seqE_def keeps_bindE)

lemma keeps_catch_std:
  assumes "keeps p m" and "\<And>e. keeps p (h e)"
  shows "keeps p (catch_std m h)"
  unfolding keeps_def
proof
  fix c
  obtain r c' where m: "m c = (r, c')" by (cases "m c")
  from assms(1) have "p (snd (m c)) = p c" by (simp add: keeps_def)
  then have "p c' = p c" by (simp add: m)
  with assms(2) show "p (snd ((catch_std m h) c)) = p c"
    by (cases r) (simp_all add: m catch_std_def keeps_def)
qed

lemma keeps_catch_all:
  assumes "keeps p m" and "\<And>e. keeps p (h e)"
  shows "keeps p (catch_all m h)"
  unfolding keeps_def
proof
  fix c
  obtain r c' where m: "m c = (r, c')" by (cases "m c")
  from assms(1) have "p (snd (m c)) = p c" by (simp add: keeps_def)
  then have "p c' = p c" by (simp add: m)
  with assms(2) show "p (snd ((catch_all m h) c)) = p c"
    by (cases r) (simp_all add: m catch_all_def keeps_def)
qed

lemma keeps_mapE: "(\<And>x. x \<in> set xs \<Longrightarrow> keeps p (f x)) \<Longrightarrow> keeps p (mapE f xs)"
  by (induction xs) (auto intro!: keeps_bindE)

lemmas keeps_intros = keeps_ret keeps_throw keeps_getE keeps_lift_res keeps_modify keeps_bindE
  keeps_seqE keeps_catch_std keeps_catch_all keeps_mapE

text \<open>
  Partial correctness: a computation started in \<open>P\<close> that returns normally returns in \<open>Q\<close>.
\<close>

definition triple :: "('c \<Rightarrow> bool) \<Rightarrow> ('c, 'a) ev \<Rightarrow> ('a \<Rightarrow> 'c \<Rightarrow> bool) \<Rightarrow> bool" where
  "triple P m Q \<longleftrightarrow> (\<forall>c x c'. P c \<longrightarrow> m c = (Inr x, c') \<longrightarrow> Q x c')"

lemma tripleD: "triple P m Q \<Longrightarrow> P c \<Longrightarrow> m c = (Inr x, c') \<Longrightarrow> Q x c'"
  by (simp add: triple_def)

lemma triple_ret: "(\<And>c. P c \<Longrightarrow> Q x c) \<Longrightarrow> triple P (ret x) Q"
  by (simp add: triple_def)

lemma triple_getE: "(\<And>c. P c \<Longrightarrow> Q (g c) c) \<Longrightarrow> triple P (getE g) Q"
  by (simp add: triple_def)

lemma triple_modify: "(\<And>c. P c \<Longrightarrow> Q () (g c)) \<Longrightarrow> triple P (modify g) Q"
  by (simp add: triple_def)

lemma triple_bindE:
  assumes "triple P m S" and "\<And>x. triple (S x) (f x) Q"
  shows "triple P (bindE m f) Q"
  unfolding triple_def
proof (intro allI impI)
  fix c x c' assume "P c" and run: "bindE m f c = (Inr x, c')"
  obtain r d where m: "m c = (r, d)" by (cases "m c")
  with run obtain y where y: "r = Inr y" "f y d = (Inr x, c')"
    by (cases r) (auto simp: bindE_def)
  with assms(1) \<open>P c\<close> m have "S y d" by (auto dest: tripleD)
  with assms(2) y show "Q x c'" by (auto dest: tripleD)
qed

lemma triple_seqE: "triple P m (\<lambda>_. S) \<Longrightarrow> triple S n Q \<Longrightarrow> triple P (seqE m n) Q"
  unfolding seqE_def by (rule triple_bindE)

lemma triple_if: "(b \<Longrightarrow> triple P m Q) \<Longrightarrow> (\<not> b \<Longrightarrow> triple P n Q) \<Longrightarrow> triple P (if b then m else n) Q"
  by simp

lemma triple_weaken:
  "triple P m Q \<Longrightarrow> (\<And>c. P' c \<Longrightarrow> P c) \<Longrightarrow> (\<And>x c. Q x c \<Longrightarrow> Q' x c) \<Longrightarrow> triple P' m Q'"
  unfolding triple_def by blast

lemma triple_mapE:
  assumes "\<And>x k. x \<in> set xs \<Longrightarrow> triple (P k) (f x) (\<lambda>_. P (Suc k))"
  shows "triple (P k) (mapE f xs) (\<lambda>_. P (k + length xs))"
  using assms
proof (induction xs arbitrary: k)
  case (Cons x xs)
  have "triple (P (Suc k)) (mapE f xs) (\<lambda>_. P (Suc k + length xs))"
    using Cons.prems by (intro Cons.IH) simp
  then show ?case
    unfolding mapE.simps
  proof (intro triple_bindE)
    show "triple (P k) (f x) (\<lambda>_. P (Suc k))" using Cons.prems by simp
    show "triple (P (Suc k + length xs)) (ret (y # ys)) (\<lambda>_. P (k + length (x # xs)))" for y ys
      by (rule triple_ret) simp
  qed
qed (simp add: triple_ret)

lemma keeps_triple: "keeps p m \<Longrightarrow> triple (\<lambda>c. Q (p c)) m (\<lambda>_ c. Q (p c))"
  by (simp add: keeps_def triple_def) (metis snd_conv)

section \<open>Text\<close>

definition digit_char :: "nat \<Rightarrow> char" where
  "digit_char d = char_of (48 + d)"

fun nat_str :: "nat \<Rightarrow> string" where
  "nat_str n = (if n < 10 then [digit_char n] else nat_str (n div 10) @ [digit_char (n mod 10)])"

declare nat_str.simps [simp del]

text \<open>\<^verbatim>\<open>operator<<\<close> of an integral type on a default stream.\<close>

definition xtos_int :: "int \<Rightarrow> string" where
  "xtos_int i = (if i < 0 then CHR ''-'' # nat_str (nat (- i)) else nat_str (nat i))"

lemma nat_str_rec:
  "n < 10 \<Longrightarrow> nat_str n = [digit_char n]"
  "\<not> n < 10 \<Longrightarrow> nat_str n = nat_str (n div 10) @ [digit_char (n mod 10)]"
  by (simp_all add: nat_str.simps [of n])

lemma nat_str_nonempty [simp]: "nat_str n \<noteq> []"
  by (subst nat_str.simps) simp

definition is_digit_char :: "char \<Rightarrow> bool" where
  "is_digit_char c \<longleftrightarrow> 48 \<le> (of_char c :: nat) \<and> (of_char c :: nat) \<le> 57"

definition digit_val :: "char \<Rightarrow> nat" where
  "digit_val c = of_char c - 48"

definition digits_val :: "string \<Rightarrow> nat" where
  "digits_val s = foldl (\<lambda>a c. 10 * a + digit_val c) 0 s"

lemma digit_char_val: "d < 10 \<Longrightarrow> digit_val (digit_char d) = d"
  by (simp add: digit_val_def digit_char_def)

lemma is_digit_digit_char: "d < 10 \<Longrightarrow> is_digit_char (digit_char d)"
  by (simp add: is_digit_char_def digit_char_def)

lemma digit_char_eval:
  "digit_char 0 = CHR ''0''" "digit_char 1 = CHR ''1''" "digit_char (Suc 0) = CHR ''1''" "digit_char 2 = CHR ''2''"
  "digit_char 3 = CHR ''3''" "digit_char 4 = CHR ''4''" "digit_char 5 = CHR ''5''" "digit_char 6 = CHR ''6''"
  "digit_char 7 = CHR ''7''" "digit_char 8 = CHR ''8''" "digit_char 9 = CHR ''9''"
  by code_simp+

lemma nat_str_digits: "\<forall>c \<in> set (nat_str n). is_digit_char c"
proof (induction n rule: nat_str.induct)
  case (1 n)
  show ?case
    by (subst nat_str.simps) (use 1 in \<open>auto simp: is_digit_digit_char\<close>)
qed

lemma digits_val_snoc: "digits_val (s @ [c]) = 10 * digits_val s + digit_val c"
  by (simp add: digits_val_def)

lemma digits_val_nat_str [simp]: "digits_val (nat_str n) = n"
proof (induction n rule: nat_str.induct)
  case (1 n)
  show ?case
  proof (cases "n < 10")
    case True
    then show ?thesis
      by (subst nat_str.simps) (simp add: digits_val_def digit_char_val)
  next
    case False
    with 1 have "digits_val (nat_str (n div 10) @ [digit_char (n mod 10)]) = 10 * (n div 10) + n mod 10"
      by (simp add: digits_val_snoc digit_char_val)
    with False show ?thesis
      by (subst nat_str.simps) simp
  qed
qed

lemma nat_str_inj: "nat_str a = nat_str b \<longleftrightarrow> a = b"
  by (metis digits_val_nat_str)

lemma nat_str_no_minus: "CHR ''-'' \<notin> set (nat_str n)"
  using nat_str_digits [of n] by (auto simp: is_digit_char_def)

lemma xtos_int_inj: "xtos_int a = xtos_int b \<longleftrightarrow> a = b"
proof
  assume eq: "xtos_int a = xtos_int b"
  have m: "nat_str n \<noteq> CHR ''-'' # s" for n s
    using nat_str_no_minus [of n] by auto
  from eq m m [symmetric] have "(a < 0) = (b < 0)"
    by (auto simp: xtos_int_def split: if_splits)
  with eq show "a = b"
    by (auto simp: xtos_int_def nat_str_inj split: if_splits)
qed simp

text \<open>Substring search: \<^verbatim>\<open>s.find(p) != npos\<close>.\<close>

fun starts_with :: "string \<Rightarrow> string \<Rightarrow> bool" where
  "starts_with [] _ = True"
| "starts_with (_ # _) [] = False"
| "starts_with (p # ps) (x # xs) = (p = x \<and> starts_with ps xs)"

fun contains_str :: "string \<Rightarrow> string \<Rightarrow> bool" where
  "contains_str p [] = (p = [])"
| "contains_str p (x # xs) = (starts_with p (x # xs) \<or> contains_str p xs)"

lemma starts_with_iff: "starts_with p s \<longleftrightarrow> (\<exists>v. s = p @ v)"
  by (induction p s rule: starts_with.induct) auto

lemma contains_str_iff: "contains_str p s \<longleftrightarrow> (\<exists>u v. s = u @ p @ v)"
proof (induction s)
  case Nil
  then show ?case by simp
next
  case (Cons x xs)
  have "(\<exists>u v. x # xs = u @ p @ v) \<longleftrightarrow> starts_with p (x # xs) \<or> (\<exists>u v. xs = u @ p @ v)"
  proof
    assume "\<exists>u v. x # xs = u @ p @ v"
    then obtain u v where e: "x # xs = u @ p @ v" by blast
    show "starts_with p (x # xs) \<or> (\<exists>u v. xs = u @ p @ v)"
      using e by (cases u) (auto simp: starts_with_iff)
  next
    assume "starts_with p (x # xs) \<or> (\<exists>u v. xs = u @ p @ v)"
    then show "\<exists>u v. x # xs = u @ p @ v"
      by (auto simp: starts_with_iff) (metis append_Nil, metis append_Cons)
  qed
  with Cons show ?case by simp
qed

end
