(* ===== verification/Cpp_Double.thy ===== *)
theory Cpp_Double
  imports Complex_Main Prelude
begin

text \<open>
  The C++ number types the filter engine computes with. A \<^verbatim>\<open>long long\<close> is an \<open>int\<close>
  between \<open>llong_min\<close> and \<open>llong_max\<close>. A \<^verbatim>\<open>double\<close> is an IEEE 754 binary64 value: a sign, a
  mantissa and an exponent, with infinities and NaN; the operations the code uses
  (comparison, conversion from and to integers, multiplication, \<^verbatim>\<open>std::round\<close> and the
  default stream output) are written out, with rounding to nearest even.
  \<open>d_val\<close> gives the real number a finite value stands for, and the lemmas say what the
  operations do to it. The functions of \<^verbatim>\<open>include/str/saturate.hpp\<close> follow.
\<close>

section \<open>The 64-bit signed range\<close>

definition llong_max :: int where "llong_max = 9223372036854775807"
definition llong_min :: int where "llong_min = - 9223372036854775808"

definition in_int64 :: "int \<Rightarrow> bool" where
  "in_int64 i \<longleftrightarrow> llong_min \<le> i \<and> i \<le> llong_max"

lemmas int64_defs = llong_max_def llong_min_def in_int64_def

section \<open>Values\<close>

datatype double = NaN | Inf bool | Fin bool nat int

definition signed :: "bool \<Rightarrow> nat \<Rightarrow> int" where
  "signed s m = (if s then - int m else int m)"

fun d_val :: "double \<Rightarrow> real" where
  "d_val (Fin s m e) = of_int (signed s m) * 2 powi e"
| "d_val _ = 0"

fun d_isnan :: "double \<Rightarrow> bool" where
  "d_isnan NaN = True"
| "d_isnan _ = False"

fun d_finite :: "double \<Rightarrow> bool" where
  "d_finite (Fin _ _ _) = True"
| "d_finite _ = False"

definition d_zero :: double where "d_zero = Fin False 0 0"

subsection \<open>Comparison\<close>

fun d_lt :: "double \<Rightarrow> double \<Rightarrow> bool" where
  "d_lt NaN _ = False"
| "d_lt _ NaN = False"
| "d_lt (Inf a) (Inf b) = (a \<and> \<not> b)"
| "d_lt (Inf a) (Fin _ _ _) = a"
| "d_lt (Fin _ _ _) (Inf b) = (\<not> b)"
| "d_lt (Fin s m e) (Fin s' m' e') =
     (signed s m * 2 ^ nat (e - min e e') < signed s' m' * 2 ^ nat (e' - min e e'))"

fun d_eq :: "double \<Rightarrow> double \<Rightarrow> bool" where
  "d_eq (Inf a) (Inf b) = (a = b)"
| "d_eq (Fin s m e) (Fin s' m' e') =
     (signed s m * 2 ^ nat (e - min e e') = signed s' m' * 2 ^ nat (e' - min e e'))"
| "d_eq _ _ = False"

definition d_le :: "double \<Rightarrow> double \<Rightarrow> bool" where
  "d_le a b \<longleftrightarrow> d_lt a b \<or> d_eq a b"

lemma scaled_val:
  assumes "k \<le> e"
  shows "of_int (a * 2 ^ nat (e - k)) * (2 powi k) = (of_int a * 2 powi e :: real)"
proof -
  have "(2::real) ^ nat (e - k) * 2 powi k = 2 powi (e - k) * 2 powi k"
    using assms by (simp add: power_int_def)
  also have "\<dots> = 2 powi e"
    by (simp flip: power_int_add)
  finally show ?thesis by (simp add: mult.assoc)
qed

lemma d_lt_val:
  "d_lt (Fin s m e) (Fin s' m' e') \<longleftrightarrow> d_val (Fin s m e) < d_val (Fin s' m' e')"
proof -
  let ?k = "min e e'"
  let ?a = "signed s m * 2 ^ nat (e - ?k)" and ?b = "signed s' m' * 2 ^ nat (e' - ?k)"
  have "?a < ?b \<longleftrightarrow> (of_int ?a :: real) * 2 powi ?k < of_int ?b * 2 powi ?k"
    by (simp only: mult_less_cancel_right_pos [OF zero_less_power_int [OF zero_less_numeral]] of_int_less_iff)
  also have "\<dots> \<longleftrightarrow> d_val (Fin s m e) < d_val (Fin s' m' e')"
    by (simp only: d_val.simps scaled_val [of ?k e "signed s m", OF min.cobounded1]
        scaled_val [of ?k e' "signed s' m'", OF min.cobounded2])
  finally show ?thesis by simp
qed

lemma d_eq_val:
  "d_eq (Fin s m e) (Fin s' m' e') \<longleftrightarrow> d_val (Fin s m e) = d_val (Fin s' m' e')"
proof -
  let ?k = "min e e'"
  let ?a = "signed s m * 2 ^ nat (e - ?k)" and ?b = "signed s' m' * 2 ^ nat (e' - ?k)"
  have "?a = ?b \<longleftrightarrow> (of_int ?a :: real) * 2 powi ?k = of_int ?b * 2 powi ?k"
    by (simp only: mult_cancel_right of_int_eq_iff) simp
  also have "\<dots> \<longleftrightarrow> d_val (Fin s m e) = d_val (Fin s' m' e')"
    by (simp only: d_val.simps scaled_val [of ?k e "signed s m", OF min.cobounded1]
        scaled_val [of ?k e' "signed s' m'", OF min.cobounded2])
  finally show ?thesis by simp
qed

lemma d_cmp_val:
  assumes "d_finite a" and "d_finite b"
  shows "d_lt a b \<longleftrightarrow> d_val a < d_val b" and "d_eq a b \<longleftrightarrow> d_val a = d_val b"
    and "d_le a b \<longleftrightarrow> d_val a \<le> d_val b"
proof -
  obtain s m e s' m' e' where ab: "a = Fin s m e" "b = Fin s' m' e'"
    using assms by (cases a; cases b) auto
  show lt: "d_lt a b \<longleftrightarrow> d_val a < d_val b" unfolding ab by (rule d_lt_val)
  show eq: "d_eq a b \<longleftrightarrow> d_val a = d_val b" unfolding ab by (rule d_eq_val)
  show "d_le a b \<longleftrightarrow> d_val a \<le> d_val b" by (auto simp: d_le_def lt eq)
qed

lemma d_nan_cmp [simp]:
  "\<not> d_lt NaN x" "\<not> d_lt x NaN" "\<not> d_eq NaN x" "\<not> d_eq x NaN" "\<not> d_le NaN x" "\<not> d_le x NaN"
  by (cases x; simp add: d_le_def)+

subsection \<open>Rounding to nearest even\<close>

fun nbits :: "nat \<Rightarrow> nat" where
  "nbits n = (if n = 0 then 0 else Suc (nbits (n div 2)))"

declare nbits.simps [simp del]

definition round_div_even :: "nat \<Rightarrow> nat \<Rightarrow> nat" where
  "round_div_even a b =
     (let q = a div b; r = a mod b
      in if 2 * r < b \<or> (2 * r = b \<and> even q) then q else Suc q)"

text \<open>\<open>n / d\<close> divided by \<open>2 ^ e\<close>, as a pair of naturals.\<close>

definition scale_num :: "nat \<Rightarrow> int \<Rightarrow> nat" where
  "scale_num n e = (if e < 0 then n * 2 ^ nat (- e) else n)"

definition scale_den :: "nat \<Rightarrow> int \<Rightarrow> nat" where
  "scale_den d e = (if e < 0 then d else d * 2 ^ nat e)"

definition d_round :: "bool \<Rightarrow> nat \<Rightarrow> nat \<Rightarrow> double" where
  "d_round s n d =
     (let e0 = int (nbits n) - int (nbits d) - 53;
          e1 = (if scale_num n e0 \<ge> 2 ^ 53 * scale_den d e0 then e0 + 1 else e0);
          e = max (- 1074) e1;
          m = round_div_even (scale_num n e) (scale_den d e)
      in if m = 0 then Fin s 0 0
         else if m * 2 ^ nat (e + 1074) \<ge> 2 ^ (1024 + 1074) then Inf s else Fin s m e)"

text \<open>\<^verbatim>\<open>static_cast<double>(i)\<close>\<close>

definition d_of_int :: "int \<Rightarrow> double" where
  "d_of_int i = d_round (i < 0) (nat \<bar>i\<bar>) 1"

fun d_mul :: "double \<Rightarrow> double \<Rightarrow> double" where
  "d_mul NaN _ = NaN"
| "d_mul _ NaN = NaN"
| "d_mul (Inf a) (Inf b) = Inf (a \<noteq> b)"
| "d_mul (Inf a) (Fin s m e) = (if m = 0 then NaN else Inf (a \<noteq> s))"
| "d_mul (Fin s m e) (Inf b) = (if m = 0 then NaN else Inf (s \<noteq> b))"
| "d_mul (Fin s m e) (Fin s' m' e') =
     (let k = e + e'; p = m * m'
      in d_round (s \<noteq> s') (if k < 0 then p else p * 2 ^ nat k) (if k < 0 then 2 ^ nat (- k) else 1))"

text \<open>The quotient of two finite values, with a non-zero divisor.\<close>

fun d_div :: "double \<Rightarrow> double \<Rightarrow> double" where
  "d_div NaN _ = NaN"
| "d_div _ NaN = NaN"
| "d_div (Inf a) (Inf b) = NaN"
| "d_div (Inf a) (Fin s m e) = Inf (a \<noteq> s)"
| "d_div (Fin s m e) (Inf b) = Fin (s \<noteq> b) 0 0"
| "d_div (Fin s m e) (Fin s' m' e') =
     (if m' = 0 then (if m = 0 then NaN else Inf (s \<noteq> s'))
      else let k = e - e'
           in d_round (s \<noteq> s') (if k < 0 then m else m * 2 ^ nat k) (if k < 0 then m' * 2 ^ nat (- k) else m'))"

text \<open>\<^verbatim>\<open>std::round\<close>: halves go away from zero.\<close>

fun d_std_round :: "double \<Rightarrow> double" where
  "d_std_round (Fin s m e) =
     (if e < 0 then Fin s ((2 * m + 2 ^ nat (- e)) div 2 ^ nat (1 - e)) 0 else Fin s m e)"
| "d_std_round x = x"

text \<open>Conversion to an integer: truncation towards zero.\<close>

fun d_trunc :: "double \<Rightarrow> int" where
  "d_trunc (Fin s m e) = signed s (if e < 0 then m div 2 ^ nat (- e) else m * 2 ^ nat e)"
| "d_trunc _ = 0"

lemma nbits_bounds: "n > 0 \<Longrightarrow> 2 ^ (nbits n - 1) \<le> n \<and> n < 2 ^ nbits n \<and> 0 < nbits n"
proof (induction n rule: nbits.induct)
  case (1 n)
  show ?case
  proof (cases "n div 2 = 0")
    case True
    with 1(2) have "n = 1" by simp
    then show ?thesis by (simp add: nbits.simps)
  next
    case False
    with 1 have ih: "2 ^ (nbits (n div 2) - 1) \<le> n div 2" "n div 2 < 2 ^ nbits (n div 2)"
      "0 < nbits (n div 2)" by auto
    obtain k where k: "nbits (n div 2) = Suc k" using ih(3) by (cases "nbits (n div 2)") auto
    have "nbits n = Suc (Suc k)" using 1(2) k by (subst nbits.simps) simp
    with ih k show ?thesis by auto
  qed
qed

lemma nbits_rec: "n \<noteq> 0 \<Longrightarrow> nbits n = Suc (nbits (n div 2))"
  by (simp add: nbits.simps [of n])

lemma nbits_1 [simp]: "nbits (Suc 0) = 1" "nbits 1 = 1" "nbits 0 = 0"
  by (simp_all add: nbits.simps)

lemma round_div_even_exact [simp]: "0 < b \<Longrightarrow> round_div_even (a * b) b = a"
  by (simp add: round_div_even_def)

lemma d_round_small:
  assumes "0 < n" and "n < 2 ^ 53"
  shows "d_round s n 1 = Fin s (n * 2 ^ (53 - nbits n)) (int (nbits n) - 53)"
proof -
  let ?b = "nbits n"
  have b: "2 ^ (?b - 1) \<le> n" "n < 2 ^ ?b" "0 < ?b" using nbits_bounds [OF assms(1)] by auto
  have b53: "?b \<le> 53"
  proof (rule ccontr)
    assume "\<not> ?b \<le> 53"
    then have "(2::nat) ^ 53 \<le> 2 ^ (?b - 1)" by (intro power_increasing) auto
    with b(1) assms(2) show False by linarith
  qed
  obtain k where k: "?b = Suc k" using b(3) by (cases ?b) auto
  have kk: "k \<le> 52" using k b53 by simp
  have e0: "nat (- (int ?b - int (nbits 1) - 53)) = 53 - k" using k kk by simp
  have ge: "2 ^ 53 \<le> n * 2 ^ (53 - k)"
  proof -
    have "(2::nat) ^ 53 = 2 ^ k * 2 ^ (53 - k)" using kk by (simp flip: power_add)
    also have "\<dots> \<le> n * 2 ^ (53 - k)" using b(1) k by simp
    finally show ?thesis .
  qed
  let ?m = "n * 2 ^ (53 - ?b)"
  have m1: "?m < 2 ^ 53"
  proof -
    have "?m < 2 ^ ?b * 2 ^ (53 - ?b)" using b(2) by simp
    also have "\<dots> = 2 ^ 53" using b53 by (simp flip: power_add)
    finally show ?thesis .
  qed
  have m0: "?m \<noteq> 0" using assms(1) by simp
  have le: "?m * 2 ^ nat (int ?b - 53 + 1074) < 2 ^ (1024 + 1074)"
  proof -
    have "?m * 2 ^ nat (int ?b - 53 + 1074) < 2 ^ 53 * 2 ^ nat (int ?b - 53 + 1074)" using m1 by simp
    also have "\<dots> \<le> 2 ^ 53 * 2 ^ 1074" using b53 by (intro mult_le_mono2 power_increasing) auto
    also have "\<dots> \<le> (2::nat) ^ (1024 + 1074)" by (simp flip: power_add)
    finally show ?thesis .
  qed
  have mx: "max (- 1074) (int ?b - 53) = int ?b - 53" by simp
  have sc: "scale_num n (int ?b - 53) = ?m" "scale_den 1 (int ?b - 53) = 1"
    using b53 by (auto simp: scale_num_def scale_den_def nat_diff_distrib)
  have r: "round_div_even ?m 1 = ?m" using round_div_even_exact [of 1 ?m] by simp
  have s0: "scale_num n (int ?b - 54) = n * 2 ^ (53 - k)" "scale_den 1 (int ?b - 54) = 1"
    using e0 k kk by (auto simp: scale_num_def scale_den_def)
  show ?thesis
    unfolding d_round_def Let_def
    using ge s0 mx sc r m0 le by (simp del: power_increasing_iff)
qed

lemma d_of_int_zero [simp]: "d_of_int 0 = Fin False 0 0"
  by (simp add: d_of_int_def d_round_def scale_num_def scale_den_def round_div_even_def Let_def)

text \<open>Integers of at most 53 bits survive the conversion to \<^verbatim>\<open>double\<close>.\<close>

lemma d_of_int_exact:
  assumes "\<bar>i\<bar> < 2 ^ 53"
  shows "d_finite (d_of_int i)" and "d_val (d_of_int i) = of_int i"
proof -
  have both: "d_finite (d_of_int i) \<and> d_val (d_of_int i) = of_int i"
  proof (cases "i = 0")
    case True
    then show ?thesis by (simp add: signed_def)
  next
    case False
    let ?n = "nat \<bar>i\<bar>" and ?b = "nbits (nat \<bar>i\<bar>)"
    have n: "0 < ?n" "?n < 2 ^ 53" using False assms by (simp_all add: nat_less_iff)
    have b: "2 ^ (?b - 1) \<le> ?n" using nbits_bounds [OF n(1)] by simp
    have b53: "?b \<le> 53"
    proof (rule ccontr)
      assume "\<not> ?b \<le> 53"
      then have "(2::nat) ^ 53 \<le> 2 ^ (?b - 1)" by (intro power_increasing) auto
      with b n(2) show False by linarith
    qed
    have eq: "d_of_int i = Fin (i < 0) (?n * 2 ^ (53 - ?b)) (int ?b - 53)"
      unfolding d_of_int_def by (rule d_round_small [OF n])
    have "signed (i < 0) (?n * 2 ^ (53 - ?b)) = i * 2 ^ nat (0 - (int ?b - 53))"
      using b53 by (simp add: signed_def nat_diff_distrib)
    then have "d_val (d_of_int i) = of_int (i * 2 ^ nat (0 - (int ?b - 53))) * 2 powi (int ?b - 53)"
      by (simp add: eq)
    also have "\<dots> = of_int i * 2 powi 0"
      using b53 by (intro scaled_val) simp
    finally show ?thesis by (simp add: eq)
  qed
  from both show "d_finite (d_of_int i)" "d_val (d_of_int i) = of_int i" by blast+
qed

section \<open>Exact quotients\<close>

lemma powi_two_pos: "(0::real) < 2 powi e" by (simp add: zero_less_power_int)

lemma powi_two_add: "(2::real) powi (i + j) = 2 powi i * 2 powi j" by (simp add: power_int_add)

lemma powi_two_less: "(2::real) powi i < 2 powi j \<longleftrightarrow> i < j"
proof
  show "i < j" if "(2::real) powi i < 2 powi j"
  proof (rule ccontr)
    assume "\<not> i < j"
    then have "(2::real) powi j \<le> 2 powi i" by (intro power_int_increasing) simp_all
    with that show False by simp
  qed
qed (simp add: power_int_strict_increasing)

lemma scale_ratio:
  assumes "0 < d"
  shows "real (scale_num n e) / real (scale_den d e) = real n / real d / 2 powi e"
    and "0 < scale_den d e"
proof -
  show "0 < scale_den d e" using assms by (simp add: scale_den_def)
  show "real (scale_num n e) / real (scale_den d e) = real n / real d / 2 powi e"
  proof (cases "e < 0")
    case True
    then have "2 powi e = inverse ((2::real) ^ nat (- e))" by (simp add: power_int_def power_one_over inverse_eq_divide)
    with True show ?thesis by (simp only: scale_num_def scale_den_def if_True divide_inverse inverse_inverse_eq) simp
  next
    case False
    then have "2 powi e = (2::real) ^ nat e" by (simp add: power_int_def)
    with False show ?thesis by (simp only: scale_num_def scale_den_def if_False) simp
  qed
qed

lemma nbits_real:
  assumes "0 < n"
  shows "2 powi (int (nbits n) - 1) \<le> real n" "real n < 2 powi int (nbits n)"
proof -
  have b: "2 ^ (nbits n - 1) \<le> n" "n < 2 ^ nbits n" "0 < nbits n" using nbits_bounds [OF assms] by auto
  have "int (nbits n) - 1 = int (nbits n - 1)" using b(3) by simp
  then have "2 powi (int (nbits n) - 1) = real (2 ^ (nbits n - 1))"
    by (simp only: power_int_of_nat of_nat_power of_nat_numeral)
  also have "\<dots> \<le> real n" using b(1) by (simp only: of_nat_le_iff)
  finally show "2 powi (int (nbits n) - 1) \<le> real n" .
  have "real n < real (2 ^ nbits n)" using b(2) by (simp only: of_nat_less_iff)
  then show "real n < 2 powi int (nbits n)" by simp
qed

text \<open>A quotient that is a normal binary64 value is not changed by rounding.\<close>

lemma d_round_exact:
  assumes m: "2 ^ 52 \<le> m" "m < 2 ^ 53" and e: "- 1074 \<le> e" "e \<le> 971" and d: "0 < d"
    and v: "real n / real d = real m * 2 powi e"
  shows "d_round s n d = Fin s m e"
proof -
  define a b where "a = int (nbits n)" and "b = int (nbits d)"
  have n: "0 < n" using v m d by (cases "n = 0") auto
  have mr: "2 powi 52 \<le> real m" "real m < 2 powi 53"
    using m by (simp_all add: numeral_power_le_of_nat_cancel_iff of_nat_less_numeral_power_cancel_iff)
  have nd: "real n = real m * 2 powi e * real d" using v d by (simp add: field_simps)
  have "2 powi (52 + e + (b - 1)) = (2 powi 52 * 2 powi e * 2 powi (b - 1) :: real)" by (simp only: powi_two_add)
  also have "\<dots> \<le> real m * 2 powi e * real d"
    using mr nbits_real(1) [OF d] by (intro mult_mono) (auto simp: b_def)
  also have "\<dots> < 2 powi a" using nbits_real(2) [OF n] nd a_def by simp
  finally have lo: "52 + e + (b - 1) < a" by (simp only: powi_two_less)
  have "2 powi (a - 1) \<le> real m * 2 powi e * real d" using nbits_real(1) [OF n] nd a_def by simp
  also have "real m * 2 powi e * real d < 2 powi 53 * 2 powi e * 2 powi b"
  proof (rule mult_strict_mono)
    show "real m * 2 powi e < 2 powi 53 * 2 powi e"
      using mr(2) powi_two_pos [of e] by (rule mult_strict_right_mono)
    show "real d < 2 powi b" unfolding b_def by (rule nbits_real(2) [OF d])
  qed simp_all
  also have "\<dots> = 2 powi (53 + e + b)" by (simp only: powi_two_add)
  finally have hi: "a - 1 < 53 + e + b" by (simp only: powi_two_less)
  define e0 where "e0 = a - b - 53"
  have e0: "e0 = e \<or> e0 = e - 1" using lo hi by (auto simp: e0_def)
  have cond: "scale_num n e0 \<ge> 2 ^ 53 * scale_den d e0 \<longleftrightarrow> e0 = e - 1"
  proof -
    have "2 ^ 53 * scale_den d e0 \<le> scale_num n e0 \<longleftrightarrow> real (2 ^ 53 * scale_den d e0) \<le> real (scale_num n e0)"
      by (simp only: of_nat_le_iff)
    also have "\<dots> \<longleftrightarrow> 2 powi 53 * real (scale_den d e0) \<le> real (scale_num n e0)" by simp
    also have "\<dots> \<longleftrightarrow> 2 powi 53 \<le> real (scale_num n e0) / real (scale_den d e0)"
      using scale_ratio(2) [OF d, of e0] by (simp only: pos_le_divide_eq of_nat_0_less_iff)
    also have "real (scale_num n e0) / real (scale_den d e0) = real m * 2 powi (e - e0)"
      unfolding scale_ratio(1) [OF d] v by (simp add: power_int_diff)
    also have "2 powi 53 \<le> real m * 2 powi (e - e0) \<longleftrightarrow> e0 = e - 1" using e0 mr by auto
    finally show ?thesis .
  qed
  have "real (scale_num n e) = real m * real (scale_den d e)"
    using scale_ratio(1) [OF d, of n e] scale_ratio(2) [OF d, of e] v by (simp add: field_simps)
  then have sn: "scale_num n e = m * scale_den d e" by (simp only: of_nat_mult [symmetric] of_nat_eq_iff)
  have "m * 2 ^ nat (e + 1074) < 2 ^ 53 * 2 ^ 2045"
    using m(2) e by (intro mult_less_le_imp_less power_increasing) simp_all
  also have "\<dots> = 2 ^ (1024 + 1074)" unfolding power_add [symmetric] by (rule arg_cong) simp
  finally have fin: "\<not> 2 ^ (1024 + 1074) \<le> m * 2 ^ nat (e + 1074)" by (simp only: not_le)
  have e1: "max (- 1074) (if scale_num n e0 \<ge> 2 ^ 53 * scale_den d e0 then e0 + 1 else e0) = e"
    unfolding cond using e0 e(1) by auto
  have m0: "m \<noteq> 0" using m(1) by auto
  have e0': "int (nbits n) - int (nbits d) - 53 = e0" by (simp add: e0_def a_def b_def)
  show ?thesis
    unfolding d_round_def Let_def e0' e1 sn round_div_even_exact [OF scale_ratio(2) [OF d]]
    using fin m0 by (simp only: if_False)
qed

section \<open>include/str/saturate.hpp\<close>

definition two63 :: double where "two63 = Fin False 1 63"
definition minus_two63 :: double where "minus_two63 = Fin True 1 63"

definition fits_int64 :: "double \<Rightarrow> bool" where
  "fits_int64 v \<longleftrightarrow> \<not> d_isnan v \<and> d_lt v two63 \<and> d_le minus_two63 v"

definition to_int64_saturating :: "double \<Rightarrow> int" where
  "to_int64_saturating v =
     (if d_isnan v then 0
      else if d_le two63 v then llong_max
      else if d_le v minus_two63 then llong_min
      else d_trunc v)"

lemma d_val_two63 [simp]: "d_val two63 = 2 ^ 63" "d_val minus_two63 = - (2 ^ 63)"
  "d_finite two63" "d_finite minus_two63"
  by (simp_all add: two63_def minus_two63_def signed_def power_int_def)

lemma signed_mult: "signed s (m * k) = signed s m * int k"
  by (simp add: signed_def)

lemma d_trunc_val:
  assumes "d_finite v"
  shows "of_int (d_trunc v) = (if d_val v < 0 then of_int \<lceil>d_val v\<rceil> else of_int \<lfloor>d_val v\<rfloor> :: real)"
proof -
  obtain s m e where v: "v = Fin s m e" using assms by (cases v) auto
  show ?thesis
  proof (cases "e < 0")
    case False
    then have "d_val v = of_int (signed s (m * 2 ^ nat e))"
      by (simp add: v power_int_def signed_def)
    with False show ?thesis by (simp add: v)
  next
    case True
    have inv: "(2::real) powi e = 1 / 2 ^ nat (- e)"
      using True by (simp add: power_int_def field_simps)
    have fl: "\<lfloor>real m / 2 ^ nat (- e)\<rfloor> = int (m div 2 ^ nat (- e))"
      using floor_divide_of_nat_eq [of m "2 ^ nat (- e)"] by simp
    have val: "d_val v = (if s then - (real m / 2 ^ nat (- e)) else real m / 2 ^ nat (- e))"
      by (simp add: v signed_def inv)
    have nn: "0 \<le> real m / 2 ^ nat (- e)" by simp
    show ?thesis
    proof (cases s)
      case True
      with val have "d_val v = - (real m / 2 ^ nat (- e))" by simp
      then have c: "\<lceil>d_val v\<rceil> = - int (m div 2 ^ nat (- e))"
        by (simp add: ceiling_minus fl)
      have dt: "d_trunc v = - int (m div 2 ^ nat (- e))"
        using True \<open>e < 0\<close> by (simp add: v signed_def)
      show ?thesis
      proof (cases "d_val v < 0")
        case True
        with c dt show ?thesis by simp
      next
        case False
        with \<open>d_val v = - (real m / 2 ^ nat (- e))\<close> have "m = 0" by (simp add: zero_less_divide_iff)
        with dt \<open>d_val v = - (real m / 2 ^ nat (- e))\<close> show ?thesis by simp
      qed
    next
      case False
      with val have dv: "d_val v = real m / 2 ^ nat (- e)" by simp
      have "\<not> d_val v < 0" unfolding dv using nn by linarith
      moreover have "\<lfloor>d_val v\<rfloor> = int (m div 2 ^ nat (- e))" by (simp add: dv fl)
      ultimately show ?thesis using False \<open>e < 0\<close> by (simp add: v signed_def)
    qed
  qed
qed

lemma fits_int64_val:
  "d_finite v \<Longrightarrow> fits_int64 v \<longleftrightarrow> - (2 ^ 63) \<le> d_val v \<and> d_val v < 2 ^ 63"
  by (cases v) (auto simp: fits_int64_def d_cmp_val(1,3) simp del: d_lt.simps d_val.simps)

lemma fits_int64_finite: "fits_int64 v \<Longrightarrow> d_finite v"
  by (cases v) (auto simp: fits_int64_def two63_def minus_two63_def d_le_def)

lemma to_int64_saturating_fits:
  assumes "fits_int64 v"
  shows "to_int64_saturating v = d_trunc v"
proof -
  have f: "d_finite v" using assms by (rule fits_int64_finite)
  with assms have b: "- (2 ^ 63) \<le> d_val v" "d_val v < 2 ^ 63" by (auto simp: fits_int64_val)
  have n: "\<not> d_isnan v" using f by (cases v) auto
  show ?thesis
  proof (cases "d_val v = - (2 ^ 63)")
    case True
    have "of_int (d_trunc v) = (- (2 ^ 63) :: real)"
      using d_trunc_val [OF f] True by simp
    then have "(of_int (d_trunc v) :: real) = of_int (- (2 ^ 63))" by simp
    then have "d_trunc v = - (2 ^ 63)" by (simp only: of_int_eq_iff)
    with True f n show ?thesis
      by (simp add: to_int64_saturating_def d_cmp_val(3) llong_min_def)
  next
    case False
    with b f n show ?thesis by (simp add: to_int64_saturating_def d_cmp_val(3))
  qed
qed

lemma d_trunc_in_int64:
  assumes "fits_int64 v"
  shows "in_int64 (d_trunc v)"
proof -
  have f: "d_finite v" using assms by (rule fits_int64_finite)
  with assms have b: "- (2 ^ 63) \<le> d_val v" "d_val v < 2 ^ 63" by (auto simp: fits_int64_val)
  have "- (2 ^ 63) \<le> (of_int (d_trunc v) :: real) \<and> of_int (d_trunc v) < (2 ^ 63 :: real)"
  proof (cases "d_val v < 0")
    case True
    then have "of_int (d_trunc v) = (of_int \<lceil>d_val v\<rceil> :: real)" using d_trunc_val [OF f] by simp
    moreover have "d_val v \<le> of_int \<lceil>d_val v\<rceil>" "of_int \<lceil>d_val v\<rceil> \<le> (0::real)"
      using True by (simp_all add: ceiling_le_zero)
    ultimately show ?thesis using b by linarith
  next
    case False
    then have "of_int (d_trunc v) = (of_int \<lfloor>d_val v\<rfloor> :: real)" using d_trunc_val [OF f] by simp
    moreover have "of_int \<lfloor>d_val v\<rfloor> \<le> d_val v" "(0::real) \<le> of_int \<lfloor>d_val v\<rfloor>"
      using False by simp_all
    ultimately show ?thesis using b by linarith
  qed
  then have "(of_int (- (2 ^ 63)) :: real) \<le> of_int (d_trunc v)" "(of_int (d_trunc v) :: real) < of_int (2 ^ 63)"
    by simp_all
  then have "- (2 ^ 63) \<le> d_trunc v" "d_trunc v < 2 ^ 63"
    by (simp_all only: of_int_le_iff of_int_less_iff)
  then show ?thesis by (simp add: int64_defs)
qed

lemma not_fits_saturates:
  assumes "\<not> fits_int64 v" and "\<not> d_isnan v"
  shows "to_int64_saturating v = llong_max \<or> to_int64_saturating v = llong_min"
proof (cases "d_finite v")
  case True
  with assms(1) have "d_val v < - (2 ^ 63) \<or> 2 ^ 63 \<le> d_val v" by (auto simp: fits_int64_val)
  with True assms(2) show ?thesis by (auto simp: to_int64_saturating_def d_cmp_val(3))
next
  case False
  with assms(2) show ?thesis
    by (cases v) (auto simp: to_int64_saturating_def d_le_def two63_def minus_two63_def)
qed

lemma to_int64_saturating_range: "in_int64 (to_int64_saturating v)"
proof (cases "fits_int64 v")
  case True
  then show ?thesis by (simp add: to_int64_saturating_fits d_trunc_in_int64)
next
  case False
  show ?thesis
  proof (cases "d_isnan v")
    case True
    then show ?thesis by (simp add: to_int64_saturating_def int64_defs)
  next
    case nn: False
    with False have "to_int64_saturating v = llong_max \<or> to_int64_saturating v = llong_min"
      by (intro not_fits_saturates)
    then show ?thesis by (auto simp: int64_defs)
  qed
qed

lemma to_int64_saturating_outside:
  assumes "d_finite v"
  shows "2 ^ 63 \<le> d_val v \<Longrightarrow> to_int64_saturating v = llong_max"
    and "d_val v < - (2 ^ 63) \<Longrightarrow> to_int64_saturating v = llong_min"
proof -
  have n: "\<not> d_isnan v" using assms by (cases v) auto
  show "2 ^ 63 \<le> d_val v \<Longrightarrow> to_int64_saturating v = llong_max"
    using assms n by (simp add: to_int64_saturating_def d_cmp_val(3))
  show "d_val v < - (2 ^ 63) \<Longrightarrow> to_int64_saturating v = llong_min"
    using assms n by (simp add: to_int64_saturating_def d_cmp_val(3))
qed

text \<open>
  C5. Converting a finite double to \<^verbatim>\<open>long long\<close> truncates towards zero and clamps the result to
  the 64-bit range: the undefined behaviour of the plain cast is never reached.
\<close>

theorem to_int64_saturating_clamps:
  assumes "d_finite v"
  shows "to_int64_saturating v =
    max llong_min (min llong_max (if d_val v < 0 then \<lceil>d_val v\<rceil> else \<lfloor>d_val v\<rfloor>))"
proof (cases "fits_int64 v")
  case True
  then have "in_int64 (d_trunc v)" by (rule d_trunc_in_int64)
  moreover have "d_trunc v = (if d_val v < 0 then \<lceil>d_val v\<rceil> else \<lfloor>d_val v\<rfloor>)"
    using d_trunc_val [OF assms] by (simp split: if_splits)
  ultimately show ?thesis
    using True by (simp add: to_int64_saturating_fits in_int64_def)
next
  case False
  then consider "2 ^ 63 \<le> d_val v" | "d_val v < - (2 ^ 63)"
    using assms by (auto simp: fits_int64_val)
  then show ?thesis
  proof cases
    case 1
    then have "2 ^ 63 \<le> \<lfloor>d_val v\<rfloor>" by (simp add: le_floor_iff)
    moreover have "\<not> d_val v < 0" using 1 by simp
    ultimately show ?thesis
      using to_int64_saturating_outside(1) [OF assms 1] by (simp add: int64_defs)
  next
    case 2
    then have "\<lceil>d_val v\<rceil> \<le> - (2 ^ 63)" by (simp add: ceiling_le_iff)
    moreover have "d_val v < 0" using 2 by simp
    ultimately show ?thesis
      using to_int64_saturating_outside(2) [OF assms 2] by (simp add: int64_defs)
  qed
qed

theorem to_int64_saturating_clamps_witness:
  "d_finite (Fin True 5 (- 1)) \<and> to_int64_saturating (Fin True 5 (- 1)) = - 2"
  using to_int64_saturating_clamps [of "Fin True 5 (- 1)"]
  by (simp add: int64_defs signed_def power_int_def ceiling_divide_eq_div)

section \<open>Stream output of a double\<close>

text \<open>
  \<^verbatim>\<open>std::stringstream << double\<close> prints six significant digits in the shorter of fixed and
  scientific notation, without trailing zeros. The value is \<open>n / d\<close> in naturals;
  \<open>dec_up\<close> and \<open>dec_down\<close> find its decimal exponent. A binary64 value is below
  \<open>10 ^ 309\<close> and, unless zero, above \<open>10 ^ (-324)\<close>, so 400 steps are enough.
\<close>

fun dec_up :: "nat \<Rightarrow> nat \<Rightarrow> nat \<Rightarrow> nat" where
  "dec_up 0 n d = 0"
| "dec_up (Suc k) n d = (if n \<ge> 10 * d then Suc (dec_up k n (10 * d)) else 0)"

fun dec_down :: "nat \<Rightarrow> nat \<Rightarrow> nat \<Rightarrow> nat" where
  "dec_down 0 n d = 0"
| "dec_down (Suc k) n d = (if n < d then Suc (dec_down k (10 * n) d) else 0)"

definition strip_zeros :: "string \<Rightarrow> string" where
  "strip_zeros s = rev (dropWhile (\<lambda>c. c = CHR ''0'') (rev s))"

definition pad2 :: "string \<Rightarrow> string" where
  "pad2 s = (if length s < 2 then CHR ''0'' # s else s)"

definition with_fraction :: "string \<Rightarrow> string \<Rightarrow> string" where
  "with_fraction a f = (let g = strip_zeros f in if g = [] then a else a @ CHR ''.'' # g)"

definition general_format :: "nat \<Rightarrow> nat \<Rightarrow> string" where
  "general_format n d =
     (let x0 = (if n < d then - int (dec_down 400 n d) else int (dec_up 400 n d));
          digs = (\<lambda>x. if x \<le> 5 then round_div_even (n * 10 ^ nat (5 - x)) d
                      else round_div_even n (d * 10 ^ nat (x - 5)));
          q0 = digs x0;
          x = (if q0 \<ge> 1000000 then x0 + 1 else x0);
          q = (if q0 \<ge> 1000000 then 100000 else q0);
          ds = nat_str q
      in if x < -4 \<or> x \<ge> 6
         then with_fraction (take 1 ds) (drop 1 ds) @ CHR ''e'' #
              (if x < 0 then CHR ''-'' else CHR ''+'') # pad2 (nat_str (nat \<bar>x\<bar>))
         else if x < 0 then with_fraction ''0'' (replicate (nat (- x) - 1) CHR ''0'' @ ds)
         else with_fraction (take (nat x + 1) ds) (drop (nat x + 1) ds))"

fun xtos_double :: "double \<Rightarrow> string" where
  "xtos_double NaN = ''nan''"
| "xtos_double (Inf s) = (if s then ''-inf'' else ''inf'')"
| "xtos_double (Fin s m e) =
     (let body = (if m = 0 then ''0''
                  else if e < 0 then general_format m (2 ^ nat (- e)) else general_format (m * 2 ^ nat e) 1)
      in if s then CHR ''-'' # body else body)"

end
