(* ===== verification/Number_Format.thy ===== *)
theory Number_Format
  imports Cpp_Double
begin

text \<open>
  The rendering of numbers in check messages (\<^verbatim>\<open>include/str/number_format.hpp\<close>):
  fixed-point output with a bounded number of decimals, and the configured radix and
  grouping characters. A digit string is read back with \<open>digits_val\<close> of the prelude.
\<close>

section \<open>Fixed-point output\<close>

text \<open>
  \<^verbatim>\<open>ss << std::fixed << std::setprecision(p) << v\<close> prints the decimal with \<open>p\<close> digits
  after the point that is nearest to the value, ties to even.
\<close>

definition pad_left :: "nat \<Rightarrow> string \<Rightarrow> string" where
  "pad_left k s = replicate (k - length s) CHR ''0'' @ s"

definition fixed_format :: "nat \<Rightarrow> nat \<Rightarrow> nat \<Rightarrow> string" where
  "fixed_format p n d =
     (let q = round_div_even (n * 10 ^ p) d
      in nat_str (q div 10 ^ p) @ (if p = 0 then [] else CHR ''.'' # pad_left p (nat_str (q mod 10 ^ p))))"

fun d_fixed :: "nat \<Rightarrow> double \<Rightarrow> string" where
  "d_fixed p NaN = ''nan''"
| "d_fixed p (Inf s) = (if s then ''-inf'' else ''inf'')"
| "d_fixed p (Fin s m e) =
     (let body = (if e < 0 then fixed_format p m (2 ^ nat (- e)) else fixed_format p (m * 2 ^ nat e) 1)
      in if s then CHR ''-'' # body else body)"

definition max_decimals :: int where "max_decimals = 15"

record number_format =
  decimals :: int
  byte_unit :: string
  decimal_separator :: string
  thousands_separator :: string

definition new_number_format :: number_format where
  "new_number_format = \<lparr>decimals = - 1, byte_unit = [], decimal_separator = ''.'', thousands_separator = []\<rparr>"

definition is_default :: "number_format \<Rightarrow> bool" where
  "is_default f \<longleftrightarrow> decimals f = - 1 \<and> byte_unit f = [] \<and> decimal_separator f = ''.'' \<and> thousands_separator f = []"

definition render_precision :: "int \<Rightarrow> nat" where
  "render_precision ds = nat (if ds < 0 then 3 else if ds > max_decimals then max_decimals else ds)"

text \<open>The text after the last character other than a zero is dropped, and a final point with it.\<close>

definition render_fixed :: "double \<Rightarrow> int \<Rightarrow> string" where
  "render_fixed v ds =
     (let out = d_fixed (render_precision ds) v
      in if ds \<ge> 0 then out
         else let kept = strip_zeros out
              in if kept = [] then out
                 else if last kept \<noteq> CHR ''.'' then kept
                 else if length kept = 1 then ''0'' else butlast kept)"

section \<open>Separators\<close>

fun insert_groups :: "nat \<Rightarrow> string \<Rightarrow> nat \<Rightarrow> string \<Rightarrow> string" where
  "insert_groups first sep i s =
     (if i > first + 3 then insert_groups first sep (i - 3) (take (i - 3) s @ sep @ drop (i - 3) s) else s)"

declare insert_groups.simps [simp del]

definition apply_separators :: "string \<Rightarrow> number_format \<Rightarrow> string" where
  "apply_separators plain fmt =
     (if decimal_separator fmt = ''.'' \<and> thousands_separator fmt = [] then plain
      else let int_part = takeWhile (\<lambda>c. c \<noteq> CHR ''.'') plain;
               fraction = drop 1 (dropWhile (\<lambda>c. c \<noteq> CHR ''.'') plain);
               first_digit = (if int_part \<noteq> [] \<and> (hd int_part = CHR ''-'' \<or> hd int_part = CHR ''+'') then 1 else 0);
               grouped = (if thousands_separator fmt = [] then int_part
                          else insert_groups first_digit (thousands_separator fmt) (length int_part) int_part)
           in if fraction = [] then grouped
              else grouped @ (if decimal_separator fmt = [] then ''.'' else decimal_separator fmt) @ fraction)"

definition render_number :: "double \<Rightarrow> number_format \<Rightarrow> string" where
  "render_number v fmt = apply_separators (render_fixed v (decimals fmt)) fmt"

text \<open>\<^verbatim>\<open>xtos_non_sci\<close> at an integral type prints no radix point, so nothing is trimmed.\<close>

definition xtos_non_sci_int :: "int \<Rightarrow> string" where
  "xtos_non_sci_int i = xtos_int i"

section \<open>Rendered decimals\<close>

lemma digits_val_append: "digits_val (a @ b) = digits_val a * 10 ^ length b + digits_val b"
proof (induction b rule: rev_induct)
  case (snoc c b)
  have "digits_val (a @ b @ [c]) = 10 * digits_val (a @ b) + digit_val c"
    using digits_val_snoc [of "a @ b" c] by simp
  with snoc show ?case by (simp add: digits_val_snoc algebra_simps)
qed (simp add: digits_val_def)

lemma digits_val_zeros: "digits_val (replicate k CHR ''0'') = 0"
  by (induction k) (simp_all add: digits_val_def digit_val_def)

lemma digits_val_pad_left [simp]: "digits_val (pad_left k s) = digits_val s"
  by (simp add: pad_left_def digits_val_append digits_val_zeros)

lemma nat_str_length_le: "n < 10 ^ k \<Longrightarrow> 0 < k \<Longrightarrow> length (nat_str n) \<le> k"
proof (induction n arbitrary: k rule: nat_str.induct)
  case (1 n)
  show ?case
  proof (cases "n < 10")
    case False
    then obtain k' where k: "k = Suc k'" "0 < k'"
      using 1(2,3) by (cases k; cases "k - 1") auto
    with 1(2) have "n div 10 < 10 ^ k'" by (simp add: less_mult_imp_div_less)
    with False 1(1) [OF False _ k(2)] k show ?thesis by (simp add: nat_str_rec(2))
  qed (use 1 in \<open>simp add: nat_str_rec(1)\<close>)
qed

lemma pad_left_length: "n < 10 ^ k \<Longrightarrow> 0 < k \<Longrightarrow> length (pad_left k (nat_str n)) = k"
  using nat_str_length_le [of n k] by (simp add: pad_left_def)

lemma pad_left_digits: "\<forall>c \<in> set (pad_left k (nat_str n)). is_digit_char c"
  using nat_str_digits [of n] by (auto simp: pad_left_def is_digit_char_def)

lemma round_div_even_near:
  assumes "0 < b"
  shows "\<bar>real (round_div_even a b) - real a / real b\<bar> \<le> 1 / 2"
proof -
  define q r where "q = a div b" and "r = a mod b"
  have a: "real a = real q * real b + real r"
    using div_mult_mod_eq [of a b] by (simp add: q_def r_def flip: of_nat_mult of_nat_add)
  have "r < b" using assms by (simp add: r_def)
  have "real a / real b = real q + real r / real b"
    using assms by (simp add: a field_simps)
  moreover have "2 * r \<le> b \<Longrightarrow> real r / real b \<le> 1 / 2" and "b \<le> 2 * r \<Longrightarrow> 1 / 2 \<le> real r / real b"
    and "real r / real b \<le> 1"
    using assms \<open>r < b\<close> by (simp_all add: field_simps flip: of_nat_mult)
  ultimately show ?thesis
    by (auto simp: round_div_even_def Let_def simp flip: q_def r_def)
qed

text \<open>The digits of the fixed-point rendering: \<open>p\<close> of them follow the point.\<close>

lemma fixed_format_digits:
  "\<exists>ip fp. fixed_format p n d = ip @ (if p = 0 then [] else CHR ''.'' # fp) \<and> length fp = p \<and> ip \<noteq> [] \<and>
     (\<forall>c \<in> set (ip @ fp). is_digit_char c) \<and> digits_val (ip @ fp) = round_div_even (n * 10 ^ p) d"
proof (cases "p = 0")
  case True
  let ?q = "round_div_even (n * 10 ^ p) d"
  have "fixed_format p n d = nat_str ?q" using True by (simp add: fixed_format_def)
  moreover have "digits_val (nat_str ?q) = ?q" by simp
  ultimately show ?thesis
    using True nat_str_digits [of ?q] by (intro exI [of _ "nat_str ?q"] exI [of _ "[]"]) simp
next
  case False
  let ?q = "round_div_even (n * 10 ^ p) d"
  let ?f = "pad_left p (nat_str (?q mod 10 ^ p))"
  have len: "length ?f = p" using False by (simp add: pad_left_length)
  have "digits_val (nat_str (?q div 10 ^ p) @ ?f) = ?q"
    by (simp only: digits_val_append len digits_val_pad_left digits_val_nat_str div_mult_mod_eq)
  then show ?thesis
    using False len nat_str_digits [of "?q div 10 ^ p"] pad_left_digits [of p "?q mod 10 ^ p"]
    by (intro exI [of _ "nat_str (?q div 10 ^ p)"] exI [of _ ?f]) (auto simp: fixed_format_def Let_def)
qed

lemma render_fixed_Fin:
  "0 \<le> ds \<Longrightarrow> \<exists>n d. 0 < d \<and> \<bar>d_val (Fin s m e)\<bar> = real n / real d \<and>
     render_fixed (Fin s m e) ds = (if s then ''-'' else []) @ fixed_format (render_precision ds) n d"
  by (intro exI [of _ "if e < 0 then m else m * 2 ^ nat e"] exI [of _ "if e < 0 then 2 ^ nat (- e) else 1"])
    (auto simp: render_fixed_def signed_def abs_mult power_int_def field_simps Let_def)

text \<open>
  C35. A rendered number has the width that was asked for: with \<open>ds\<close> decimals configured, a
  finite value is printed with exactly \<open>ds\<close> digits after the point, fifteen at most, and
  those digits are the nearest decimal of that width.
\<close>

theorem render_fixed_nearest:
  assumes "d_finite v" and "0 \<le> ds"
  defines "p \<equiv> nat (min ds 15)"
  shows "\<exists>sign ip fp. render_fixed v ds = sign @ ip @ (if p = 0 then [] else CHR ''.'' # fp) \<and>
    sign \<in> {[], ''-''} \<and> length fp = p \<and> (\<forall>c \<in> set (ip @ fp). is_digit_char c) \<and>
    \<bar>real (digits_val (ip @ fp)) / 10 ^ p - \<bar>d_val v\<bar>\<bar> \<le> 1 / (2 * 10 ^ p)"
proof -
  have p: "render_precision ds = p"
    using assms(2) by (auto simp: render_precision_def max_decimals_def p_def)
  obtain s m e where v: "v = Fin s m e" using assms(1) by (cases v) auto
  obtain n d where nd: "0 < d" "\<bar>d_val v\<bar> = real n / real d"
    "render_fixed v ds = (if s then ''-'' else []) @ fixed_format p n d"
    using render_fixed_Fin [OF assms(2), of s m e] unfolding v p by blast
  obtain ip fp where f: "fixed_format p n d = ip @ (if p = 0 then [] else CHR ''.'' # fp)" "length fp = p"
    "\<forall>c \<in> set (ip @ fp). is_digit_char c" "digits_val (ip @ fp) = round_div_even (n * 10 ^ p) d"
    using fixed_format_digits [of p n d] by blast
  have "\<bar>real (round_div_even (n * 10 ^ p) d) - real n * 10 ^ p / real d\<bar> \<le> 1 / 2"
    using round_div_even_near [OF nd(1), of "n * 10 ^ p"] by simp
  then have "\<bar>real (digits_val (ip @ fp)) - real n / real d * 10 ^ p\<bar> / 10 ^ p \<le> 1 / 2 / 10 ^ p"
    unfolding f(4) by (intro divide_right_mono) simp_all
  also have "\<bar>real (digits_val (ip @ fp)) - real n / real d * 10 ^ p\<bar> / 10 ^ p =
      \<bar>(real (digits_val (ip @ fp)) - real n / real d * 10 ^ p) / 10 ^ p\<bar>"
    by simp
  finally have "\<bar>real (digits_val (ip @ fp)) / 10 ^ p - \<bar>d_val v\<bar>\<bar> \<le> 1 / (2 * 10 ^ p)"
    unfolding nd(2) by (simp add: diff_divide_distrib)
  then show ?thesis
    using nd(3) f(1-3)
    by (intro exI [of _ "if s then ''-'' else []"] exI [of _ ip] exI [of _ fp]) simp
qed

theorem render_fixed_nearest_witness:
  "render_fixed (Fin False 5 (- 1)) 2 = ''2.50'' \<and> (\<exists>sign ip fp. ''2.50'' = sign @ ip @ CHR ''.'' # fp \<and>
    length fp = 2 \<and> \<bar>real (digits_val (ip @ fp)) / 100 - 5 / 2\<bar> \<le> 1 / 200)"
proof -
  have r: "render_fixed (Fin False 5 (- 1)) 2 = ''2.50''"
    by code_simp
  have v: "d_val (Fin False 5 (- 1)) = 5 / 2" by (simp add: signed_def power_int_def)
  obtain sign ip fp where "''2.50'' = sign @ ip @ CHR ''.'' # fp" "length fp = 2"
    "\<bar>real (digits_val (ip @ fp)) / 100 - 5 / 2\<bar> \<le> 1 / 200"
    using render_fixed_nearest [of "Fin False 5 (- 1)" 2] unfolding r v by auto
  then show ?thesis
    unfolding r by blast
qed

section \<open>Separators are lossless\<close>

lemma filter_insert_groups:
  "\<forall>c \<in> set sep. \<not> P c \<Longrightarrow> filter P (insert_groups first sep i s) = filter P s"
proof (induction first sep i s rule: insert_groups.induct)
  case (1 first sep i s)
  show ?case
  proof (cases "i > first + 3")
    case True
    have "filter P sep = []" using 1(2) by (simp add: filter_empty_conv)
    then have "filter P (take (i - 3) s @ sep @ drop (i - 3) s) = filter P (take (i - 3) s @ drop (i - 3) s)"
      by (simp only: filter_append append_Nil)
    with 1 show ?thesis by (simp only: insert_groups.simps [of first sep i s] True if_True append_take_drop_id)
  qed (simp only: insert_groups.simps [of first sep i s] if_False)
qed

lemma filter_grouped:
  "set sep \<inter> set s = {} \<Longrightarrow>
   filter (\<lambda>c. c \<notin> set sep) (if sep = [] then s else insert_groups first sep i s) = s"
  by (auto simp: filter_insert_groups filter_id_conv)

text \<open>
  Separators lose nothing: dropping the characters of the thousands separator and reading
  the radix character as a point gives back the plain number, for any grouping string and any
  radix character that do not occur among its digits.
\<close>

theorem apply_separators_lossless:
  assumes "plain = ip @ (if fp = [] then [] else CHR ''.'' # fp)" and "CHR ''.'' \<notin> set ip"
    and "decimal_separator fmt = [r]" and "r \<notin> set (thousands_separator fmt) \<union> set (ip @ fp)"
    and "set (thousands_separator fmt) \<inter> set (ip @ fp) = {}"
  shows "map (\<lambda>c. if c = r then CHR ''.'' else c)
    (filter (\<lambda>c. c \<notin> set (thousands_separator fmt)) (apply_separators plain fmt)) = plain"
proof -
  let ?t = "thousands_separator fmt"
  have same: "map (\<lambda>c. if c = r then CHR ''.'' else c) s = s" if "r \<notin> set s \<or> r = CHR ''.''" for s
    using that by (auto intro: map_idI)
  have parts: "takeWhile (\<lambda>c. c \<noteq> CHR ''.'') plain = ip"
    "drop 1 (dropWhile (\<lambda>c. c \<noteq> CHR ''.'') plain) = fp"
    using assms(1,2) by (auto simp: takeWhile_append dropWhile_append)
  have fp: "filter (\<lambda>c. c \<notin> set ?t) fp = fp"
    using assms(5) by (auto simp: filter_id_conv)
  have "set ?t \<inter> set ip = {}" using assms(5) by auto
  note ip = filter_grouped [OF this]
  show ?thesis
  proof (cases "decimal_separator fmt = ''.'' \<and> ?t = []")
    case True
    with assms(3) same [of plain] show ?thesis by (simp add: apply_separators_def)
  next
    case False
    define fd G where "fd = (if ip \<noteq> [] \<and> (hd ip = CHR ''-'' \<or> hd ip = CHR ''+'') then 1 else 0 :: nat)"
      and "G = (if ?t = [] then ip else insert_groups fd ?t (length ip) ip)"
    have "apply_separators plain fmt = G @ (if fp = [] then [] else r # fp)"
      unfolding apply_separators_def if_not_P [OF False] Let_def parts G_def fd_def by (simp add: assms(3))
    moreover have "filter (\<lambda>c. c \<notin> set ?t) G = ip" unfolding G_def by (rule ip)
    moreover have "filter (\<lambda>c. c \<notin> set ?t) (if fp = [] then [] else r # fp) = (if fp = [] then [] else r # fp)"
      using assms(4) fp by simp
    ultimately have "filter (\<lambda>c. c \<notin> set ?t) (apply_separators plain fmt) = ip @ (if fp = [] then [] else r # fp)"
      by (simp only: filter_append)
    then show ?thesis
      using assms(1,4) same [of ip] same [of fp] by simp
  qed
qed

theorem apply_separators_lossless_witness:
  "apply_separators ''1234567.25'' \<lparr>decimals = 2, byte_unit = [], decimal_separator = '','', thousands_separator = '' ''\<rparr> = ''1 234 567,25'' \<and>
   map (\<lambda>c. if c = CHR '','' then CHR ''.'' else c) (filter (\<lambda>c. c \<notin> set '' '') ''1 234 567,25'') = ''1234567.25''"
proof -
  let ?f = "\<lparr>decimals = 2, byte_unit = [], decimal_separator = '','', thousands_separator = '' ''\<rparr>"
  have g: "apply_separators ''1234567.25'' ?f = ''1 234 567,25''"
    by code_simp
  show ?thesis
    using apply_separators_lossless [of "''1234567.25''" "''1234567''" "''25''" ?f "CHR '',''"] unfolding g by simp
qed

end
