(* ===== verification/Str_Format.thy ===== *)
theory Str_Format
  imports Cpp_Double
begin

text \<open>
  The arithmetic and text helpers of \<^verbatim>\<open>include/str/format.hpp\<close>: range-checked 64-bit
  arithmetic (\<open>mul_checked\<close>, \<open>add_checked\<close>, \<open>negate_checked\<close>, \<open>llround_checked\<close>), the
  duration and byte units built on it, and the list and padding helpers. The lemmas say
  that the checked operations return the exact result when it fits a \<^verbatim>\<open>long long\<close> and
  throw otherwise, so no filter expression makes a signed overflow.
\<close>

section \<open>Checked arithmetic\<close>

text \<open>C++ integer division truncates towards zero.\<close>

definition cdiv :: "int \<Rightarrow> int \<Rightarrow> int" where
  "cdiv a b = (let q = \<bar>a\<bar> div \<bar>b\<bar> in if (a < 0) = (b < 0) then q else - q)"

text \<open>\<open>mul_checked\<close> at the instances the code uses: \<^verbatim>\<open>long long\<close> and \<^verbatim>\<open>double\<close>.\<close>

definition mul_checked :: "int \<Rightarrow> int \<Rightarrow> string \<Rightarrow> int res" where
  "mul_checked v factor what =
     (if factor \<le> 0 then Inr (v * factor)
      else if factor > llong_max then Inl (Out_Of_Range (what @ '' is too large''))
      else if v > cdiv llong_max factor then Inl (Out_Of_Range (what @ '' is too large''))
      else if v < cdiv llong_min factor then Inl (Out_Of_Range (what @ '' is too small''))
      else Inr (v * factor))"

definition d_max :: double where "d_max = Fin False 9007199254740991 971"
definition d_lowest :: double where "d_lowest = Fin True 9007199254740991 971"

definition mul_checked_double :: "double \<Rightarrow> int \<Rightarrow> string \<Rightarrow> double res" where
  "mul_checked_double v factor what =
     (if factor > 0 \<and> d_lt (d_div d_max (d_of_int factor)) v
      then Inl (Out_Of_Range (what @ '' is too large''))
      else if factor > 0 \<and> d_lt v (d_div d_lowest (d_of_int factor))
      then Inl (Out_Of_Range (what @ '' is too small''))
      else Inr (d_mul v (d_of_int factor)))"

definition add_checked :: "int \<Rightarrow> int \<Rightarrow> string \<Rightarrow> int res" where
  "add_checked a b what =
     (if b > 0 \<and> a > llong_max - b then Inl (Out_Of_Range (what @ '' is too large''))
      else if b < 0 \<and> a < llong_min - b then Inl (Out_Of_Range (what @ '' is too small''))
      else Inr (a + b))"

definition negate_checked :: "int \<Rightarrow> string \<Rightarrow> int res" where
  "negate_checked a what =
     (if a = llong_min then Inl (Out_Of_Range (what @ '' is too large'')) else Inr (- a))"

definition llround_checked :: "double \<Rightarrow> string \<Rightarrow> int res" where
  "llround_checked v what =
     (let r = d_std_round v
      in if \<not> fits_int64 r then Inl (Out_Of_Range (what @ '' is too large'')) else Inr (d_trunc r))"

lemma cdiv_pos: "0 \<le> a \<Longrightarrow> 0 < b \<Longrightarrow> cdiv a b = a div b"
  by (auto simp: cdiv_def Let_def)

lemma cdiv_neg: "a < 0 \<Longrightarrow> 0 < b \<Longrightarrow> cdiv a b = - ((- a) div b)"
  by (auto simp: cdiv_def Let_def)

lemma int_mult_le_iff_div:
  fixes v f m :: int
  assumes "0 < f"
  shows "v * f \<le> m \<longleftrightarrow> v \<le> m div f"
proof
  assume "v * f \<le> m"
  then have "v * f div f \<le> m div f" using assms by (rule zdiv_mono1)
  then show "v \<le> m div f" using assms by simp
next
  assume "v \<le> m div f"
  then have "v * f \<le> m div f * f" using assms by (simp add: mult_right_mono)
  moreover have "m div f * f + m mod f = m" by simp
  moreover have "0 \<le> m mod f" using assms by simp
  ultimately show "v * f \<le> m" by linarith
qed

lemma mul_checked_fits:
  assumes "0 < factor" and "factor \<le> llong_max"
  shows "mul_checked v factor what =
    (if in_int64 (v * factor) then Inr (v * factor)
     else Inl (Out_Of_Range (what @ (if v > 0 then '' is too large'' else '' is too small''))))"
proof -
  have hi: "v > cdiv llong_max factor \<longleftrightarrow> v * factor > llong_max"
    using assms int_mult_le_iff_div [of factor v llong_max]
    by (simp add: cdiv_pos llong_max_def not_le [symmetric])
  have lo: "v < cdiv llong_min factor \<longleftrightarrow> v * factor < llong_min"
    using assms int_mult_le_iff_div [of factor "- v" "- llong_min"]
    by (simp add: cdiv_neg llong_min_def not_le [symmetric]) linarith
  have pos: "v * factor > llong_max \<Longrightarrow> v > 0"
    using assms by (smt (verit) llong_max_def zero_less_mult_iff)
  have neg: "v * factor < llong_min \<Longrightarrow> \<not> v > 0"
    using assms by (smt (verit) llong_min_def zero_less_mult_iff)
  show ?thesis
    using assms hi lo pos neg by (auto simp: mul_checked_def in_int64_def not_less)
qed

lemma add_checked_fits:
  assumes "in_int64 a" and "in_int64 b"
  shows "add_checked a b what =
    (if in_int64 (a + b) then Inr (a + b)
     else Inl (Out_Of_Range (what @ (if a + b > 0 then '' is too large'' else '' is too small''))))"
  using assms by (auto simp: add_checked_def in_int64_def llong_min_def llong_max_def)

lemma negate_checked_fits:
  assumes "in_int64 a"
  shows "negate_checked a what =
    (if in_int64 (- a) then Inr (- a) else Inl (Out_Of_Range (what @ '' is too large'')))"
  using assms by (auto simp: negate_checked_def in_int64_def llong_min_def llong_max_def)

lemma llround_checked_range:
  assumes "llround_checked v what = Inr i"
  shows "in_int64 i"
  using assms by (auto simp: llround_checked_def Let_def d_trunc_in_int64 split: if_splits)

section \<open>Units\<close>

definition time_unit_multiplier :: "string \<Rightarrow> int" where
  "time_unit_multiplier unit =
     (let u = (case unit of [] \<Rightarrow> CHR '' '' | x # _ \<Rightarrow> x)
      in if u = CHR ''m'' \<or> u = CHR ''M'' then 60
         else if u = CHR ''h'' \<or> u = CHR ''H'' then 60 * 60
         else if u = CHR ''d'' \<or> u = CHR ''D'' then 24 * 60 * 60
         else if u = CHR ''w'' \<or> u = CHR ''W'' then 7 * 24 * 60 * 60
         else 1)"

text \<open>\<open>decode_byte_units\<close> at \<^verbatim>\<open>long long\<close> and at \<^verbatim>\<open>double\<close>.\<close>

definition decode_byte_units :: "int \<Rightarrow> string \<Rightarrow> int res" where
  "decode_byte_units v unit = (case unit of [] \<Rightarrow> Inr v | u # _ \<Rightarrow>
     if u = CHR ''B'' \<or> u = CHR ''b'' then Inr v
     else if u = CHR ''K'' \<or> u = CHR ''k'' then mul_checked v 1024 ''size''
     else if u = CHR ''M'' \<or> u = CHR ''m'' then mul_checked v (1024 * 1024) ''size''
     else if u = CHR ''G'' \<or> u = CHR ''g'' then mul_checked v (1024 * 1024 * 1024) ''size''
     else if u = CHR ''T'' \<or> u = CHR ''t'' then mul_checked v (1024 * 1024 * 1024 * 1024) ''size''
     else Inr v)"

definition decode_byte_units_double :: "double \<Rightarrow> string \<Rightarrow> double res" where
  "decode_byte_units_double v unit = (case unit of [] \<Rightarrow> Inr v | u # _ \<Rightarrow>
     if u = CHR ''B'' \<or> u = CHR ''b'' then Inr v
     else if u = CHR ''K'' \<or> u = CHR ''k'' then mul_checked_double v 1024 ''size''
     else if u = CHR ''M'' \<or> u = CHR ''m'' then mul_checked_double v (1024 * 1024) ''size''
     else if u = CHR ''G'' \<or> u = CHR ''g'' then mul_checked_double v (1024 * 1024 * 1024) ''size''
     else if u = CHR ''T'' \<or> u = CHR ''t'' then mul_checked_double v (1024 * 1024 * 1024 * 1024) ''size''
     else Inr v)"

section \<open>Lists\<close>

definition append_list :: "string \<Rightarrow> string \<Rightarrow> string \<Rightarrow> string" where
  "append_list lst item sep =
     (if item = [] then lst else if lst \<noteq> [] then lst @ sep @ item else lst @ item)"

fun join_from :: "string \<Rightarrow> string list \<Rightarrow> string \<Rightarrow> string" where
  "join_from acc [] key = acc"
| "join_from acc (s # ss) key = join_from (if acc \<noteq> [] then acc @ key @ s else s) ss key"

definition join :: "string list \<Rightarrow> string \<Rightarrow> string" where
  "join lst key = join_from [] lst key"

end
