(* ===== verification/Str_Time.thy ===== *)
theory Str_Time
  imports Str_Format
begin

text \<open>
  Dates and durations of \<^verbatim>\<open>include/str/format.hpp\<close>: the day count of a civil date, WMI
  timestamps, duration specifications and their rendering. An unsigned 32-bit result is
  written with its wrap-around (\<open>u32\<close>).
\<close>

definition u32 :: "int \<Rightarrow> int" where
  "u32 i = i mod 2 ^ 32"

section \<open>Calendar\<close>

definition days_from_civil :: "int \<Rightarrow> int \<Rightarrow> int \<Rightarrow> int" where
  "days_from_civil y0 m d =
     (let y = y0 - (if m \<le> 2 then 1 else 0);
          era = cdiv (if y \<ge> 0 then y else y - 399) 400;
          yoe = u32 (y - era * 400);
          doy = u32 (u32 (153 * u32 (m + (if m > 2 then - 3 else 9)) + 2) div 5 + d - 1);
          doe = u32 (u32 (yoe * 365) + yoe div 4 - yoe div 100 + doy)
      in era * 146097 + doe - 719468)"

text \<open>\<^verbatim>\<open>has_digits\<close> and \<^verbatim>\<open>num\<close>, the local functions of the timestamp parser.\<close>

definition has_digits :: "string \<Rightarrow> nat \<Rightarrow> nat \<Rightarrow> bool" where
  "has_digits v off n \<longleftrightarrow> off + n \<le> length v \<and> list_all is_digit_char (take n (drop off v))"

definition cim_num :: "string \<Rightarrow> nat \<Rightarrow> nat \<Rightarrow> int" where
  "cim_num v off n = int (digits_val (take n (drop off v)))"

definition parse_cim_datetime :: "string \<Rightarrow> int" where
  "parse_cim_datetime s =
     (if length s < 14 \<or> \<not> has_digits s 0 14 then 0
      else let year = cim_num s 0 4; month = cim_num s 4 2; day = cim_num s 6 2;
               hour = cim_num s 8 2; minute = cim_num s 10 2; second = cim_num s 12 2
           in if year < 1980 \<or> month < 1 \<or> month > 12 \<or> day < 1 \<or> day > 31 \<or> hour > 23 \<or> minute > 59 \<or> second > 60
              then 0
              else let epoch = days_from_civil year month day * 86400 + hour * 3600 + minute * 60 + second;
                       dot = length (takeWhile (\<lambda>c. c \<noteq> CHR ''.'') s)
                   in if dot < length s \<and> dot + 7 < length s \<and> (s ! (dot + 7) = CHR ''+'' \<or> s ! (dot + 7) = CHR ''-'') \<and>
                         has_digits s (dot + 8) 3
                      then let off_min = cim_num s (dot + 8) 3
                           in epoch - (if s ! (dot + 7) = CHR ''-'' then - off_min else off_min) * 60
                      else epoch)"

section \<open>Durations\<close>

text \<open>\<^verbatim>\<open>isspace\<close> of the C locale.\<close>

definition is_space_char :: "char \<Rightarrow> bool" where
  "is_space_char c \<longleftrightarrow> c = CHR '' '' \<or> (9 \<le> (of_char c :: nat) \<and> (of_char c :: nat) \<le> 13)"

definition is_time_unit :: "char \<Rightarrow> bool" where
  "is_time_unit c \<longleftrightarrow> c \<in> set ''sSmMhHdDwW''"

definition invalid_time :: "string \<Rightarrow> exn" where
  "invalid_time s = Invalid_Argument (''Invalid time specification: '' @ [CHR 0x27] @ s @ [CHR 0x27])"

definition validate_time_spec :: "string \<Rightarrow> unit res" where
  "validate_time_spec s =
     (let rest = dropWhile is_space_char s; after = dropWhile is_digit_char rest
      in if takeWhile is_digit_char rest = [] then Inl (invalid_time s)
         else let tail = (if after \<noteq> [] \<and> is_time_unit (hd after) then tl after else after)
              in if dropWhile is_space_char tail \<noteq> [] then Inl (invalid_time s) else Inr ())"

text \<open>
  The number before the first non-digit is read by \<^verbatim>\<open>boost::lexical_cast\<close>, the parameter
  \<open>cast\<close>; the unit is the first unit letter of the text.
\<close>

definition time_digits :: "string \<Rightarrow> string" where
  "time_digits s = takeWhile is_digit_char s"

definition unit_seconds :: "char \<Rightarrow> int" where
  "unit_seconds c =
     (if c \<in> set ''sS'' then 1 else if c \<in> set ''mM'' then 60 else if c \<in> set ''hH'' then 3600
      else if c \<in> set ''dD'' then 86400 else if c \<in> set ''wW'' then 604800 else 1)"

definition decode_time :: "(string \<Rightarrow> int res) \<Rightarrow> string \<Rightarrow> int \<Rightarrow> int res" where
  "decode_time cast s f =
     (case validate_time_spec s of Inl e \<Rightarrow> Inl e
      | Inr _ \<Rightarrow> (case cast (time_digits s) of Inl e \<Rightarrow> Inl e
         | Inr v \<Rightarrow> (case dropWhile (\<lambda>c. \<not> is_time_unit c) s of
              [] \<Rightarrow> mul_checked v f s
            | u # _ \<Rightarrow> mul_checked v (unit_seconds u * f) s)))"

definition stox_as_time_sec :: "(string \<Rightarrow> int res) \<Rightarrow> string \<Rightarrow> string \<Rightarrow> int res" where
  "stox_as_time_sec cast s default_unit =
     (case validate_time_spec s of Inl e \<Rightarrow> Inl e
      | Inr _ \<Rightarrow> (case cast (time_digits s) of Inl e \<Rightarrow> Inl e
         | Inr v \<Rightarrow> (let u = dropWhile (\<lambda>c. \<not> is_time_unit c) s
                    in mul_checked v (time_unit_multiplier (if u = [] then default_unit else u)) s)))"

datatype itos_as_time_unit = unit_second | unit_minute | unit_hour | unit_day | unit_week

fun unit_rank :: "itos_as_time_unit \<Rightarrow> nat" where
  "unit_rank unit_second = 0" | "unit_rank unit_minute = 1" | "unit_rank unit_hour = 2"
| "unit_rank unit_day = 3" | "unit_rank unit_week = 4"

definition parse_itos_as_time_unit :: "string \<Rightarrow> itos_as_time_unit res" where
  "parse_itos_as_time_unit s =
     (if s = ''s'' \<or> s = ''S'' then Inr unit_second else if s = ''m'' \<or> s = ''M'' then Inr unit_minute
      else if s = ''h'' \<or> s = ''H'' then Inr unit_hour else if s = ''d'' \<or> s = ''D'' then Inr unit_day
      else if s = ''w'' \<or> s = ''W'' then Inr unit_week
      else Inl (Invalid_Argument (''Invalid time unit: '' @ [CHR 0x27] @ s @ [CHR 0x27] @ '' (expected one of s|m|h|d|w)'')))"

text \<open>\<^verbatim>\<open>std::setfill('0') << std::setw(2)\<close> before an unsigned number is \<open>pad2\<close>.\<close>

definition u32_str :: "nat \<Rightarrow> string" where
  "u32_str n = nat_str (n mod 2 ^ 32)"

definition hh_mm :: "nat \<Rightarrow> string" where
  "hh_mm rest = (let h = (rest div 3600000) mod 2 ^ 32; rest' = (rest - h * 3600000)
     in pad2 (nat_str h) @ '':'' @ pad2 (u32_str (rest' div 60000)))"

definition itos_as_time :: "nat \<Rightarrow> itos_as_time_unit \<Rightarrow> string" where
  "itos_as_time time max_unit =
     (if time > 604800000 \<and> unit_rank max_unit \<ge> 4 then
        let w = (time div 604800000) mod 2 ^ 32; rest = time - w * 604800000;
            d = (rest div 86400000) mod 2 ^ 32; rest' = rest - d * 86400000
        in nat_str w @ ''w '' @ nat_str d @ ''d '' @ hh_mm rest'
      else if time > 86400000 \<and> unit_rank max_unit \<ge> 3 then
        let d = (time div 86400000) mod 2 ^ 32; rest = time - d * 86400000
        in nat_str d @ ''d '' @ hh_mm rest
      else if time > 3600000 \<and> unit_rank max_unit \<ge> 2 then hh_mm time
      else if time > 60000 \<and> unit_rank max_unit \<ge> 1 then ''0:'' @ pad2 (u32_str (time div 60000))
      else if time > 1000 then u32_str (time div 1000) @ ''s''
      else u32_str time)"

section \<open>The day count follows the calendar\<close>

definition leap_year :: "int \<Rightarrow> bool" where
  "leap_year y \<longleftrightarrow> 4 dvd y \<and> (\<not> 100 dvd y \<or> 400 dvd y)"

definition days_in_month :: "int \<Rightarrow> int \<Rightarrow> int" where
  "days_in_month y m =
     (if m = 2 then (if leap_year y then 29 else 28) else if m \<in> {4, 6, 9, 11} then 30 else 31)"

definition valid_date :: "int \<Rightarrow> int \<Rightarrow> int \<Rightarrow> bool" where
  "valid_date y m d \<longleftrightarrow> 1 \<le> m \<and> m \<le> 12 \<and> 1 \<le> d \<and> d \<le> days_in_month y m"

definition next_day :: "int \<Rightarrow> int \<Rightarrow> int \<Rightarrow> int \<times> int \<times> int" where
  "next_day y m d =
     (if d < days_in_month y m then (y, m, d + 1) else if m < 12 then (y, m + 1, 1) else (y + 1, 1, 1))"

lemma u32_id [simp]: "0 \<le> i \<Longrightarrow> i < 4294967296 \<Longrightarrow> u32 i = i"
  by (simp add: u32_def)

lemma era_floor: "cdiv (if y \<ge> 0 then y else y - 399) 400 = y div 400"
proof (cases "0 \<le> y")
  case False
  then have "cdiv (y - 399) 400 = - ((399 - y) div 400)" by (subst cdiv_neg) simp_all
  also have "(399 - y) div 400 = - (y div 400)"
    using pos_mod_bound [of 400 y] pos_mod_sign [of 400 y] mult_div_mod_eq [of 400 y]
    by (intro int_div_pos_eq [of _ _ _ "399 - y mod 400"]) linarith+
  finally show ?thesis using False by simp
qed (simp add: cdiv_pos)

text \<open>Days before the first of March of year \<open>y\<close>.\<close>

definition march_day :: "int \<Rightarrow> int" where
  "march_day y = 365 * y + y div 4 - y div 100 + y div 400"

lemma march_days:
  "y div 400 * 146097 + ((y mod 400) * 365 + (y mod 400) div 4 - (y mod 400) div 100) = march_day y"
proof -
  have d: "(y mod 400) div k = y div k - c * (y div 400)" if "k * c = 400" "0 < k" for k c
  proof -
    have "y = y mod 400 + k * (c * (y div 400))" using that by (simp flip: mult.assoc)
    then have "y div k = (y mod 400 + k * (c * (y div 400))) div k" by simp
    also have "\<dots> = c * (y div 400) + (y mod 400) div k" using that by (subst div_mult_self2) simp_all
    finally show ?thesis by simp
  qed
  have "(y mod 400) div 4 = y div 4 - 100 * (y div 400)" by (rule d) simp_all
  moreover have "(y mod 400) div 100 = y div 100 - 4 * (y div 400)" by (rule d) simp_all
  moreover have "y mod 400 = y - 400 * (y div 400)" by (simp add: minus_mult_div_eq_mod)
  ultimately show ?thesis by (simp add: march_day_def)
qed

lemma div_pred:
  fixes y k :: int
  assumes "0 < k"
  shows "y div k = (y - 1) div k + (if k dvd y then 1 else 0)"
proof (cases "k dvd y")
  case True
  then obtain q where y: "y = k * q" by blast
  have "(k * q - 1) div k = q - 1"
    using assms by (intro int_div_pos_eq [of _ _ _ "k - 1"]) (simp_all add: algebra_simps)
  with y True assms show ?thesis by simp
next
  case False
  have "0 \<le> y mod k" "y mod k < k" using assms by simp_all
  moreover have "y mod k \<noteq> 0" using False by (simp add: dvd_eq_mod_eq_0)
  moreover have "k * (y div k) + y mod k = y" by simp
  ultimately have "(y - 1) div k = y div k"
    by (intro int_div_pos_eq [of _ _ _ "y mod k - 1"]) linarith+
  with False show ?thesis by simp
qed

lemma leap_sum:
  fixes y a b c :: int
  assumes "a = a' + (if P then 1 else 0)" "b = b' + (if Q then 1 else 0)" "c = c' + (if R then 1 else 0)"
    and "Q \<Longrightarrow> P" "R \<Longrightarrow> Q"
  shows "365 * y + a - b + c = 365 * (y - 1) + a' - b' + c' + (if P \<and> (\<not> Q \<or> R) then 366 else 365)"
  using assms by (cases P; cases Q; cases R) auto

lemma march_step: "march_day y = march_day (y - 1) + (if leap_year y then 366 else 365)"
  unfolding march_day_def leap_year_def
proof (rule leap_sum)
  show "4 dvd y" if "100 dvd y" using that by (rule dvd_trans [rotated]) simp
  show "100 dvd y" if "400 dvd y" using that by (rule dvd_trans [rotated]) simp
qed (rule div_pred, simp)+

text \<open>The day of a March-based year, and that no unsigned operation wraps on valid arguments.\<close>

definition day_of_year :: "int \<Rightarrow> int \<Rightarrow> int" where
  "day_of_year m d = (153 * (m + (if m > 2 then - 3 else 9)) + 2) div 5 + d - 1"

lemma u32_day_of_year:
  assumes "1 \<le> m" "m \<le> 12" "1 \<le> d" "d \<le> 31"
  shows "u32 (u32 (153 * u32 (m + (if m > 2 then - 3 else 9)) + 2) div 5 + d - 1) = day_of_year m d"
    and "0 \<le> day_of_year m d" and "day_of_year m d \<le> 400"
proof -
  define k where "k = m + (if m > 2 then - 3 else 9)"
  have k: "0 \<le> k" "k \<le> 11" using assms by (auto simp: k_def)
  define q where "q = (153 * k + 2) div 5"
  have q: "0 \<le> q" "q \<le> 337"
    unfolding q_def using k by (simp add: pos_imp_zdiv_nonneg_iff, linarith)
  have "u32 (153 * u32 k + 2) div 5 = q" using k by (simp add: q_def)
  then show "u32 (u32 (153 * u32 (m + (if m > 2 then - 3 else 9)) + 2) div 5 + d - 1) = day_of_year m d"
    using q assms(3,4) unfolding day_of_year_def k_def [symmetric] q_def [symmetric] by simp
  show "0 \<le> day_of_year m d" "day_of_year m d \<le> 400"
    using q assms(3,4) unfolding day_of_year_def k_def [symmetric] q_def [symmetric] by simp_all
qed

lemma u32_year_of_era:
  fixes y j :: int
  assumes "0 \<le> j" "j \<le> 400"
  defines "k \<equiv> y mod 400"
  shows "u32 (u32 (k * 365) + k div 4 - k div 100 + j) = k * 365 + k div 4 - k div 100 + j"
proof -
  have k: "0 \<le> k" "k < 400" unfolding k_def by simp_all
  have "k div 100 \<le> k div 4" using k(1) by (intro zdiv_mono2) simp_all
  moreover have "k div 4 \<le> 100" using k by linarith
  moreover have "0 \<le> k div 100" using k(1) by (simp add: pos_imp_zdiv_nonneg_iff)
  moreover have "u32 (k * 365) = k * 365" using k by simp
  ultimately show ?thesis using k assms(1,2) by simp
qed

lemma days_from_civil_march:
  fixes y m d :: int
  assumes "1 \<le> m" "m \<le> 12" "1 \<le> d" "d \<le> 31"
  defines "y' \<equiv> y - (if m \<le> 2 then 1 else 0)"
  shows "days_from_civil y m d = march_day y' + day_of_year m d - 719468"
proof -
  have "u32 (y' mod 400) = y' mod 400"
    using pos_mod_bound [of 400 y'] by simp
  then have yoe: "u32 (y' - y' div 400 * 400) = y' mod 400"
    by (simp add: minus_div_mult_eq_mod)
  note d = u32_day_of_year [OF assms(1-4)]
  have "days_from_civil y m d = y' div 400 * 146097 +
      u32 (u32 (y' mod 400 * 365) + (y' mod 400) div 4 - (y' mod 400) div 100 + day_of_year m d) - 719468"
    by (simp only: days_from_civil_def Let_def y'_def [symmetric] era_floor yoe d(1))
  also have "\<dots> = march_day y' + day_of_year m d - 719468"
    by (simp only: u32_year_of_era [OF d(2,3)] march_days [of y', symmetric] add.assoc)
  finally show ?thesis .
qed

lemma valid_dateD: "valid_date y m d \<Longrightarrow> 1 \<le> m \<and> m \<le> 12 \<and> 1 \<le> d \<and> d \<le> 31"
  by (auto simp: valid_date_def days_in_month_def split: if_splits)

lemma month_cases:
  fixes m :: int
  assumes "1 \<le> m" "m \<le> 12"
  shows "m \<in> {1, 2, 3, 4, 5, 6, 7, 8, 9, 10, 11, 12}"
proof -
  consider "m \<le> 4" | "4 < m" "m \<le> 8" | "8 < m" by linarith
  then have "m \<in> {1, 2, 3, 4} \<or> m \<in> {5, 6, 7, 8} \<or> m \<in> {9, 10, 11, 12}"
    using assms by cases (simp_all, linarith+)
  then show ?thesis by blast
qed

lemma month_end:
  assumes "1 \<le> m" "m < 12" "m \<noteq> 2"
  shows "day_of_year (m + 1) 1 = day_of_year m (days_in_month y m) + 1"
proof -
  have "m \<in> {1, 2, 3, 4, 5, 6, 7, 8, 9, 10, 11, 12}" using assms by (intro month_cases) simp_all
  with assms(2,3) show ?thesis
    by (elim insertE emptyE; hypsubst) (simp_all add: day_of_year_def days_in_month_def)
qed

lemma february_end: "day_of_year 2 (days_in_month y 2) + 1 = (if leap_year y then 366 else 365)"
  and march_first: "day_of_year 3 1 = 0"
  and december_end: "day_of_year 1 1 = day_of_year 12 (days_in_month y 12) + 1"
  by (simp_all add: day_of_year_def days_in_month_def)

lemma days_in_month_range: "28 \<le> days_in_month y m \<and> days_in_month y m \<le> 31"
  by (simp add: days_in_month_def)

text \<open>
  C36. The day count is the calendar's: it is zero at 1970-01-01 and grows by exactly one from
  every valid date to the next, over month ends, leap days and year ends, in either direction
  from the epoch.
\<close>

theorem days_from_civil_counts_days:
  assumes "valid_date y m d"
  shows "days_from_civil 1970 1 1 = 0 \<and>
    (case next_day y m d of (y', m', d') \<Rightarrow> valid_date y' m' d' \<and> days_from_civil y' m' d' = days_from_civil y m d + 1)"
proof -
  note b = valid_dateD [OF assms]
  have epoch: "days_from_civil 1970 1 1 = 0"
    by (simp add: days_from_civil_march day_of_year_def march_day_def)
  show ?thesis
  proof (cases "d < days_in_month y m")
    case True
    then have "valid_date y m (d + 1)" using assms by (simp add: valid_date_def)
    with valid_dateD [OF this] b epoch True show ?thesis
      by (simp add: next_day_def days_from_civil_march day_of_year_def)
  next
    case False
    with assms have d: "d = days_in_month y m" by (simp add: valid_date_def)
    note r = days_in_month_range [of y m] days_in_month_range [of y "m + 1"] days_in_month_range [of "y + 1" 1]
    consider "m = 2" | "m = 12" | "m < 12" "m \<noteq> 2" using b by linarith
    then show ?thesis
    proof cases
      case 1
      with epoch march_step [of y] r february_end [of y] show ?thesis
        by (simp add: d next_day_def valid_date_def days_from_civil_march march_first)
    next
      case 2
      with epoch r december_end [of y] show ?thesis
        by (simp add: d next_day_def valid_date_def days_from_civil_march)
    next
      case 3
      with b epoch r month_end [of m y] show ?thesis
        by (auto simp: d next_day_def valid_date_def days_from_civil_march)
    qed
  qed
qed

theorem days_from_civil_counts_days_witness:
  "valid_date 2024 2 29 \<and> next_day 2024 2 29 = (2024, 3, 1) \<and> days_from_civil 2024 3 1 = days_from_civil 2024 2 29 + 1"
  using days_from_civil_counts_days [of 2024 2 29]
  by (simp add: valid_date_def next_day_def days_in_month_def leap_year_def)

section \<open>Durations\<close>

lemma dropWhile_append_all: "list_all P a \<Longrightarrow> dropWhile P (a @ b) = dropWhile P b"
  by (induction a) auto

lemma takeWhile_append_all: "list_all P a \<Longrightarrow> takeWhile P (a @ b) = a @ takeWhile P b"
  by (induction a) auto

text \<open>The shape of a duration: blanks, digits, at most one unit letter, blanks.\<close>

definition duration_text :: "string \<Rightarrow> string \<Rightarrow> string \<Rightarrow> string \<Rightarrow> bool" where
  "duration_text ws ds u ws' \<longleftrightarrow> list_all is_space_char ws \<and> ds \<noteq> [] \<and> list_all is_digit_char ds \<and>
     (u = [] \<or> (\<exists>c. u = [c] \<and> is_time_unit c)) \<and> list_all is_space_char ws'"

lemma char_classes:
  "is_space_char c \<Longrightarrow> \<not> is_digit_char c" "is_space_char c \<Longrightarrow> \<not> is_time_unit c"
  "is_digit_char c \<Longrightarrow> \<not> is_space_char c" "is_digit_char c \<Longrightarrow> \<not> is_time_unit c"
  "is_time_unit c \<Longrightarrow> \<not> is_digit_char c" "is_time_unit c \<Longrightarrow> \<not> is_space_char c"
  by (auto simp: is_space_char_def is_digit_char_def is_time_unit_def)

lemma while_stop: "x = [] \<or> \<not> P (hd x) \<Longrightarrow> takeWhile P x = [] \<and> dropWhile P x = x"
  by (cases x) auto

lemma duration_parts:
  assumes "duration_text ws ds u ws'"
  shows "ds \<noteq> []" "\<not> is_space_char (hd ds)" "u @ ws' = [] \<or> \<not> is_digit_char (hd (u @ ws'))"
    "ws' = [] \<or> \<not> is_time_unit (hd ws')"
proof -
  show "ds \<noteq> []" using assms by (simp add: duration_text_def)
  then show "\<not> is_space_char (hd ds)"
    using assms char_classes(3) by (cases ds) (simp_all add: duration_text_def)
  have ws': "ws' = [] \<or> is_space_char (hd ws')"
    using assms by (cases ws') (simp_all add: duration_text_def)
  then show "ws' = [] \<or> \<not> is_time_unit (hd ws')" using char_classes(2) by blast
  have "u = [] \<or> is_time_unit (hd u)" using assms by (auto simp: duration_text_def)
  with ws' show "u @ ws' = [] \<or> \<not> is_digit_char (hd (u @ ws'))"
    by (cases "u = []") (use char_classes(1,5) in \<open>simp_all, blast+\<close>)
qed

lemma validate_time_spec_accepts:
  assumes "duration_text ws ds u ws'"
  shows "validate_time_spec (ws @ ds @ u @ ws') = Inr ()"
proof -
  note p = duration_parts [OF assms]
  have a: "list_all is_space_char ws" "list_all is_digit_char ds" "list_all is_space_char ws'"
    "u = [] \<or> (\<exists>c. u = [c] \<and> is_time_unit c)"
    using assms by (simp_all add: duration_text_def)
  have 1: "dropWhile is_space_char (ws @ ds @ u @ ws') = ds @ u @ ws'"
    using a(1) p(1,2) by (cases ds) (simp_all add: dropWhile_append_all)
  have 2: "dropWhile is_digit_char (ds @ u @ ws') = u @ ws'" "takeWhile is_digit_char (ds @ u @ ws') = ds"
    using a(2) while_stop [of "u @ ws'" is_digit_char, OF p(3)] by (simp_all add: dropWhile_append_all takeWhile_append_all)
  have 3: "(if u @ ws' \<noteq> [] \<and> is_time_unit (hd (u @ ws')) then tl (u @ ws') else u @ ws') = ws'"
    using a(4) p(4) by auto
  have "dropWhile is_space_char ws' = []"
    using a(3) by (simp add: list_all_iff)
  then show ?thesis
    unfolding validate_time_spec_def Let_def 1 2 3 using p(1) by simp
qed

lemma validate_time_spec_rejects:
  assumes "validate_time_spec s = Inr ()"
  shows "\<exists>ws ds u ws'. s = ws @ ds @ u @ ws' \<and> duration_text ws ds u ws'"
proof -
  define rest where "rest = dropWhile is_space_char s"
  define after where "after = dropWhile is_digit_char rest"
  define u where "u = (if after \<noteq> [] \<and> is_time_unit (hd after) then [hd after] else [])"
  define ws' where "ws' = (if after \<noteq> [] \<and> is_time_unit (hd after) then tl after else after)"
  have e: "validate_time_spec s = (if takeWhile is_digit_char rest = [] then Inl (invalid_time s)
      else if dropWhile is_space_char ws' \<noteq> [] then Inl (invalid_time s) else Inr ())"
    unfolding validate_time_spec_def Let_def rest_def after_def ws'_def by (rule refl)
  have ok: "takeWhile is_digit_char rest \<noteq> []" "dropWhile is_space_char ws' = []"
    using assms unfolding e by (simp_all split: if_splits)
  have after: "after = u @ ws'" by (simp add: u_def ws'_def)
  have "s = takeWhile is_space_char s @ takeWhile is_digit_char rest @ after"
    unfolding after_def takeWhile_dropWhile_id unfolding rest_def takeWhile_dropWhile_id by (rule refl)
  then have "s = takeWhile is_space_char s @ takeWhile is_digit_char rest @ u @ ws'" unfolding after .
  moreover have "duration_text (takeWhile is_space_char s) (takeWhile is_digit_char rest) u ws'"
    using ok by (auto simp: duration_text_def u_def list_all_iff dest: set_takeWhileD)
  ultimately show ?thesis by blast
qed

text \<open>
  C37. A duration is accepted exactly when it is digits with at most one unit letter after
  them, between optional blanks; everything else, such as a misspelt unit, throws.
\<close>

theorem validate_time_spec_grammar:
  "validate_time_spec s =
     (if \<exists>ws ds u ws'. s = ws @ ds @ u @ ws' \<and> duration_text ws ds u ws' then Inr () else Inl (invalid_time s))"
proof (cases "validate_time_spec s = Inr ()")
  case True
  then show ?thesis using validate_time_spec_rejects [OF True] by (simp only: if_True)
next
  case False
  then have "\<not> (\<exists>ws ds u ws'. s = ws @ ds @ u @ ws' \<and> duration_text ws ds u ws')"
    using validate_time_spec_accepts by blast
  moreover have "validate_time_spec s = Inl (invalid_time s)"
    using False unfolding validate_time_spec_def Let_def by argo
  ultimately show ?thesis by (simp only: if_False)
qed

lemma decode_time_digits:
  assumes "duration_text [] ds u ws'"
  shows "time_digits (ds @ u @ ws') = ds"
    and "dropWhile (\<lambda>c. \<not> is_time_unit c) (ds @ u @ ws') = (if u = [] then [] else u @ ws')"
proof -
  have n: "list_all (\<lambda>c. \<not> is_time_unit c) ds" "list_all (\<lambda>c. \<not> is_time_unit c) ws'"
    using assms char_classes(2,4) by (simp_all add: duration_text_def list_all_iff)
  then have "dropWhile (\<lambda>c. \<not> is_time_unit c) ws' = []" by (simp add: list_all_iff)
  then show "dropWhile (\<lambda>c. \<not> is_time_unit c) (ds @ u @ ws') = (if u = [] then [] else u @ ws')"
    using assms n by (cases u) (auto simp: duration_text_def dropWhile_append_all)
  have "takeWhile is_digit_char (u @ ws') = []"
    using while_stop [of "u @ ws'" is_digit_char, OF duration_parts(3) [OF assms]] by simp
  then show "time_digits (ds @ u @ ws') = ds"
    using assms by (simp add: time_digits_def duration_text_def takeWhile_append_all)
qed

lemma unit_seconds_multiplier: "is_time_unit c \<Longrightarrow> unit_seconds c = time_unit_multiplier (c # cs)"
  by (auto simp: is_time_unit_def unit_seconds_def time_unit_multiplier_def)

lemma unit_seconds_range: "0 < unit_seconds c \<and> unit_seconds c \<le> 604800"
  by (simp add: unit_seconds_def)

text \<open>
  C38. Decoding a duration is exact or throws: with \<open>n\<close> read from its digits and the seconds
  of its unit letter, the result is their product whenever that fits a \<^verbatim>\<open>long long\<close>, and
  \<^verbatim>\<open>std::out_of_range\<close> otherwise - never a wrapped number.
\<close>

theorem decode_time_exact:
  assumes "duration_text [] ds u ws'" and "cast ds = Inr n" and "0 < f" and "f \<le> 4294967295"
  shows "decode_time cast (ds @ u @ ws') f =
    (let k = (if u = [] then 1 else unit_seconds (hd u)) * f
     in if in_int64 (n * k) then Inr (n * k)
        else Inl (Out_Of_Range ((ds @ u @ ws') @ (if n > 0 then '' is too large'' else '' is too small''))))"
proof -
  define k where "k = (if u = [] then 1 else unit_seconds (hd u)) * f"
  have "0 < k" using assms(3) unit_seconds_range [of "hd u"] by (simp add: k_def)
  have "k \<le> 604800 * 4294967295"
    unfolding k_def using assms(3,4) unit_seconds_range [of "hd u"] by (intro mult_mono) auto
  then have "k \<le> llong_max" by (simp add: llong_max_def)
  have "decode_time cast (ds @ u @ ws') f = mul_checked n k (ds @ u @ ws')"
    unfolding decode_time_def decode_time_digits [OF assms(1)] assms(2)
    using validate_time_spec_accepts [OF assms(1)] by (cases u) (simp_all add: k_def)
  also note mul_checked_fits [OF \<open>0 < k\<close> \<open>k \<le> llong_max\<close>, of n "ds @ u @ ws'"]
  finally show ?thesis unfolding Let_def k_def .
qed

theorem decode_time_exact_witness:
  "decode_time (\<lambda>s. Inr (int (digits_val s))) ''90m'' 1000 = Inr 5400000"
proof -
  have t: "duration_text [] ''90'' ''m'' []"
    by (simp add: duration_text_def is_digit_char_def is_time_unit_def)
  show ?thesis
    using decode_time_exact [OF t, of "\<lambda>s. Inr (int (digits_val s))" 90 1000]
    by (simp add: digits_val_def digit_val_def unit_seconds_def in_int64_def llong_min_def llong_max_def Let_def)
qed

text \<open>
  C39. Blanks before a duration are accepted by the validation and then break the decoding: the
  digits are read from the start of the text, so what is converted is the empty string.
\<close>

theorem decode_time_leading_blank:
  assumes "duration_text ws ds u ws'" and "ws \<noteq> []" and "cast [] = Inl e"
  shows "validate_time_spec (ws @ ds @ u @ ws') = Inr () \<and> decode_time cast (ws @ ds @ u @ ws') f = Inl e"
proof -
  have "\<not> is_digit_char (hd ws)"
    using assms(1,2) char_classes(1) by (cases ws) (simp_all add: duration_text_def)
  then have "time_digits (ws @ ds @ u @ ws') = []"
    using assms(2) by (cases ws) (simp_all add: time_digits_def)
  with validate_time_spec_accepts [OF assms(1)] assms(3) show ?thesis
    by (simp add: decode_time_def)
qed

theorem decode_time_leading_blank_witness:
  "validate_time_spec '' 5m'' = Inr () \<and>
   decode_time (\<lambda>s. if s = [] then Inl (Bad_Lexical_Cast []) else Inr (int (digits_val s))) '' 5m'' 1 = Inl (Bad_Lexical_Cast [])"
proof -
  have t: "duration_text '' '' ''5'' ''m'' []"
    by (simp add: duration_text_def is_space_char_def is_digit_char_def is_time_unit_def)
  show ?thesis
    using decode_time_leading_blank [OF t, of "\<lambda>s. if s = [] then Inl (Bad_Lexical_Cast []) else Inr (int (digits_val s))"]
    by simp
qed

section \<open>Rendered durations\<close>

lemma mod_mult_div: "(t mod (a * b)) div a = t div a mod b" for t a b :: nat
  by (cases "a = 0") (simp_all add: mod_mult2_eq)

lemma minus_div_mult_nat: "t - t div k * k = t mod k" for t k :: nat
  by (simp add: minus_div_mult_eq_mod)

lemma small_u32: "n < 4294967296 \<Longrightarrow> n mod 2 ^ 32 = n" for n :: nat
  by simp

lemma hh_mm_day:
  assumes "r < 86400000"
  shows "hh_mm r = pad2 (nat_str (r div 3600000)) @ '':'' @ pad2 (nat_str (r div 60000 mod 60))"
proof -
  have "r div 3600000 < 24" using assms by (simp add: less_mult_imp_div_less)
  then have h: "(r div 3600000) mod 2 ^ 32 = r div 3600000" by simp
  have m: "r mod 3600000 div 60000 = r div 60000 mod 60"
    using mod_mult_div [of r 60000 60] by simp
  have "r div 60000 mod 60 < 60" by simp
  then have "(r div 60000 mod 60) mod 2 ^ 32 = r div 60000 mod 60" by (intro small_u32) linarith
  then show ?thesis
    unfolding hh_mm_def Let_def h minus_div_mult_nat m u32_str_def by simp
qed

lemma hh_mm_time:
  "hh_mm (t mod 86400000) = pad2 (nat_str (t div 3600000 mod 24)) @ '':'' @ pad2 (nat_str (t div 60000 mod 60))"
proof -
  have a: "t mod 86400000 div 3600000 = t div 3600000 mod 24"
    using mod_mult_div [of t 3600000 24] by simp
  have "t mod 86400000 div 60000 mod 60 = t div 60000 mod 1440 mod 60"
    using mod_mult_div [of t 60000 1440] by simp
  also have "\<dots> = t div 60000 mod 60" by (simp add: mod_mod_cancel)
  finally show ?thesis using hh_mm_day [of "t mod 86400000"] a by simp
qed

text \<open>
  A duration above a week is rendered as its weeks, days, hours and minutes, each field
  within its range, for every duration below \<open>2 ^ 32\<close> weeks.
\<close>

theorem itos_as_time_fields:
  assumes "604800000 < t" and "t < 2 ^ 32 * 604800000"
  shows "itos_as_time t unit_week =
    nat_str (t div 604800000) @ ''w '' @ nat_str (t div 86400000 mod 7) @ ''d '' @
    pad2 (nat_str (t div 3600000 mod 24)) @ '':'' @ pad2 (nat_str (t div 60000 mod 60))"
proof -
  have w: "(t div 604800000) mod 2 ^ 32 = t div 604800000"
    using assms(2) by (simp add: less_mult_imp_div_less)
  have d: "t mod 604800000 div 86400000 = t div 86400000 mod 7"
    using mod_mult_div [of t 86400000 7] by simp
  have "t div 86400000 mod 7 < 7" by simp
  then have d': "(t mod 604800000 div 86400000) mod 2 ^ 32 = t mod 604800000 div 86400000"
    unfolding d by (intro small_u32) linarith
  have r: "t mod 604800000 mod 86400000 = t mod 86400000" by (simp add: mod_mod_cancel)
  have "unit_rank unit_week \<ge> 4" by simp
  with assms(1) have "itos_as_time t unit_week = nat_str (t div 604800000) @ ''w '' @
      nat_str (t mod 604800000 div 86400000) @ ''d '' @ hh_mm (t mod 604800000 mod 86400000)"
    unfolding itos_as_time_def Let_def w minus_div_mult_nat d' by (simp only: if_True simp_thms)
  then show ?thesis unfolding d r hh_mm_time .
qed

theorem itos_as_time_fields_witness:
  "itos_as_time 694861000 unit_week = ''1w 1d 01:01''"
  using itos_as_time_fields [of 694861000] by (simp add: nat_str_rec pad2_def digit_char_eval)

end
