(* ===== verification/Str_Units.thy ===== *)
theory Str_Units
  imports Str_Format Number_Format
begin

text \<open>
  Byte units, percentages and padding of \<^verbatim>\<open>include/str/format.hpp\<close>. The auto-scaler divides
  by 1024 at most seven times, so its loop is a recursion on the divisions left.
\<close>

definition d_neg :: "double \<Rightarrow> double" where
  "d_neg v = (case v of NaN \<Rightarrow> NaN | Inf s \<Rightarrow> Inf (\<not> s) | Fin s m e \<Rightarrow> Fin (\<not> s) m e)"

definition BKMG_RANGE :: string where "BKMG_RANGE = ''BKMGTPE?''"
definition BKMG_SIZE :: nat where "BKMG_SIZE = 7"

primrec scale_steps :: "nat \<Rightarrow> double \<Rightarrow> nat" where
  "scale_steps 0 rest = 0"
| "scale_steps (Suc k) rest = (if d_lt (d_of_int 999) rest then Suc (scale_steps k (d_div rest (d_of_int 1024))) else 0)"

definition auto_scale_index :: "double \<Rightarrow> nat" where
  "auto_scale_index v = scale_steps BKMG_SIZE (if d_lt v d_zero then d_neg v else v)"

text \<open>\<^verbatim>\<open>toupper\<close> of the C locale.\<close>

definition upper_char :: "char \<Rightarrow> char" where
  "upper_char c = (if 97 \<le> (of_char c :: nat) \<and> (of_char c :: nat) \<le> 122 then char_of ((of_char c :: nat) - 32) else c)"

definition byte_unit_index :: "string \<Rightarrow> int" where
  "byte_unit_index u =
     (if u = [] then - 1
      else let c = upper_char (hd u); i = length (takeWhile (\<lambda>x. x \<noteq> c) (take BKMG_SIZE BKMG_RANGE))
           in if i < BKMG_SIZE then int i else - 1)"

definition byte_unit_name :: "nat \<Rightarrow> string" where
  "byte_unit_name idx = [BKMG_RANGE ! (if idx > BKMG_SIZE then BKMG_SIZE else idx)] @ (if idx > 0 then ''B'' else [])"

primrec div_1024 :: "nat \<Rightarrow> double \<Rightarrow> double" where
  "div_1024 0 v = v"
| "div_1024 (Suc k) v = div_1024 k (d_div v (d_of_int 1024))"

definition format_byte_units_auto :: "double \<Rightarrow> number_format \<Rightarrow> string" where
  "format_byte_units_auto v fmt =
     (let pinned = byte_unit_index (byte_unit fmt);
          idx = (if pinned \<ge> 0 then nat pinned else auto_scale_index v)
      in render_number (div_1024 idx v) fmt @ byte_unit_name idx)"

definition convert_to_byte_units :: "int \<Rightarrow> string \<Rightarrow> double" where
  "convert_to_byte_units i u =
     (let idx = byte_unit_index u in if idx \<le> 0 then d_of_int i else div_1024 (nat idx) (d_of_int i))"

definition format_byte_units :: "int \<Rightarrow> string \<Rightarrow> number_format \<Rightarrow> string res" where
  "format_byte_units v u fmt =
     (if u = [] then Inr (render_number (d_of_int v) fmt)
      else let idx = byte_unit_index u
           in if idx < 0 then Inl (Invalid_Argument (''Unknown byte unit: '' @ u))
              else Inr (render_number (div_1024 (nat idx) (d_of_int v)) fmt))"

text \<open>The parameter is \<^verbatim>\<open>unsigned long long\<close>: a negative argument arrives modulo \<open>2 ^ 64\<close>.\<close>

definition find_proper_unit_BKMG :: "int \<Rightarrow> string" where
  "find_proper_unit_BKMG i = byte_unit_name (auto_scale_index (d_of_int (i mod 2 ^ 64)))"

section \<open>Percentages and padding\<close>

definition calc_pct_double :: "int \<Rightarrow> int \<Rightarrow> double" where
  "calc_pct_double v tot =
     (if tot \<le> 0 then d_zero else d_div (d_mul (d_of_int v) (d_of_int 100)) (d_of_int tot))"

definition format_pct :: "double \<Rightarrow> number_format \<Rightarrow> string" where
  "format_pct pct fmt = render_number pct (if decimals fmt < 0 then fmt\<lparr>decimals := 2\<rparr> else fmt)"

definition rpad :: "string \<Rightarrow> nat \<Rightarrow> string" where
  "rpad s len = (if length s > len then drop (length s - len) s else replicate (len - length s) CHR '' '' @ s)"

definition lpad :: "string \<Rightarrow> nat \<Rightarrow> string" where
  "lpad s len = (if length s > len then take len s else s @ replicate (len - length s) CHR '' '')"

definition strip_ctrl_chars :: "string \<Rightarrow> string" where
  "strip_ctrl_chars s = map (\<lambda>c. if of_char c \<in> {0, 7, 10, 11, 12, 13, 127 :: nat} then CHR ''?'' else c) s"

section \<open>Lemmas\<close>

lemma scale_steps_le: "scale_steps k v \<le> k"
  by (induction k arbitrary: v) auto

lemma auto_scale_index_le: "auto_scale_index v \<le> 7"
  using scale_steps_le [of 7] by (simp add: auto_scale_index_def BKMG_SIZE_def)

lemma byte_unit_index_range: "- 1 \<le> byte_unit_index u \<and> byte_unit_index u \<le> 6"
  by (simp add: byte_unit_index_def BKMG_SIZE_def Let_def)

text \<open>
  Every unit the auto-scaler can name is read back as the unit it stands for: for an index
  up to exabytes, \<^verbatim>\<open>byte_unit_index(byte_unit_name(i))\<close> is \<open>i\<close>, and the lower-case spelling
  means the same.
\<close>

theorem byte_unit_roundtrip:
  assumes "i < 7"
  shows "byte_unit_index (byte_unit_name i) = int i \<and>
    byte_unit_index (map (\<lambda>c. if c = CHR ''B'' then CHR ''b'' else char_of (of_char c + 32 :: nat)) (byte_unit_name i)) = int i"
proof -
  have "i = 0 \<or> i = 1 \<or> i = 2 \<or> i = 3 \<or> i = 4 \<or> i = 5 \<or> i = 6" using assms by linarith
  then show ?thesis by (elim disjE; hypsubst; code_simp)
qed

theorem byte_unit_roundtrip_witness:
  "byte_unit_name 3 = ''GB'' \<and> byte_unit_index ''GB'' = 3"
proof -
  have "byte_unit_name 3 = ''GB''" by code_simp
  then show ?thesis using byte_unit_roundtrip [of 3] by simp
qed

lemma pad_length: "length (rpad s k) = k" "length (lpad s k) = k"
  by (auto simp: rpad_def lpad_def)

section \<open>Scaling by 1024 is exact\<close>

lemma d_of_1024: "d_of_int 1024 = Fin False (2 ^ 52) (- 42)"
  using d_round_small [of 1024 False] by (simp add: d_of_int_def nbits_rec)

lemma d_div_1024:
  assumes "2 ^ 52 \<le> m'" "m' < 2 ^ 53" "- 1074 \<le> e'" "e' \<le> 971"
    and "real m * 2 powi (e - 10) = real m' * 2 powi e'"
  shows "d_div (Fin s m e) (d_of_int 1024) = Fin s m' e'"
proof -
  let ?n = "if e + 42 < 0 then m else m * 2 ^ nat (e + 42)"
  let ?d = "if e + 42 < 0 then 2 ^ 52 * 2 ^ nat (- (e + 42)) else (2 ^ 52 :: nat)"
  have "d_div (Fin s m e) (d_of_int 1024) = d_round s ?n ?d"
    unfolding d_of_1024 d_div.simps Let_def by (simp only: diff_minus_eq_add) simp
  moreover have "real ?n / real ?d = real m * (2 powi (e + 42) / 2 powi 52)"
    by (cases "e + 42 < 0") (simp_all add: power_int_def power_one_over)
  moreover have "2 powi (e + 42) / 2 powi 52 = (2 powi (e - 10) :: real)"
    using power_int_diff [of "2::real" "e + 42" 52] by simp
  moreover have "0 < ?d" by simp
  ultimately show ?thesis
    using d_round_exact [OF assms(1-4), of ?d ?n s] assms(5) by (simp only:)
qed

lemma div_1024_normal:
  assumes "2 ^ 52 \<le> m" "m < 2 ^ 53" "- 1074 + 10 * int k \<le> e" "e \<le> 971"
  shows "div_1024 k (Fin s m e) = Fin s m (e - 10 * int k)"
  using assms(3,4)
proof (induction k arbitrary: e)
  case (Suc k)
  have "d_div (Fin s m e) (d_of_int 1024) = Fin s m (e - 10)"
    using Suc.prems by (intro d_div_1024 assms(1,2)) simp_all
  with Suc.IH [of "e - 10"] Suc.prems show ?case by simp
qed simp

lemma d_round_zero: "d_round s 0 d = Fin s 0 0"
proof -
  have "round_div_even (scale_num 0 e) b = 0" for e b
    by (auto simp: scale_num_def round_div_even_def)
  then show ?thesis unfolding d_round_def Let_def by (simp only: refl if_True)
qed

lemma div_1024_zero: "div_1024 k (Fin False 0 0) = Fin False 0 0"
proof (induction k)
  case (Suc k)
  have "d_div (Fin False 0 0) (d_of_int 1024) = Fin False 0 0"
    unfolding d_of_1024 d_div.simps Let_def mult_0 if_cancel d_round_zero by simp
  with Suc show ?case by simp
qed simp

lemma nbits_le:
  assumes "0 < n" "n < 2 ^ k"
  shows "nbits n \<le> k"
proof (rule ccontr)
  assume "\<not> nbits n \<le> k"
  then have "(2::nat) ^ k \<le> 2 ^ (nbits n - 1)" by (intro power_increasing) simp_all
  with nbits_bounds [OF assms(1)] assms(2) show False by linarith
qed

lemma d_of_int_normal:
  assumes "i \<noteq> 0" "\<bar>i\<bar> < 2 ^ 53"
  obtains m e where "d_of_int i = Fin (i < 0) m e" "2 ^ 52 \<le> m" "m < 2 ^ 53" "- 52 \<le> e" "e \<le> 0"
proof -
  define n b where "n = nat \<bar>i\<bar>" and "b = nbits (nat \<bar>i\<bar>)"
  have n: "0 < n" "n < 2 ^ 53" using assms by (simp_all add: n_def nat_less_iff)
  have b: "2 ^ (b - 1) \<le> n" "n < 2 ^ b" "0 < b" using nbits_bounds [OF n(1)] by (simp_all add: n_def b_def)
  have b53: "b \<le> 53" using nbits_le [OF n] by (simp add: n_def b_def)
  have "d_of_int i = Fin (i < 0) (n * 2 ^ (53 - b)) (int b - 53)"
    unfolding d_of_int_def n_def [symmetric] using d_round_small [OF n] by (simp add: n_def b_def)
  moreover have "2 ^ 52 \<le> n * 2 ^ (53 - b)"
  proof -
    have "(2::nat) ^ 52 = 2 ^ (b - 1) * 2 ^ (53 - b)" using b(3) b53 by (simp flip: power_add)
    also have "\<dots> \<le> n * 2 ^ (53 - b)" using b(1) by (rule mult_le_mono1)
    finally show ?thesis .
  qed
  moreover have "n * 2 ^ (53 - b) < 2 ^ 53"
  proof -
    have "n * 2 ^ (53 - b) < 2 ^ b * 2 ^ (53 - b)" using b(2) by simp
    also have "\<dots> = 2 ^ 53" using b53 by (simp flip: power_add)
    finally show ?thesis .
  qed
  moreover have "- 52 \<le> int b - 53" "int b - 53 \<le> 0" using b(3) b53 by linarith+
  ultimately show ?thesis by (rule that)
qed

text \<open>
  Converting a byte count to a unit is exact: for every count of at most 53 bits the result
  is the count divided by the power of 1024 the unit names, with no rounding, and a text that
  names no unit leaves the count alone.
\<close>

theorem convert_to_byte_units_exact:
  assumes "\<bar>i\<bar> < 2 ^ 53"
  shows "d_finite (convert_to_byte_units i u) \<and>
    d_val (convert_to_byte_units i u) = of_int i / 1024 ^ nat (byte_unit_index u)"
proof (cases "byte_unit_index u \<le> 0")
  case True
  then show ?thesis using d_of_int_exact [OF assms] by (simp add: convert_to_byte_units_def)
next
  case False
  define k where "k = nat (byte_unit_index u)"
  have k: "k \<le> 6" using byte_unit_index_range [of u] unfolding k_def by linarith
  have c: "convert_to_byte_units i u = div_1024 k (d_of_int i)"
    using False by (simp add: convert_to_byte_units_def k_def Let_def)
  show ?thesis
  proof (cases "i = 0")
    case True
    then show ?thesis unfolding c by (simp add: div_1024_zero signed_def)
  next
    case False
    then obtain m e where me: "d_of_int i = Fin (i < 0) m e" "2 ^ 52 \<le> m" "m < 2 ^ 53" "- 52 \<le> e" "e \<le> 0"
      using assms by (rule d_of_int_normal)
    have d: "div_1024 k (d_of_int i) = Fin (i < 0) m (e - 10 * int k)"
      unfolding me(1) using me k by (intro div_1024_normal) simp_all
    have "(2::real) powi (e - 10 * int k) = 2 powi e / 2 powi int (10 * k)"
      by (simp add: power_int_diff)
    also have "(2::real) powi int (10 * k) = 1024 ^ k"
      by (simp only: power_int_of_nat power_mult) simp
    finally have "d_val (div_1024 k (d_of_int i)) = d_val (d_of_int i) / 1024 ^ k"
      unfolding d by (simp add: me(1))
    then show ?thesis using d_of_int_exact(2) [OF assms] d by (simp add: c k_def)
  qed
qed

theorem convert_to_byte_units_exact_witness:
  "byte_unit_index ''KB'' = 1 \<and> d_val (convert_to_byte_units 1536 ''KB'') = 3 / 2"
proof -
  have "byte_unit_index ''KB'' = 1" by code_simp
  then show ?thesis using convert_to_byte_units_exact [of 1536 "''KB''"] by simp
qed

lemma scale_steps_power:
  assumes "2 ^ 52 \<le> m" "m < 2 ^ 53" "- 1000 \<le> e" "e \<le> 971"
  shows "scale_steps (Suc k) (Fin False m e) =
    (if 999 < real m * 2 powi e then Suc (scale_steps k (Fin False m (e - 10))) else 0)"
proof -
  have "d_finite (d_of_int 999) \<and> d_val (d_of_int 999) = 999" using d_of_int_exact [of 999] by simp
  then have "d_lt (d_of_int 999) (Fin False m e) \<longleftrightarrow> 999 < real m * 2 powi e"
    using d_cmp_val(1) [of "d_of_int 999" "Fin False m e"] by (simp add: signed_def)
  moreover have "d_div (Fin False m e) (d_of_int 1024) = Fin False m (e - 10)"
    using assms by (intro d_div_1024) simp_all
  ultimately show ?thesis by (simp only: scale_steps.simps)
qed


end
