(* ===== verification/Nagios_Status.thy ===== *)
theory Nagios_Status
  imports Str_Format
begin

text \<open>
  Nagios return codes (\<^verbatim>\<open>NSCAPI.h\<close>) and the helpers of
  \<^verbatim>\<open>nscapi/nscapi_helper.cpp\<close> that combine and print them. The lemmas read the
  escalation functions as joins of two orders on the four codes.
\<close>

section \<open>Codes\<close>

type_synonym nagiosReturn = int

abbreviation (input) returnOK :: nagiosReturn where "returnOK \<equiv> 0"
abbreviation (input) returnWARN :: nagiosReturn where "returnWARN \<equiv> 1"
abbreviation (input) returnCRIT :: nagiosReturn where "returnCRIT \<equiv> 2"
abbreviation (input) returnUNKNOWN :: nagiosReturn where "returnUNKNOWN \<equiv> 3"

definition isNagiosReturnCode :: "nagiosReturn \<Rightarrow> bool" where
  "isNagiosReturnCode code \<longleftrightarrow>
     code = returnOK \<or> code = returnWARN \<or> code = returnCRIT \<or> code = returnUNKNOWN"

section \<open>Combining\<close>

definition escalteReturnCodeToCRIT :: "nagiosReturn \<Rightarrow> nagiosReturn" where
  "escalteReturnCodeToCRIT currentReturnCode = returnCRIT"

definition escalteReturnCodeToWARN :: "nagiosReturn \<Rightarrow> nagiosReturn" where
  "escalteReturnCodeToWARN currentReturnCode =
     (if currentReturnCode \<noteq> returnCRIT then returnWARN else currentReturnCode)"

definition escalateReturnCodeToUNKNOWN :: "nagiosReturn \<Rightarrow> nagiosReturn" where
  "escalateReturnCodeToUNKNOWN currentReturnCode =
     (if currentReturnCode = returnOK then returnUNKNOWN else currentReturnCode)"

definition maxState :: "nagiosReturn \<Rightarrow> nagiosReturn \<Rightarrow> nagiosReturn" where
  "maxState a b =
     (if a = returnUNKNOWN \<or> b = returnUNKNOWN then returnUNKNOWN
      else if a = returnCRIT \<or> b = returnCRIT then returnCRIT
      else if a = returnWARN \<or> b = returnWARN then returnWARN
      else if a = returnOK \<or> b = returnOK then returnOK
      else returnUNKNOWN)"

section \<open>Printing\<close>

definition translateReturn :: "nagiosReturn \<Rightarrow> string" where
  "translateReturn returnCode =
     (if returnCode = returnOK then ''OK''
      else if returnCode = returnCRIT then ''CRITICAL''
      else if returnCode = returnWARN then ''WARNING''
      else if returnCode = returnUNKNOWN then ''UNKNOWN''
      else ''BAD_CODE: '' @ xtos_int returnCode)"

definition translateReturn_str :: "string \<Rightarrow> nagiosReturn" where
  "translateReturn_str str =
     (if str = ''OK'' \<or> str = ''ok'' then returnOK
      else if str = ''CRITICAL'' \<or> str = ''critical'' then returnCRIT
      else if str = ''WARNING'' \<or> str = ''warning'' then returnWARN
      else returnUNKNOWN)"

section \<open>The orders\<close>

text \<open>
  The rank in which a check escalates: an unknown verdict replaces only OK, and a warning
  replaces everything but critical.
\<close>

definition severity :: "nagiosReturn \<Rightarrow> nat" where
  "severity c = (if c = returnCRIT then 3 else if c = returnWARN then 2 else if c = returnUNKNOWN then 1 else 0)"

lemma severity_inj:
  "isNagiosReturnCode a \<Longrightarrow> isNagiosReturnCode b \<Longrightarrow> severity a = severity b \<longleftrightarrow> a = b"
  by (auto simp: isNagiosReturnCode_def severity_def)

lemma escalate_severity:
  assumes "isNagiosReturnCode c"
  shows "severity (escalteReturnCodeToCRIT c) = max (severity c) (severity returnCRIT)"
    and "severity (escalteReturnCodeToWARN c) = max (severity c) (severity returnWARN)"
    and "severity (escalateReturnCodeToUNKNOWN c) = max (severity c) (severity returnUNKNOWN)"
  using assms
  by (auto simp: isNagiosReturnCode_def severity_def escalteReturnCodeToCRIT_def
      escalteReturnCodeToWARN_def escalateReturnCodeToUNKNOWN_def)

lemma escalate_valid [simp]:
  "isNagiosReturnCode (escalteReturnCodeToCRIT c)"
  "isNagiosReturnCode (escalteReturnCodeToWARN c)"
  "isNagiosReturnCode c \<Longrightarrow> isNagiosReturnCode (escalateReturnCodeToUNKNOWN c)"
  by (auto simp: isNagiosReturnCode_def escalteReturnCodeToCRIT_def escalteReturnCodeToWARN_def
      escalateReturnCodeToUNKNOWN_def)

text \<open>
  The interface of an escalation: it raises a valid code to at least its own level and leaves
  a more severe one alone. Clients use these facts, never the tables behind them.
\<close>

locale escalation =
  fixes esc :: "nagiosReturn \<Rightarrow> nagiosReturn" and level :: nagiosReturn
  assumes esc_valid: "isNagiosReturnCode c \<Longrightarrow> isNagiosReturnCode (esc c)"
    and esc_severity: "isNagiosReturnCode c \<Longrightarrow> severity (esc c) = max (severity c) (severity level)"
    and level_valid: "isNagiosReturnCode level"
begin

lemma inflationary: "isNagiosReturnCode c \<Longrightarrow> severity c \<le> severity (esc c)"
  by (simp add: esc_severity)

lemma reaches_level: "isNagiosReturnCode c \<Longrightarrow> severity level \<le> severity (esc c)"
  by (simp add: esc_severity)

lemma idempotent: "isNagiosReturnCode c \<Longrightarrow> esc (esc c) = esc c"
  by (rule severity_inj [THEN iffD1]) (simp_all add: esc_valid esc_severity)

lemma absorbs: "isNagiosReturnCode c \<Longrightarrow> severity level \<le> severity c \<Longrightarrow> esc c = c"
  by (rule severity_inj [THEN iffD1]) (simp_all add: esc_valid esc_severity)

lemma raises: "isNagiosReturnCode c \<Longrightarrow> severity c \<le> severity level \<Longrightarrow> esc c = level"
  by (rule severity_inj [THEN iffD1]) (simp_all add: esc_valid esc_severity level_valid)

end

interpretation crit: escalation escalteReturnCodeToCRIT returnCRIT
  by unfold_locales (simp_all add: escalate_severity, simp add: isNagiosReturnCode_def)

interpretation warn: escalation escalteReturnCodeToWARN returnWARN
  by unfold_locales (simp_all add: escalate_severity, simp add: isNagiosReturnCode_def)

interpretation unknown: escalation escalateReturnCodeToUNKNOWN returnUNKNOWN
  by unfold_locales (simp_all add: escalate_severity, simp add: isNagiosReturnCode_def)

text \<open>
  On valid codes \<open>maxState\<close> is the maximum of the numeric order
  OK < WARNING < CRITICAL < UNKNOWN, whatever the order of the arguments.
\<close>

theorem maxState_is_max:
  assumes "isNagiosReturnCode a" and "isNagiosReturnCode b"
  shows "maxState a b = max a b"
  using assms by (auto simp: isNagiosReturnCode_def maxState_def)

theorem maxState_is_max_witness:
  "isNagiosReturnCode 1 \<and> isNagiosReturnCode 2 \<and> maxState 1 2 = 2"
  using maxState_is_max [of 1 2] by (simp add: isNagiosReturnCode_def)

lemma translateReturn_roundtrip:
  "isNagiosReturnCode c \<Longrightarrow> translateReturn_str (translateReturn c) = c"
  by (auto simp: isNagiosReturnCode_def translateReturn_def translateReturn_str_def)

end
