(* ===== verification/Where_Value.thy ===== *)
theory Where_Value
  imports Str_Format
begin

text \<open>
  The values of the filter language: \<^verbatim>\<open>value_type\<close>, \<^verbatim>\<open>operators\<close> and
  \<^verbatim>\<open>value_container\<close> of \<^verbatim>\<open>parsers/where/node.hpp\<close> and
  \<^verbatim>\<open>node.cpp\<close>, and the type predicates of \<^verbatim>\<open>helpers.cpp\<close>.
\<close>

section \<open>Types and operators\<close>

text \<open>The enumerators are used as numbers (ranges of custom types), so a type is its code.\<close>

type_synonym value_type = int

abbreviation (input) type_invalid :: value_type where "type_invalid \<equiv> 99"
abbreviation (input) type_tbd :: value_type where "type_tbd \<equiv> 66"
abbreviation (input) type_multi :: value_type where "type_multi \<equiv> 88"
abbreviation (input) type_int :: value_type where "type_int \<equiv> 1"
abbreviation (input) type_bool :: value_type where "type_bool \<equiv> 2"
abbreviation (input) type_float :: value_type where "type_float \<equiv> 3"
abbreviation (input) type_string :: value_type where "type_string \<equiv> 10"
abbreviation (input) type_date :: value_type where "type_date \<equiv> 20"
abbreviation (input) type_size :: value_type where "type_size \<equiv> 30"
abbreviation (input) type_custom_int :: value_type where "type_custom_int \<equiv> 1024"
abbreviation (input) type_custom_int_end :: value_type where "type_custom_int_end \<equiv> 1124"
abbreviation (input) type_custom_string :: value_type where "type_custom_string \<equiv> 2048"
abbreviation (input) type_custom_string_end :: value_type where "type_custom_string_end \<equiv> 2148"
abbreviation (input) type_custom_float :: value_type where "type_custom_float \<equiv> 3096"
abbreviation (input) type_custom_float_end :: value_type where "type_custom_float_end \<equiv> 3196"
abbreviation (input) type_custom :: value_type where "type_custom \<equiv> 4096"

datatype operators =
    op_eq | op_le | op_lt | op_gt | op_ge | op_ne | op_in | op_nin | op_or | op_and | op_inv
  | op_not | op_like | op_not_like | op_binand | op_binor | op_regexp | op_not_regexp

definition type_to_string :: "value_type \<Rightarrow> string" where
  "type_to_string type =
     (if type = type_bool then ''bool''
      else if type = type_string then ''string''
      else if type = type_int then ''int''
      else if type = type_float then ''float''
      else if type = type_date then ''date''
      else if type = type_size then ''size''
      else if type = type_invalid then ''invalid''
      else if type = type_tbd then ''tbd''
      else if type \<ge> type_custom then ''custom_'' @ xtos_int (type - type_custom)
      else if type \<ge> type_custom_float then ''float_'' @ xtos_int (type - type_custom_float)
      else if type \<ge> type_custom_string then ''string_'' @ xtos_int (type - type_custom_string)
      else if type \<ge> type_custom_int then ''int_'' @ xtos_int (type - type_custom_int)
      else ''unknown:'' @ xtos_int type)"

definition type_is_int :: "value_type \<Rightarrow> bool" where
  "type_is_int type \<longleftrightarrow>
     type = type_int \<or> type = type_bool \<or> type = type_date \<or> type = type_size \<or>
     type \<ge> type_custom_int \<and> type < type_custom_int_end"

definition type_is_float :: "value_type \<Rightarrow> bool" where
  "type_is_float type \<longleftrightarrow>
     type = type_float \<or> type = type_int \<or> type = type_bool \<or> type = type_date \<or> type = type_size \<or>
     type \<ge> type_custom_int \<and> type < type_custom_int_end \<or>
     type \<ge> type_custom_float \<and> type < type_custom_float_end"

definition type_is_string :: "value_type \<Rightarrow> bool" where
  "type_is_string type \<longleftrightarrow>
     type = type_string \<or> type \<ge> type_custom_string \<and> type < type_custom_string_end"

definition get_return_type :: "operators \<Rightarrow> value_type \<Rightarrow> value_type" where
  "get_return_type op type =
     (if op = op_inv then type else if op = op_binor then type else if op = op_binand then type
      else type_bool)"

fun operator_to_string :: "operators \<Rightarrow> string" where
  "operator_to_string op_and = ''and''"
| "operator_to_string op_or = ''or''"
| "operator_to_string op_eq = ''=''"
| "operator_to_string op_gt = ''>''"
| "operator_to_string op_lt = ''<''"
| "operator_to_string op_ge = ''>=''"
| "operator_to_string op_le = ''<=''"
| "operator_to_string op_in = ''in''"
| "operator_to_string op_nin = ''not in''"
| "operator_to_string op_binand = ''&''"
| "operator_to_string op_binor = ''|''"
| "operator_to_string op_like = ''like''"
| "operator_to_string op_not_like = ''not_like''"
| "operator_to_string op_ne = ''!=''"
| "operator_to_string op_inv = ''invert''"
| "operator_to_string op_not = ''not''"
| "operator_to_string op_regexp = ''regexp''"
| "operator_to_string op_not_regexp = ''not_regexp''"

definition can_convert :: "value_type \<Rightarrow> value_type \<Rightarrow> bool" where
  "can_convert src dst =
     (if src = type_invalid \<or> dst = type_invalid then False
      else if dst = type_tbd then False
      else if src = type_tbd then True
      else src = type_int \<and> dst = type_float \<or>
           src = type_int \<and> dst = type_string \<or>
           src = type_int \<and> dst = type_bool \<or>
           src = type_int \<and> dst = type_size \<or>
           src = type_float \<and> dst = type_int \<or>
           src = type_float \<and> dst = type_string \<or>
           src = type_float \<and> dst = type_bool \<or>
           src = type_string \<and> dst = type_int \<or>
           src = type_bool \<and> dst = type_int \<or>
           src = type_string \<and> dst = type_float \<or>
           src = type_bool \<and> dst = type_float \<or>
           src \<ge> type_custom_float \<and> src < type_custom_float_end \<and> dst = type_float \<or>
           src \<ge> type_custom_int \<and> src < type_custom_int_end \<and> dst = type_int \<or>
           src \<ge> type_custom_string \<and> src < type_custom_string_end \<and> dst = type_float \<or>
           src \<ge> type_custom_string \<and> src < type_custom_string_end \<and> dst = type_int)"

definition is_comparison_operator :: "operators \<Rightarrow> bool" where
  "is_comparison_operator op \<longleftrightarrow>
     op = op_eq \<or> op = op_ne \<or> op = op_lt \<or> op = op_le \<or> op = op_gt \<or> op = op_ge"

definition is_lower :: "operators \<Rightarrow> bool" where "is_lower op \<longleftrightarrow> op = op_le \<or> op = op_lt"
definition is_upper :: "operators \<Rightarrow> bool" where "is_upper op \<longleftrightarrow> op = op_ge \<or> op = op_gt"

section \<open>Value containers\<close>

record value_container =
  i_value :: "int option"
  f_value :: "double option"
  s_value :: "string option"
  is_unsure :: bool
  is_no_value :: bool

definition create_nil :: "bool \<Rightarrow> value_container" where
  "create_nil unsure = \<lparr>i_value = None, f_value = None, s_value = None, is_unsure = unsure, is_no_value = False\<rparr>"

definition create_int :: "int \<Rightarrow> bool \<Rightarrow> value_container" where
  "create_int v unsure = (create_nil unsure)\<lparr>i_value := Some v\<rparr>"

definition create_float :: "double \<Rightarrow> bool \<Rightarrow> value_container" where
  "create_float v unsure = (create_nil unsure)\<lparr>f_value := Some v\<rparr>"

definition create_bool :: "bool \<Rightarrow> bool \<Rightarrow> value_container" where
  "create_bool v unsure = (create_nil unsure)\<lparr>i_value := Some (if v then 1 else 0)\<rparr>"

definition create_string :: "string \<Rightarrow> bool \<Rightarrow> value_container" where
  "create_string v unsure = (create_nil unsure)\<lparr>s_value := Some v\<rparr>"

definition create_no_value :: value_container where
  "create_no_value = (create_nil False)\<lparr>i_value := Some 0, f_value := Some d_zero, is_no_value := True\<rparr>"

definition set_value :: "value_container \<Rightarrow> value_container \<Rightarrow> value_container" where
  "set_value self v =
     (let a = (case i_value v of None \<Rightarrow> self | Some x \<Rightarrow> self\<lparr>i_value := Some x\<rparr>);
          b = (case f_value v of None \<Rightarrow> a | Some x \<Rightarrow> a\<lparr>f_value := Some x\<rparr>)
      in case s_value v of None \<Rightarrow> b | Some x \<Rightarrow> b\<lparr>s_value := Some x\<rparr>)"

text \<open>Assignment copies the flags and merges the values; it does not clear what is unset.\<close>

definition assign_value :: "value_container \<Rightarrow> value_container \<Rightarrow> value_container" where
  "assign_value self other =
     set_value (self\<lparr>is_unsure := is_unsure other, is_no_value := is_no_value other\<rparr>) other"

definition vc_get_int :: "value_container \<Rightarrow> int res" where
  "vc_get_int v = (case i_value v of Some i \<Rightarrow> Inr i
     | None \<Rightarrow> (case f_value v of Some f \<Rightarrow> Inr (to_int64_saturating f)
         | None \<Rightarrow> Inl (Filter_Exception ''Type is not int'')))"

definition vc_get_float :: "value_container \<Rightarrow> double res" where
  "vc_get_float v = (case i_value v of Some i \<Rightarrow> Inr (d_of_int i)
     | None \<Rightarrow> (case f_value v of Some f \<Rightarrow> Inr f
         | None \<Rightarrow> Inl (Filter_Exception ''Type is not float'')))"

definition vc_get_int_or :: "value_container \<Rightarrow> int \<Rightarrow> int" where
  "vc_get_int_or v d = (case i_value v of Some i \<Rightarrow> i
     | None \<Rightarrow> (case f_value v of Some f \<Rightarrow> to_int64_saturating f | None \<Rightarrow> d))"

definition vc_get_float_or :: "value_container \<Rightarrow> double \<Rightarrow> double" where
  "vc_get_float_or v d = (case i_value v of Some i \<Rightarrow> d_of_int i
     | None \<Rightarrow> (case f_value v of Some f \<Rightarrow> f | None \<Rightarrow> d))"

definition vc_is_true :: "value_container \<Rightarrow> bool" where
  "vc_is_true v = (case i_value v of Some i \<Rightarrow> i = 1 | None \<Rightarrow> False)"

definition vc_get_string :: "value_container \<Rightarrow> string res" where
  "vc_get_string v = (case i_value v of Some i \<Rightarrow> Inr (xtos_int i)
     | None \<Rightarrow> (case f_value v of Some f \<Rightarrow> Inr (xtos_double f)
         | None \<Rightarrow> (case s_value v of Some s \<Rightarrow> Inr s
             | None \<Rightarrow> Inl (Filter_Exception ''Type is not string''))))"

definition vc_get_string_or :: "value_container \<Rightarrow> string \<Rightarrow> string" where
  "vc_get_string_or v d = (case i_value v of Some i \<Rightarrow> xtos_int i
     | None \<Rightarrow> (case f_value v of Some f \<Rightarrow> xtos_double f
         | None \<Rightarrow> (case s_value v of Some s \<Rightarrow> s | None \<Rightarrow> d)))"

definition vc_is :: "value_container \<Rightarrow> value_type \<Rightarrow> bool" where
  "vc_is v type = (if type = type_int then i_value v \<noteq> None
     else if type = type_float then f_value v \<noteq> None
     else if type = type_string then s_value v \<noteq> None
     else False)"

lemmas vc_creates = create_nil_def create_int_def create_float_def create_bool_def
  create_string_def create_no_value_def

lemmas vc_reads = vc_get_int_def vc_get_float_def vc_is_true_def vc_get_string_def vc_is_def
  vc_get_int_or_def vc_get_float_or_def vc_get_string_or_def

section \<open>Facts\<close>

lemma type_int_is_float: "type_is_int t \<Longrightarrow> type_is_float t"
  by (auto simp: type_is_int_def type_is_float_def)

lemma type_basic [simp]:
  "type_is_int 1" "type_is_int 2" "\<not> type_is_int 3" "\<not> type_is_int 10" "type_is_float 3" "type_is_float 1"
  "\<not> type_is_float 10" "type_is_string 10" "\<not> type_is_int 66" "\<not> type_is_float 66" "\<not> type_is_int 99"
  "type_is_int 20" "type_is_int 30" "\<not> type_is_string 1" "\<not> type_is_string 2" "\<not> type_is_string 3"
  "\<not> type_is_int 88" "\<not> type_is_float 88"
  by (simp_all add: type_is_int_def type_is_float_def type_is_string_def)

lemma type_string_disjoint: "type_is_string t \<Longrightarrow> \<not> type_is_float t"
  by (auto simp: type_is_string_def type_is_float_def)

text \<open>
  An assigned container keeps a value the source does not have: assigning a string to an
  integer container leaves the integer, which every accessor then prefers.
\<close>

lemma assign_value_stale:
  "vc_get_string (assign_value (create_int 7 False) (create_string ''x'' False)) = Inr (xtos_int 7)"
  by (simp add: assign_value_def set_value_def vc_creates vc_get_string_def)

lemma set_value_fresh: "set_value (create_nil u) v = v\<lparr>is_unsure := u, is_no_value := False\<rparr>"
  by (cases v) (auto simp: set_value_def create_nil_def Let_def split: option.splits)

end
