(* ===== verification/Where_Context.thy ===== *)
theory Where_Context
  imports Nagios_Status Where_Value "HOL-Library.Word"
begin

text \<open>
  What a filter is evaluated in: the summary of a check (\<^verbatim>\<open>generic_summary\<close> of
  \<^verbatim>\<open>parsers/where/filter_handler_impl.hpp\<close>), the evaluation context
  (\<^verbatim>\<open>engine_impl.hpp\<close>) with the last message of the error handler
  (\<^verbatim>\<open>parsers/filter/modern_filter.cpp\<close>), the regular expression budget
  (\<^verbatim>\<open>regex_guard.cpp\<close>) and the pattern cache (\<^verbatim>\<open>operators.cpp\<close>). The
  thread-local budget and cache are fields of the context; the libraries the code calls
  are the fields of \<open>env\<close>.
\<close>

section \<open>Summary\<close>

record generic_summary =
  count_match :: int
  count_ok :: int
  count_warn :: int
  count_crit :: int
  count_total :: int
  list_match :: string
  list_ok :: string
  list_crit :: string
  list_warn :: string
  list_problem :: string
  returnCode :: nagiosReturn
  list_separator :: string

definition new_summary :: generic_summary where
  "new_summary = \<lparr>count_match = 0, count_ok = 0, count_warn = 0, count_crit = 0, count_total = 0,
     list_match = [], list_ok = [], list_crit = [], list_warn = [], list_problem = [],
     returnCode = returnOK, list_separator = '', ''\<rparr>"

definition move_hits_crit :: "generic_summary \<Rightarrow> generic_summary" where
  "move_hits_crit s = s\<lparr>list_crit := list_match s, list_problem := list_match s\<rparr>"

definition move_hits_warn :: "generic_summary \<Rightarrow> generic_summary" where
  "move_hits_warn s = s\<lparr>list_warn := list_match s, list_problem := list_match s\<rparr>"

definition reset_summary :: "generic_summary \<Rightarrow> generic_summary" where
  "reset_summary s = s\<lparr>count_match := 0, count_ok := 0, count_warn := 0, count_crit := 0, count_total := 0,
     list_match := [], list_ok := [], list_warn := [], list_crit := [], list_problem := [],
     returnCode := returnOK\<rparr>"

definition summary_count :: "generic_summary \<Rightarrow> generic_summary" where
  "summary_count s = s\<lparr>count_total := count_total s + 1\<rparr>"

definition matched :: "string \<Rightarrow> generic_summary \<Rightarrow> generic_summary" where
  "matched line s = s\<lparr>list_match := append_list (list_match s) line (list_separator s),
     count_match := count_match s + 1\<rparr>"

definition matched_unique :: "generic_summary \<Rightarrow> generic_summary" where
  "matched_unique s = s\<lparr>count_match := count_match s + 1\<rparr>"

definition has_matched :: "generic_summary \<Rightarrow> bool" where
  "has_matched s \<longleftrightarrow> count_match s > 0"

definition matched_ok :: "string \<Rightarrow> generic_summary \<Rightarrow> generic_summary" where
  "matched_ok line s = s\<lparr>list_ok := append_list (list_ok s) line (list_separator s),
     count_ok := count_ok s + 1\<rparr>"

definition matched_warn :: "string \<Rightarrow> generic_summary \<Rightarrow> generic_summary" where
  "matched_warn line s = s\<lparr>list_warn := append_list (list_warn s) line (list_separator s),
     list_problem := append_list (list_problem s) line (list_separator s),
     count_warn := count_warn s + 1\<rparr>"

definition matched_crit :: "string \<Rightarrow> generic_summary \<Rightarrow> generic_summary" where
  "matched_crit line s = s\<lparr>list_crit := append_list (list_crit s) line (list_separator s),
     list_problem := append_list (list_problem s) line (list_separator s),
     count_crit := count_crit s + 1\<rparr>"

definition matched_ok_unique :: "generic_summary \<Rightarrow> generic_summary" where
  "matched_ok_unique s = s\<lparr>count_ok := count_ok s + 1\<rparr>"

definition matched_warn_unique :: "generic_summary \<Rightarrow> generic_summary" where
  "matched_warn_unique s = s\<lparr>count_warn := count_warn s + 1\<rparr>"

definition matched_crit_unique :: "generic_summary \<Rightarrow> generic_summary" where
  "matched_crit_unique s = s\<lparr>count_crit := count_crit s + 1\<rparr>"

definition get_status :: "generic_summary \<Rightarrow> string" where
  "get_status s = translateReturn (returnCode s)"

definition summary_append_list :: "generic_summary \<Rightarrow> string \<Rightarrow> string \<Rightarrow> string \<Rightarrow> string" where
  "summary_append_list s result tag v =
     (if v \<noteq> [] then (if result \<noteq> [] then result @ list_separator s else result) @ tag @ ''('' @ v @ '')''
      else result)"

definition get_list_detail :: "generic_summary \<Rightarrow> string" where
  "get_list_detail s =
     (let r = summary_append_list s [] ''critical'' (list_crit s);
          r = summary_append_list s r ''warning'' (list_warn s)
      in append_list r (list_ok s) (list_separator s))"

definition get_count_problem :: "generic_summary \<Rightarrow> int" where
  "get_count_problem s = count_warn s + count_crit s"

lemmas summary_ops = move_hits_crit_def move_hits_warn_def reset_summary_def summary_count_def
  matched_def matched_unique_def matched_ok_def matched_warn_def matched_crit_def
  matched_ok_unique_def matched_warn_unique_def matched_crit_unique_def

section \<open>Context\<close>

datatype object_match = om_none | om_match | om_ok | om_warning | om_critical

text \<open>A compiled pattern is what matching against it does.\<close>

type_synonym regex = "string \<Rightarrow> bool res"

record 'o ctx =
  object :: "'o option"
  summary :: "generic_summary option"
  errors :: "string list"
  warnings :: "string list"
  debug_on :: bool
  object_debug :: "('o \<times> object_match) list"
  last_debug_object :: "'o option"
  regex_budget_ms :: "64 word"
  regex_spent_ms :: "64 word"
  regex_cache :: "(string \<times> regex) list"
  warned_not_numeric :: "nat set"
  handler_error :: string

type_synonym ('o, 'a) cev = "('o ctx, 'a) ev"

definition ctx_error :: "string \<Rightarrow> ('o, unit) cev" where
  "ctx_error msg = modify (\<lambda>c. c\<lparr>errors := errors c @ [msg]\<rparr>)"

definition ctx_warn :: "string \<Rightarrow> ('o, unit) cev" where
  "ctx_warn msg = modify (\<lambda>c. c\<lparr>warnings := warnings c @ [msg]\<rparr>)"

definition ctx_clear :: "('o, unit) cev" where
  "ctx_clear = modify (\<lambda>c. c\<lparr>errors := [], warnings := []\<rparr>)"

definition has_error :: "'o ctx \<Rightarrow> bool" where "has_error c \<longleftrightarrow> errors c \<noteq> []"
definition has_warn :: "'o ctx \<Rightarrow> bool" where "has_warn c \<longleftrightarrow> warnings c \<noteq> []"

fun join_messages :: "string \<Rightarrow> string list \<Rightarrow> string" where
  "join_messages acc [] = acc"
| "join_messages acc (m # ms) = join_messages (if acc \<noteq> [] then acc @ '', '' @ m else m) ms"

definition get_error :: "'o ctx \<Rightarrow> string" where "get_error c = join_messages [] (errors c)"
definition get_warn :: "'o ctx \<Rightarrow> string" where "get_warn c = join_messages [] (warnings c)"

definition bad_optional_access :: exn where
  "bad_optional_access = Std_Exception ''Attempted to access the value of an uninitialized optional object.''"

definition get_object :: "('o, 'o) cev" where
  "get_object = (\<lambda>c. case object c of Some x \<Rightarrow> (Inr x, c) | None \<Rightarrow> (Inl bad_optional_access, c))"

definition get_summary :: "('o, generic_summary) cev" where
  "get_summary = (\<lambda>c. case summary c of Some s \<Rightarrow> (Inr s, c) | None \<Rightarrow> (Inl bad_optional_access, c))"

definition has_object :: "'o ctx \<Rightarrow> bool" where "has_object c \<longleftrightarrow> object c \<noteq> None"

definition remove_object :: "('o, unit) cev" where
  "remove_object = modify (\<lambda>c. c\<lparr>object := None\<rparr>)"

definition set_object :: "'o \<Rightarrow> ('o, unit) cev" where
  "set_object x = modify (\<lambda>c. c\<lparr>object := Some x\<rparr>)"

definition ctx_debug :: "object_match \<Rightarrow> ('o, unit) cev" where
  "ctx_debug reason = (\<lambda>c.
     if \<not> debug_on c then (Inr (), c)
     else if last_debug_object c \<noteq> None \<and> object c \<noteq> None \<and> last_debug_object c = object c \<and> object_debug c \<noteq> []
     then (Inr (), c\<lparr>last_debug_object := object c,
             object_debug := butlast (object_debug c) @ [(fst (last (object_debug c)), reason)]\<rparr>)
     else case object c of
         None \<Rightarrow> (Inl bad_optional_access, c)
       | Some x \<Rightarrow> (Inr (), c\<lparr>last_debug_object := Some x, object_debug := object_debug c @ [(x, reason)]\<rparr>))"

definition log_error :: "string \<Rightarrow> ('o, unit) cev" where
  "log_error message = modify (\<lambda>c. c\<lparr>handler_error := message\<rparr>)"

definition has_errors :: "'o ctx \<Rightarrow> bool" where "has_errors c \<longleftrightarrow> handler_error c \<noteq> []"

section \<open>Libraries\<close>

text \<open>
  The library calls of the engine: \<^verbatim>\<open>boost::lexical_cast\<close> behind \<^verbatim>\<open>str::stox\<close>,
  \<^verbatim>\<open>boost::to_lower_copy\<close> and \<^verbatim>\<open>trim_copy\<close>, \<^verbatim>\<open>boost::regex\<close>
  (compiling gives a matcher or an exception), the milliseconds a match takes, the cached
  clock, \<^verbatim>\<open>llround\<close> outside the 64-bit range, and the native-to-UTF-8 conversion of
  exception texts.
\<close>

record env =
  stox_double :: "string \<Rightarrow> double res"
  stox_int :: "string \<Rightarrow> int res"
  to_lower :: "string \<Rightarrow> string"
  trim_copy :: "string \<Rightarrow> string"
  regex_compile :: "string \<Rightarrow> regex res"
  regex_cost :: "string \<Rightarrow> string \<Rightarrow> 64 word \<Rightarrow> 64 word"
  env_now :: int
  llround_outside :: "double \<Rightarrow> int"
  utf8_from_native :: "string \<Rightarrow> string"

definition llround :: "env \<Rightarrow> double \<Rightarrow> int" where
  "llround E v = (let r = d_std_round v in if fits_int64 r then d_trunc r else llround_outside E v)"

section \<open>Regular expression budget and cache\<close>

definition regex_budget_exhausted :: "'o ctx \<Rightarrow> bool" where
  "regex_budget_exhausted c \<longleftrightarrow> regex_spent_ms c \<ge> regex_budget_ms c"

definition reset_regex_budget :: "('o, unit) cev" where
  "reset_regex_budget = modify (\<lambda>c. c\<lparr>regex_spent_ms := 0\<rparr>)"

definition charge_regex_time_ms :: "64 word \<Rightarrow> ('o, unit) cev" where
  "charge_regex_time_ms t = modify (\<lambda>c. c\<lparr>regex_spent_ms := regex_spent_ms c + t\<rparr>)"

definition max_regex_subject_bytes :: nat where "max_regex_subject_bytes = 1024 * 1024"

definition regex_cache_entries :: nat where "regex_cache_entries = 16"

fun cache_take :: "string \<Rightarrow> (string \<times> 'r) list \<Rightarrow> ('r \<times> (string \<times> 'r) list) option" where
  "cache_take pattern [] = None"
| "cache_take pattern (e # es) =
     (if fst e = pattern then Some (snd e, es)
      else map_option (\<lambda>(r, rest). (r, e # rest)) (cache_take pattern es))"

definition compiled_regex :: "env \<Rightarrow> string \<Rightarrow> ('o, regex) cev" where
  "compiled_regex E pattern = (\<lambda>c.
     case cache_take pattern (regex_cache c) of
       Some (r, rest) \<Rightarrow> (Inr r, c\<lparr>regex_cache := (pattern, r) # rest\<rparr>)
     | None \<Rightarrow> (case regex_compile E pattern of
           Inl e \<Rightarrow> (Inl e, c)
         | Inr r \<Rightarrow> (let new = (pattern, r) # regex_cache c
              in (Inr r, c\<lparr>regex_cache := if length new > regex_cache_entries then butlast new else new\<rparr>))))"

section \<open>Instances\<close>

text \<open>The context a check starts with, over its summary.\<close>

definition initial_ctx :: "generic_summary \<Rightarrow> 'o ctx" where
  "initial_ctx s = \<lparr>object = None, summary = Some s, errors = [], warnings = [], debug_on = False, object_debug = [],
     last_debug_object = None, regex_budget_ms = 30000, regex_spent_ms = 0, regex_cache = [],
     warned_not_numeric = {}, handler_error = []\<rparr>"

text \<open>
  Concrete libraries: decimal digits parse as numbers, case and blanks are ASCII, a pattern
  matches itself and every match takes a millisecond.
\<close>

definition all_digits :: "string \<Rightarrow> bool" where
  "all_digits s \<longleftrightarrow> s \<noteq> [] \<and> list_all is_digit_char s"

definition lower_char :: "char \<Rightarrow> char" where
  "lower_char ch = (let n = (of_char ch :: nat) in if 65 \<le> n \<and> n \<le> 90 then char_of (n + 32) else ch)"

definition strip_blanks :: "string \<Rightarrow> string" where
  "strip_blanks s = rev (dropWhile (\<lambda>ch. ch = CHR '' '') (rev (dropWhile (\<lambda>ch. ch = CHR '' '') s)))"

definition plain_env :: env where
  "plain_env = \<lparr>
     stox_double = (\<lambda>s. if all_digits s then Inr (d_of_int (int (digits_val s))) else Inl (Bad_Lexical_Cast ''bad cast'')),
     stox_int = (\<lambda>s. if all_digits s \<and> int (digits_val s) \<le> llong_max then Inr (int (digits_val s))
       else Inl (Bad_Lexical_Cast ''bad cast'')),
     to_lower = map lower_char, trim_copy = strip_blanks,
     regex_compile = (\<lambda>p. Inr (\<lambda>s. Inr (s = p))), regex_cost = (\<lambda>_ _ _. 1), env_now = 0,
     llround_outside = (\<lambda>_. 0), utf8_from_native = (\<lambda>s. s)\<rparr>"

section \<open>Facts\<close>

lemmas ctx_ops = ctx_error_def ctx_warn_def ctx_clear_def remove_object_def set_object_def
  reset_regex_budget_def charge_regex_time_ms_def

lemma join_messages_empty: "join_messages acc ms = [] \<longleftrightarrow> acc = [] \<and> (\<forall>m \<in> set ms. m = [])"
  by (induction acc ms rule: join_messages.induct) auto

text \<open>
  The cache holds compiled patterns only, one entry per pattern, and at most sixteen.
\<close>

definition cache_ok :: "env \<Rightarrow> (string \<times> regex) list \<Rightarrow> bool" where
  "cache_ok E es \<longleftrightarrow> length es \<le> regex_cache_entries \<and> distinct (map fst es) \<and>
     (\<forall>(p, r) \<in> set es. regex_compile E p = Inr r)"

lemma cache_take_None: "cache_take p es = None \<longleftrightarrow> p \<notin> fst ` set es"
  by (induction es) auto

lemma cache_take_Some:
  assumes "cache_take p es = Some (r, rest)"
  shows "(p, r) \<in> set es" and "length es = Suc (length rest)" and "set es = insert (p, r) (set rest)"
    and "distinct (map fst es) \<Longrightarrow> distinct (map fst rest) \<and> p \<notin> fst ` set rest"
proof -
  have "\<exists>as bs. es = as @ (p, r) # bs \<and> rest = as @ bs"
    using assms
  proof (induction es arbitrary: r rest)
    case (Cons e es)
    show ?case
    proof (cases "fst e = p")
      case True
      with Cons.prems show ?thesis by (intro exI [of _ "[]"] exI [of _ es]) (cases e, auto)
    next
      case False
      with Cons.prems obtain rest' where t: "cache_take p es = Some (r, rest')" "rest = e # rest'" by auto
      from Cons.IH [OF t(1)] obtain as bs where "es = as @ (p, r) # bs" "rest' = as @ bs" by blast
      with t(2) show ?thesis by (intro exI [of _ "e # as"] exI [of _ bs]) simp
    qed
  qed simp
  then obtain as bs where e: "es = as @ (p, r) # bs" "rest = as @ bs" by blast
  show "(p, r) \<in> set es" "length es = Suc (length rest)" "set es = insert (p, r) (set rest)"
    using e by auto
  show "distinct (map fst es) \<Longrightarrow> distinct (map fst rest) \<and> p \<notin> fst ` set rest"
    using e by force
qed

lemma set_butlast_subset: "set (butlast xs) \<subseteq> set xs"
  by (auto dest: in_set_butlastD)

text \<open>
  C4. The pattern cache is transparent: while it holds compiled patterns only, looking a
  pattern up gives exactly what compiling it gives (the exception of a bad pattern included),
  and the cache stays within its sixteen entries with one entry per pattern.
\<close>

theorem compiled_regex_transparent:
  assumes "cache_ok E (regex_cache c)"
  shows "fst (compiled_regex E p c) = regex_compile E p \<and>
    cache_ok E (regex_cache (snd (compiled_regex E p c)))"
proof (cases "cache_take p (regex_cache c)")
  case None
  then have new: "p \<notin> fst ` set (regex_cache c)" by (simp add: cache_take_None)
  show ?thesis
  proof (cases "regex_compile E p")
    case (Inl e)
    with None assms show ?thesis by (simp add: compiled_regex_def)
  next
    case (Inr r)
    define es where "es = (p, r) # regex_cache c"
    have d: "distinct (map fst es)" and g: "\<forall>(p, r) \<in> set es. regex_compile E p = Inr r"
      using assms new Inr by (auto simp: es_def cache_ok_def)
    have b: "distinct (map fst (butlast es))" "\<forall>(p, r) \<in> set (butlast es). regex_compile E p = Inr r"
      using d g set_butlast_subset [of es] by (auto simp: map_butlast intro: distinct_butlast)
    have "length (if length es > regex_cache_entries then butlast es else es) \<le> regex_cache_entries"
      using assms by (auto simp: es_def cache_ok_def)
    with None Inr d g b show ?thesis
      by (simp add: compiled_regex_def Let_def es_def [symmetric] cache_ok_def)
  qed
next
  case (Some x)
  obtain r rest where x: "x = (r, rest)" by (cases x)
  note t = cache_take_Some [OF Some [unfolded x]]
  from assms t have "regex_compile E p = Inr r" by (auto simp: cache_ok_def)
  moreover have "cache_ok E ((p, r) # rest)"
    using assms t by (auto simp: cache_ok_def)
  ultimately show ?thesis using Some x by (simp add: compiled_regex_def)
qed

theorem compiled_regex_transparent_witness:
  "cache_ok plain_env (regex_cache (initial_ctx new_summary :: nat ctx)) \<and>
   fst (compiled_regex plain_env ''a.*'' (initial_ctx new_summary :: nat ctx)) = Inr (\<lambda>s. Inr (s = ''a.*''))"
proof -
  have ok: "cache_ok plain_env (regex_cache (initial_ctx new_summary :: nat ctx))"
    by (simp add: cache_ok_def initial_ctx_def)
  with compiled_regex_transparent [OF ok, of "''a.*''"] show ?thesis by (simp add: plain_env_def)
qed

end
