(* ===== verification/Where_Operators.thy ===== *)
theory Where_Operators
  imports Where_Context "HOL-Library.List_Lexorder" "HOL-Library.Char_ord"
begin

text \<open>
  The operators of the filter language (\<^verbatim>\<open>parsers/operators.cpp\<close>) over operands given by
  their virtual methods, and the literal nodes (\<^verbatim>\<open>parsers/where/value_node.cpp\<close>) the
  operators return.
\<close>

section \<open>Literal nodes\<close>

text \<open>
  A fresh \<^verbatim>\<open>string_value\<close>, \<^verbatim>\<open>int_value\<close> or \<^verbatim>\<open>float_value\<close>, with its unsure flag.
\<close>

datatype leaf = LString string bool | LInt int bool | LFloat double bool

definition create_false :: leaf where "create_false = LInt 0 False"
definition create_true :: leaf where "create_true = LInt 1 False"

definition string_value_get_value :: "env \<Rightarrow> string \<Rightarrow> bool \<Rightarrow> value_type \<Rightarrow> ('o, value_container) cev" where
  "string_value_get_value E v unsure new_type =
     (if new_type = type_float then
        (case stox_double E v of
           Inr d \<Rightarrow> ret (create_float d unsure)
         | Inl e \<Rightarrow> (if is_std_exception e
             then seqE (ctx_error (''Failed to convert string to number: '' @ v)) (ret (create_nil False))
             else throw e))
      else if new_type = type_int then
        (case stox_int E v of
           Inr i \<Rightarrow> ret (create_int i unsure)
         | Inl e \<Rightarrow> (if is_std_exception e
             then seqE (ctx_error (''Failed to convert string to number: '' @ v)) (ret (create_nil False))
             else throw e))
      else if new_type = type_string then ret (create_string v unsure)
      else seqE (ctx_error (''Failed to convert string to '' @ type_to_string new_type @ '': '' @ v))
             (ret (create_nil False)))"

definition int_value_get_value :: "int \<Rightarrow> bool \<Rightarrow> value_type \<Rightarrow> ('o, value_container) cev" where
  "int_value_get_value v unsure new_type =
     (if new_type = type_float then ret (create_float (d_of_int v) unsure)
      else if new_type = type_int then ret (create_int v unsure)
      else if new_type = type_string then ret (create_string (xtos_int v) unsure)
      else seqE (ctx_error (''Failed to convert int to '' @ type_to_string new_type @ '': '' @ xtos_int v))
             (ret (create_nil False)))"

definition float_value_get_value :: "double \<Rightarrow> bool \<Rightarrow> value_type \<Rightarrow> ('o, value_container) cev" where
  "float_value_get_value v unsure new_type =
     (if new_type = type_float then ret (create_float v unsure)
      else if new_type = type_int then
        (if \<not> fits_int64 v
         then seqE (ctx_error (''Value is out of range for an integer: '' @ xtos_double v))
                (ret (create_int (to_int64_saturating v) True))
         else ret (create_int (to_int64_saturating v) unsure))
      else if new_type = type_string then ret (create_string (xtos_double v) unsure)
      else seqE (ctx_error (''Failed to convert float to '' @ type_to_string new_type @ '': '' @ xtos_double v))
             (ret (create_nil False)))"

fun leaf_get_value :: "env \<Rightarrow> leaf \<Rightarrow> value_type \<Rightarrow> ('o, value_container) cev" where
  "leaf_get_value E (LString v u) t = string_value_get_value E v u t"
| "leaf_get_value E (LInt v u) t = int_value_get_value v u t"
| "leaf_get_value E (LFloat v u) t = float_value_get_value v u t"

fun leaf_type :: "leaf \<Rightarrow> value_type" where
  "leaf_type (LString _ _) = type_string"
| "leaf_type (LInt _ _) = type_int"
| "leaf_type (LFloat _ _) = type_float"

text \<open>\<^verbatim>\<open>to_string(context)\<close> of a literal\<close>

fun leaf_str :: "leaf \<Rightarrow> string" where
  "leaf_str (LString v _) = v"
| "leaf_str (LInt v _) = xtos_int v"
| "leaf_str (LFloat v _) = xtos_double v"

definition create_num :: "value_container \<Rightarrow> leaf" where
  "create_num v =
     (if vc_is v type_int then LInt (vc_get_int_or v 0) (is_unsure v)
      else if vc_is v type_float then LFloat (vc_get_float_or v d_zero) (is_unsure v)
      else if vc_is v type_string then LString (vc_get_string_or v ''0'') (is_unsure v)
      else LInt 0 False)"

section \<open>Operands\<close>

text \<open>
  What an operator sees of a node: its type, \<^verbatim>\<open>get_value\<close>, the items of
  \<^verbatim>\<open>get_list_value\<close> (each a node with its \<^verbatim>\<open>get_value\<close>), and
  \<^verbatim>\<open>to_string()\<close>. The operators do not look at the nodes, whose type is a parameter.
\<close>

type_synonym 'o getter = "value_type \<Rightarrow> ('o, value_container) cev"

record ('o, 'n) operand =
  o_type :: value_type
  o_get :: "'o getter"
  o_items :: "('o, ('n \<times> 'o getter) list) cev"
  o_show :: string

definition get_int_value :: "'o getter \<Rightarrow> ('o, int) cev" where
  "get_int_value g = bindE (g type_int) (\<lambda>v. ret (vc_get_int_or v 0))"

definition get_float_value :: "'o getter \<Rightarrow> ('o, double) cev" where
  "get_float_value g = bindE (g type_float) (\<lambda>v. ret (vc_get_float_or v d_zero))"

definition get_string_value :: "'o getter \<Rightarrow> ('o, string) cev" where
  "get_string_value g = bindE (g type_string) (\<lambda>v. ret (vc_get_string_or v []))"

definition error_false :: "string \<Rightarrow> ('o, leaf) cev" where
  "error_false msg = seqE (ctx_error msg) (ret create_false)"

definition invalid_unsure :: "('o, value_container) cev" where
  "invalid_unsure = seqE (ctx_error ''invalid type'') (ret (create_int 0 True))"

section \<open>Comparisons\<close>

record comparison =
  cmp_int :: "int \<Rightarrow> int \<Rightarrow> bool"
  cmp_float :: "double \<Rightarrow> double \<Rightarrow> bool"
  cmp_string :: "string \<Rightarrow> string \<Rightarrow> bool"

definition operator_eq :: comparison where
  "operator_eq = \<lparr>cmp_int = (=), cmp_float = d_eq, cmp_string = (=)\<rparr>"

definition operator_ne :: comparison where
  "operator_ne = \<lparr>cmp_int = (\<noteq>), cmp_float = (\<lambda>a b. \<not> d_eq a b), cmp_string = (\<noteq>)\<rparr>"

definition operator_gt :: comparison where
  "operator_gt = \<lparr>cmp_int = (>), cmp_float = (\<lambda>a b. d_lt b a), cmp_string = (>)\<rparr>"

definition operator_lt :: comparison where
  "operator_lt = \<lparr>cmp_int = (<), cmp_float = d_lt, cmp_string = (<)\<rparr>"

definition operator_le :: comparison where
  "operator_le = \<lparr>cmp_int = (\<le>), cmp_float = d_le, cmp_string = (\<le>)\<rparr>"

definition operator_ge :: comparison where
  "operator_ge = \<lparr>cmp_int = (\<ge>), cmp_float = (\<lambda>a b. d_le b a), cmp_string = (\<ge>)\<rparr>"

text \<open>
  A \<^verbatim>\<open>bool\<close> in \<^verbatim>\<open>create_int\<close> becomes 0 or 1. The three \<^verbatim>\<open>eval\<close> methods
  of \<^verbatim>\<open>even_simpler_bool_binary_operator_impl\<close> differ in the type they ask for.
\<close>

definition b2i :: "bool \<Rightarrow> int" where "b2i b = (if b then 1 else 0)"

definition compare_with :: "('a \<Rightarrow> 'a \<Rightarrow> bool) \<Rightarrow> (value_container \<Rightarrow> 'a res) \<Rightarrow> value_container \<Rightarrow> value_container
    \<Rightarrow> ('o, value_container) cev" where
  "compare_with cmp rd lhs rhs =
     bindE (lift_res (rd lhs)) (\<lambda>a. bindE (lift_res (rd rhs)) (\<lambda>b.
       ret (create_int (b2i (cmp a b)) (is_unsure lhs \<or> is_unsure rhs))))"

definition even_simpler_eval :: "value_type \<Rightarrow> (value_container \<Rightarrow> value_container \<Rightarrow> ('o, value_container) cev)
    \<Rightarrow> ('o, 'n) operand \<Rightarrow> ('o, 'n) operand \<Rightarrow> ('o, value_container) cev" where
  "even_simpler_eval t do_eval left right =
     bindE (o_get left t) (\<lambda>lhs. bindE (o_get right t) (\<lambda>rhs.
       if \<not> vc_is lhs t \<or> \<not> vc_is rhs t then invalid_unsure
       else if is_no_value lhs \<or> is_no_value rhs then ret (create_int 0 False)
       else do_eval lhs rhs))"

record ('o, 'n) bool_impl =
  b_eval_int :: "('o, 'n) operand \<Rightarrow> ('o, 'n) operand \<Rightarrow> ('o, value_container) cev"
  b_eval_float :: "('o, 'n) operand \<Rightarrow> ('o, 'n) operand \<Rightarrow> ('o, value_container) cev"
  b_eval_string :: "('o, 'n) operand \<Rightarrow> ('o, 'n) operand \<Rightarrow> ('o, value_container) cev"

definition even_simpler_bool_binary_operator_impl :: "comparison \<Rightarrow> ('o, 'n) bool_impl" where
  "even_simpler_bool_binary_operator_impl op = \<lparr>
     b_eval_int = even_simpler_eval type_int (compare_with (cmp_int op) vc_get_int),
     b_eval_float = even_simpler_eval type_float (compare_with (cmp_float op) vc_get_float),
     b_eval_string = even_simpler_eval type_string (compare_with (cmp_string op) vc_get_string)\<rparr>"

definition simple_bool_evaluate :: "('o, 'n) bool_impl \<Rightarrow> ('o, 'n) operand \<Rightarrow> ('o, 'n) operand \<Rightarrow> ('o, leaf) cev" where
  "simple_bool_evaluate impl left right =
     (let ltype = o_type left; rtype = o_type right;
          num = (\<lambda>m. bindE m (\<lambda>v. ret (create_num v)))
      in if type_is_int ltype \<and> type_is_int rtype then num (b_eval_int impl left right)
         else if type_is_float ltype \<and> type_is_float rtype then num (b_eval_float impl left right)
         else if ltype \<noteq> rtype \<and> rtype \<noteq> type_tbd
         then error_false ''Invalid types (not same) for binary operator''
         else if type_is_int ltype then num (b_eval_int impl left right)
         else if type_is_float ltype then num (b_eval_float impl left right)
         else if ltype = type_string then num (b_eval_string impl left right)
         else error_false ''missing impl for simple bool binary operator'')"

section \<open>Conjunction and disjunction\<close>

definition simple_int_evaluate :: "(('o, 'n) operand \<Rightarrow> ('o, 'n) operand \<Rightarrow> ('o, value_container) cev) \<Rightarrow> string
    \<Rightarrow> ('o, 'n) operand \<Rightarrow> ('o, 'n) operand \<Rightarrow> ('o, leaf) cev" where
  "simple_int_evaluate eval_int desc left right =
     (if type_is_int (o_type left) \<and> type_is_int (o_type right)
      then bindE (eval_int left right) (\<lambda>v. ret (create_num v))
      else if o_type left \<noteq> o_type right \<and> o_type right \<noteq> type_tbd
      then error_false (''Incompatible types in binary operator: '' @ desc)
      else error_false (''Invalid types in binary operator '' @ desc))"

definition operator_and :: "('o, 'n) operand \<Rightarrow> ('o, 'n) operand \<Rightarrow> ('o, value_container) cev" where
  "operator_and left right =
     bindE (o_get left type_int) (\<lambda>lhs. bindE (lift_res (vc_get_int lhs)) (\<lambda>lhsi.
       if lhsi = 0 \<and> \<not> is_unsure lhs then ret (create_bool False False)
       else bindE (o_get right type_int) (\<lambda>rhs. bindE (lift_res (vc_get_int rhs)) (\<lambda>rhsi.
         if rhsi = 0 \<and> \<not> is_unsure rhs then ret (create_bool False False)
         else ret (create_int (b2i (lhsi \<noteq> 0 \<and> rhsi \<noteq> 0)) (is_unsure lhs \<or> is_unsure rhs))))))"

definition operator_or :: "('o, 'n) operand \<Rightarrow> ('o, 'n) operand \<Rightarrow> ('o, value_container) cev" where
  "operator_or left right =
     bindE (o_get left type_int) (\<lambda>lhs. bindE (lift_res (vc_get_int lhs)) (\<lambda>lhsi.
       if lhsi \<noteq> 0 \<and> \<not> is_unsure lhs then ret (create_bool True False)
       else bindE (o_get right type_int) (\<lambda>rhs. bindE (lift_res (vc_get_int rhs)) (\<lambda>rhsi.
         if rhsi \<noteq> 0 \<and> \<not> is_unsure rhs then ret (create_bool True False)
         else ret (create_int (b2i (lhsi \<noteq> 0 \<or> rhsi \<noteq> 0)) (is_unsure lhs \<or> is_unsure rhs))))))"

section \<open>Patterns\<close>

text \<open>
  \<open>m\<close> is the shared matcher: subject, pattern container, unsure flag. The integer and
  float forms do not guard a nil left side: reading it throws.
\<close>

type_synonym 'o matcher = "string \<Rightarrow> value_container \<Rightarrow> bool \<Rightarrow> ('o, value_container) cev"

definition pattern_eval_int :: "'o matcher \<Rightarrow> ('o, 'n) operand \<Rightarrow> ('o, 'n) operand \<Rightarrow> ('o, value_container) cev" where
  "pattern_eval_int m left right =
     bindE (o_get left type_int) (\<lambda>lhs. bindE (o_get right type_string) (\<lambda>rhs.
       bindE (lift_res (vc_get_int lhs)) (\<lambda>i. m (xtos_int i) rhs (is_unsure lhs \<or> is_unsure rhs))))"

definition pattern_eval_float :: "'o matcher \<Rightarrow> ('o, 'n) operand \<Rightarrow> ('o, 'n) operand \<Rightarrow> ('o, value_container) cev" where
  "pattern_eval_float m left right =
     bindE (o_get left type_float) (\<lambda>lhs. bindE (o_get right type_string) (\<lambda>rhs.
       bindE (lift_res (vc_get_float lhs)) (\<lambda>f. m (xtos_double f) rhs (is_unsure lhs \<or> is_unsure rhs))))"

definition pattern_eval_string :: "'o matcher \<Rightarrow> ('o, 'n) operand \<Rightarrow> ('o, 'n) operand \<Rightarrow> ('o, value_container) cev" where
  "pattern_eval_string m left right =
     bindE (o_get left type_string) (\<lambda>lhs. bindE (o_get right type_string) (\<lambda>rhs.
       if \<not> vc_is lhs type_string \<or> \<not> vc_is rhs type_string then invalid_unsure
       else bindE (lift_res (vc_get_string lhs)) (\<lambda>s. m s rhs (is_unsure lhs \<or> is_unsure rhs))))"

definition pattern_evaluate :: "'o matcher \<Rightarrow> string \<Rightarrow> ('o, 'n) operand \<Rightarrow> ('o, 'n) operand \<Rightarrow> ('o, leaf) cev" where
  "pattern_evaluate m desc left right =
     (let ltype = o_type left; num = (\<lambda>e. bindE e (\<lambda>v. ret (create_num v)))
      in if type_is_int ltype then num (pattern_eval_int m left right)
         else if type_is_float ltype then num (pattern_eval_float m left right)
         else if ltype = type_string then num (pattern_eval_string m left right)
         else error_false (''missing impl for pattern binary operator: '' @ desc))"

definition like_matched :: "string \<Rightarrow> string \<Rightarrow> bool" where
  "like_matched s1 s2 =
     (if s1 = [] \<and> s2 = [] then True
      else if s1 = [] \<or> s2 = [] then False
      else if length s1 > length s2 then contains_str s2 s1
      else contains_str s1 s2)"

definition like_match_to_container :: "env \<Rightarrow> bool \<Rightarrow> 'o matcher" where
  "like_match_to_container E negate subject pattern unsure =
     (if \<not> vc_is pattern type_string then invalid_unsure
      else bindE (lift_res (vc_get_string pattern)) (\<lambda>p.
        let m = like_matched (to_lower E subject) (to_lower E p)
        in ret (create_int (b2i (if negate then \<not> m else m)) unsure)))"

definition quoted :: "string \<Rightarrow> string" where
  "quoted s = [CHR 0x27] @ s @ [CHR 0x27]"

definition too_expensive :: "string \<Rightarrow> string \<Rightarrow> ('o, unit) cev" where
  "too_expensive regexp detail = ctx_error (''Regular expression '' @ quoted regexp @
     '' is too expensive to match against this data (it backtracks exponentially): anchor it, or replace a nested quantifier such as (a+)+ with a single one. '' @ detail)"

definition regex_run :: "env \<Rightarrow> string \<Rightarrow> string \<Rightarrow> ('o, bool) cev" where
  "regex_run E regexp subject = bindE (compiled_regex E regexp) (\<lambda>re. lift_res (re subject))"

definition regex_failed :: "string \<Rightarrow> exn \<Rightarrow> ('o, unit) cev" where
  "regex_failed regexp e = (case e of
      Regex_Error True msg \<Rightarrow> too_expensive regexp msg
    | Regex_Error False msg \<Rightarrow> ctx_error (''Invalid syntax in regular expression:'' @ regexp @ '' error: '' @ msg)
    | Runtime_Error msg \<Rightarrow> too_expensive regexp msg
    | _ \<Rightarrow> ctx_error (''Invalid syntax in regular expression:'' @ regexp))"

definition regex_match_to_container :: "env \<Rightarrow> bool \<Rightarrow> 'o matcher" where
  "regex_match_to_container E negate subject pattern unsure =
     (if \<not> vc_is pattern type_string then invalid_unsure
      else bindE (lift_res (vc_get_string pattern)) (\<lambda>regexp. bindE (getE id) (\<lambda>c.
        if regex_budget_exhausted c then
          seqE (ctx_error (''Regular expression matching gave up after '' @ nat_str (unat (regex_budget_ms c)) @
              ''ms on this check: the expression '' @ quoted regexp @ '' backtracks too much for the data it is matching. Anchor it, replace a nested quantifier such as (a+)+ with a single one, or narrow the filter so fewer records reach it.''))
            (ret (create_int 0 True))
        else if length subject > max_regex_subject_bytes then
          seqE (ctx_error (''Refusing to match a regular expression against '' @ nat_str (length subject) @
              '' bytes (limit '' @ nat_str max_regex_subject_bytes @ ''): backtracking cost grows with the subject. Truncating it would silently change the verdict, so the record is reported instead.''))
            (ret (create_int 0 True))
        else
          (let charge = charge_regex_time_ms (regex_cost E regexp subject (regex_spent_ms c))
           in catch_all
                (bindE (regex_run E regexp subject) (\<lambda>m.
                   seqE charge (ret (create_int (b2i (if negate then \<not> m else m)) unsure))))
                (\<lambda>e. seqE charge (seqE (regex_failed regexp e) (ret (create_int 0 True))))))))"

section \<open>Membership\<close>

primrec any_item :: "('o getter \<Rightarrow> ('o, bool) cev) \<Rightarrow> 'o getter list \<Rightarrow> ('o, bool) cev" where
  "any_item p [] = ret False"
| "any_item p (g # gs) = bindE (p g) (\<lambda>b. if b then ret True else any_item p gs)"

text \<open>
  The shape shared by the three \<^verbatim>\<open>eval\<close> methods of \<^verbatim>\<open>operator_in\<close> and
  \<^verbatim>\<open>operator_not_in\<close>: the nil guard, the no-value guard, then the first equal item
  decides.
\<close>

definition membership :: "bool \<Rightarrow> value_type \<Rightarrow> (value_container \<Rightarrow> 'a res) \<Rightarrow> ('o getter \<Rightarrow> ('o, 'a) cev)
    \<Rightarrow> ('a \<Rightarrow> 'a \<Rightarrow> bool) \<Rightarrow> ('o, 'n) operand \<Rightarrow> ('o, 'n) operand \<Rightarrow> ('o, value_container) cev" where
  "membership found t rd item eq left right =
     bindE (o_get left t) (\<lambda>lhs.
       if \<not> vc_is lhs t then invalid_unsure
       else if is_no_value lhs then ret (create_int 0 False)
       else bindE (lift_res (rd lhs)) (\<lambda>val.
         bindE (o_items right) (\<lambda>items.
           bindE (any_item (\<lambda>g. bindE (item g) (\<lambda>x. ret (eq x val))) (map snd items)) (\<lambda>b.
             ret (create_int (b2i (if b then found else \<not> found)) (is_unsure lhs))))))"

definition operator_in :: "('o, 'n) bool_impl" where
  "operator_in = \<lparr>
     b_eval_int = membership True type_int vc_get_int get_int_value (=),
     b_eval_float = membership True type_float vc_get_float get_float_value d_eq,
     b_eval_string = membership True type_string vc_get_string get_string_value (=)\<rparr>"

definition operator_not_in :: "('o, 'n) bool_impl" where
  "operator_not_in = \<lparr>
     b_eval_int = membership False type_int vc_get_int get_int_value (=),
     b_eval_float = membership False type_float vc_get_float get_float_value d_eq,
     b_eval_string = membership False type_string vc_get_string get_string_value (=)\<rparr>"

section \<open>Dispatch\<close>

definition operator_false :: "('o, leaf) cev" where
  "operator_false = error_false ''missing impl for FALSE''"

definition binary_operator_evaluate :: "env \<Rightarrow> operators \<Rightarrow> ('o, 'n) operand \<Rightarrow> ('o, 'n) operand \<Rightarrow> ('o, leaf) cev" where
  "binary_operator_evaluate E op left right =
     (let desc = o_show left @ '' '' @ operator_to_string op @ '' '' @ o_show right;
          cmp = (\<lambda>r. simple_bool_evaluate (even_simpler_bool_binary_operator_impl r) left right)
      in case op of
           op_eq \<Rightarrow> cmp operator_eq
         | op_gt \<Rightarrow> cmp operator_gt
         | op_lt \<Rightarrow> cmp operator_lt
         | op_le \<Rightarrow> cmp operator_le
         | op_ge \<Rightarrow> cmp operator_ge
         | op_ne \<Rightarrow> cmp operator_ne
         | op_like \<Rightarrow> pattern_evaluate (like_match_to_container E False) desc left right
         | op_not_like \<Rightarrow> pattern_evaluate (like_match_to_container E True) desc left right
         | op_regexp \<Rightarrow> pattern_evaluate (regex_match_to_container E False) desc left right
         | op_not_regexp \<Rightarrow> pattern_evaluate (regex_match_to_container E True) desc left right
         | op_and \<Rightarrow> simple_int_evaluate operator_and desc left right
         | op_or \<Rightarrow> simple_int_evaluate operator_or desc left right
         | op_in \<Rightarrow> simple_bool_evaluate operator_in left right
         | op_nin \<Rightarrow> simple_bool_evaluate operator_not_in left right
         | op_binand \<Rightarrow> simple_int_evaluate operator_and desc left right
         | op_binor \<Rightarrow> simple_int_evaluate operator_or desc left right
         | _ \<Rightarrow> operator_false)"

section \<open>Conversion\<close>

definition int_leaf :: "int res \<Rightarrow> bool \<Rightarrow> ('o, leaf) cev" where
  "int_leaf r unsure = bindE (lift_res r) (\<lambda>i. ret (LInt i unsure))"

text \<open>\<open>v\<close> is the captured first argument; only its type, value and text are used.\<close>

definition convert_with_unit :: "env \<Rightarrow> value_type \<Rightarrow> ('o, 'n) operand \<Rightarrow> string \<Rightarrow> ('o, leaf) cev" where
  "convert_with_unit E type v unit_s =
     (let what = ''convert()''
      in if type = type_date then
           (if type_is_float (o_type v) then
              bindE (o_get v type_float) (\<lambda>vc.
                int_leaf (bind_res
                    (llround_checked (d_mul (vc_get_float_or vc d_zero) (d_of_int (time_unit_multiplier unit_s))) what)
                    (\<lambda>offset. add_checked (env_now E) offset what)) (is_unsure vc))
            else
              bindE (o_get v type_int) (\<lambda>vc.
                int_leaf (bind_res
                    (mul_checked (vc_get_int_or vc 0) (time_unit_multiplier unit_s) what)
                    (\<lambda>offset. add_checked (env_now E) offset what)) (is_unsure vc)))
         else if type_is_float (o_type v) \<and> \<not> type_is_int (o_type v) then
           bindE (o_get v type_float) (\<lambda>vc.
             int_leaf (bind_res (decode_byte_units_double (vc_get_float_or vc d_zero) unit_s)
                 (\<lambda>d. llround_checked d what)) (is_unsure vc))
         else
           bindE (o_get v type_int) (\<lambda>vc.
             int_leaf (decode_byte_units (vc_get_int_or vc 0) unit_s) (is_unsure vc)))"

definition catch_out_of_range :: "('c, 'a) ev \<Rightarrow> string \<Rightarrow> ('c, 'a) ev" where
  "catch_out_of_range m msg = (\<lambda>c. case m c of
       (Inl (Out_Of_Range _), c') \<Rightarrow> (Inl (Out_Of_Range msg), c')
     | r \<Rightarrow> r)"

text \<open>\<open>None\<close> is the pass-through case: the captured argument itself is the result.\<close>

definition function_convert_evaluate :: "env \<Rightarrow> ('o, 'n) operand option \<Rightarrow> ('o, 'n) operand option \<Rightarrow> value_type \<Rightarrow> string
    \<Rightarrow> ('o, leaf option) cev" where
  "function_convert_evaluate E val unit type subject_show =
     (case val of
        None \<Rightarrow> seqE (ctx_error (''no arguments for convert(): '' @ subject_show)) (ret (Some (LInt 0 True)))
      | Some v \<Rightarrow>
          (case unit of
             Some u \<Rightarrow>
               (if type = type_date \<or> type = type_size then
                  bindE (get_string_value (o_get u)) (\<lambda>unit_s.
                    bindE (catch_out_of_range (convert_with_unit E type v unit_s)
                        (''convert('' @ o_show v @ '', '' @ quoted unit_s @ '') does not fit a 64-bit integer''))
                      (\<lambda>l. ret (Some l)))
                else seqE (ctx_error (''could not convert to '' @ type_to_string type @ '' from '' @ o_show v @
                    '', '' @ o_show u)) (ret (Some (LInt 0 True))))
           | None \<Rightarrow>
               (if type_is_int type \<and> type_is_int (o_type v) then ret None
                else if type_is_int type \<and> type_is_float (o_type v) then
                  bindE (o_get v type_float) (\<lambda>vc.
                    ret (Some (LInt (llround E (vc_get_float_or vc d_zero)) (is_unsure vc))))
                else if type_is_float type \<and> type_is_int (o_type v) then
                  bindE (o_get v type_int) (\<lambda>vc.
                    ret (Some (LFloat (d_of_int (vc_get_int_or vc 0)) (is_unsure vc))))
                else ret None)))"

section \<open>Negation\<close>

definition neg_overflow :: "int \<Rightarrow> string" where
  "neg_overflow i = ''neg('' @ xtos_int i @ '') does not fit a 64-bit integer''"

definition operator_not :: "env \<Rightarrow> value_type \<Rightarrow> 'o getter \<Rightarrow> ('o, leaf) cev" where
  "operator_not E type subject =
     (if type = type_bool then
        bindE (subject type_int) (\<lambda>v.
          if \<not> vc_is v type_int then ret (LInt 0 True)
          else ret (LInt (if vc_get_int_or v 0 \<noteq> 0 then 0 else 1) (is_unsure v)))
      else if type = type_int then
        bindE (subject type_int) (\<lambda>v.
          if \<not> vc_is v type_int then ret (LInt 0 True)
          else if vc_get_int_or v 0 = llong_min then throw (Out_Of_Range (neg_overflow (vc_get_int_or v 0)))
          else ret (LInt (- vc_get_int_or v 0) (is_unsure v)))
      else if type = type_date then
        bindE (subject type_int) (\<lambda>v.
          if \<not> vc_is v type_int then ret (LInt (env_now E) True)
          else catch_out_of_range
            (int_leaf (bind_res (add_checked (env_now E) (env_now E) ''neg()'') (\<lambda>n2.
                bind_res (negate_checked (vc_get_int_or v 0) ''neg()'') (\<lambda>m.
                  add_checked n2 m ''neg()''))) (is_unsure v))
            (neg_overflow (vc_get_int_or v 0)))
      else seqE (ctx_error ''missing impl for NOT operator'') (ret (LInt 0 True)))"

end
