(* ===== verification/Where_Node.thy ===== *)
theory Where_Node
  imports Where_Operators
begin

text \<open>
  The abstract syntax tree of a filter (\<^verbatim>\<open>parsers/where\<close>: literals, lists, operators,
  functions and the variables of \<^verbatim>\<open>variable.hpp\<close>) and its virtual methods. The mutable
  type of \<^verbatim>\<open>any_node\<close> is the first field of every node. A captured argument of
  \<^verbatim>\<open>convert\<close> is a field of the binding, so it is a subterm.
\<close>

section \<open>Syntax\<close>

type_synonym ('o, 'a) accessor = "('o \<Rightarrow> 'o ctx \<Rightarrow> (exn + 'a) \<times> 'o ctx) option"

datatype 'o node =
    StringValue value_type string bool
  | IntValue value_type int bool
  | FloatValue value_type double bool
  | ListNode value_type "'o node list"
  | BinaryOp value_type operators "'o node" "'o node"
  | UnaryOp value_type operators "'o node"
  | UnaryFun value_type string "'o node" "'o binding option"
  | IntVar value_type string "('o, int) accessor"
  | FloatVar value_type string "('o, double) accessor"
  | StrVar value_type nat string "('o, string) accessor"
  | DualVar value_type string value_type "('o, int) accessor" "('o, double) accessor" "('o, string) accessor"
  | OptIntVar value_type string value_type string "('o, int option) accessor"
  | CustomFun value_type string "'o node"
  | SummaryInt value_type string "(generic_summary \<Rightarrow> int) option"
  | SummaryString value_type string "(generic_summary \<Rightarrow> string) option"
and 'o binding =
    Convert "'o node option" "'o node option"
  | NotFn
  | FalseFn
  | ConverterFn value_type

text \<open>
  What a check registers: converters per custom type and functions per name. A converter
  and a function return a literal.
\<close>

record 'o registry =
  r_converter :: "value_type \<Rightarrow> ('o \<Rightarrow> 'o node \<Rightarrow> ('o, leaf) cev) option"
  r_function :: "string \<Rightarrow> (value_type \<Rightarrow> 'o node \<Rightarrow> ('o, leaf) cev) option"

definition no_registry :: "'o registry" where
  "no_registry = \<lparr>r_converter = (\<lambda>_. None), r_function = (\<lambda>_. None)\<rparr>"

fun node_get_type :: "'o node \<Rightarrow> value_type" where
  "node_get_type (StringValue t _ _) = t"
| "node_get_type (IntValue t _ _) = t"
| "node_get_type (FloatValue t _ _) = t"
| "node_get_type (ListNode t _) = t"
| "node_get_type (BinaryOp t _ _ _) = t"
| "node_get_type (UnaryOp t _ _) = t"
| "node_get_type (UnaryFun t _ _ _) = t"
| "node_get_type (IntVar t _ _) = t"
| "node_get_type (FloatVar t _ _) = t"
| "node_get_type (StrVar t _ _ _) = t"
| "node_get_type (DualVar t _ _ _ _ _) = t"
| "node_get_type (OptIntVar t _ _ _ _) = t"
| "node_get_type (CustomFun t _ _) = t"
| "node_get_type (SummaryInt t _ _) = t"
| "node_get_type (SummaryString t _ _) = t"

fun leaf_node :: "leaf \<Rightarrow> 'o node" where
  "leaf_node (LString v u) = StringValue type_string v u"
| "leaf_node (LInt v u) = IntValue type_int v u"
| "leaf_node (LFloat v u) = FloatValue type_float v u"

fun list_text :: "string \<Rightarrow> string list \<Rightarrow> string" where
  "list_text acc [] = acc"
| "list_text acc (s # ss) = list_text (if acc \<noteq> [] then acc @ '', '' @ s else s) ss"

text \<open>\<^verbatim>\<open>to_string()\<close>\<close>

fun to_string :: "'o node \<Rightarrow> string" where
  "to_string (StringValue _ v _) = [CHR 0x22] @ v @ [CHR 0x22]"
| "to_string (IntValue _ v _) = xtos_int v"
| "to_string (FloatValue _ v _) = xtos_double v"
| "to_string (ListNode _ ns) = list_text [] (map to_string ns)"
| "to_string (BinaryOp t op l r) = ''{'' @ type_to_string t @ ''}('' @ to_string l @ '' '' @ operator_to_string op @
     '' '' @ to_string r @ '')''"
| "to_string (UnaryOp t op s) = ''{'' @ type_to_string t @ ''}'' @ operator_to_string op @ ''( '' @ to_string s @ '' ) ''"
| "to_string (UnaryFun t name s _) = ''{'' @ type_to_string t @ ''}'' @ name @ ''('' @ to_string s @ '')''"
| "to_string (IntVar _ name _) = ''{int}'' @ name"
| "to_string (FloatVar _ name _) = ''{float}'' @ name"
| "to_string (StrVar _ _ name _) = ''{string}'' @ name"
| "to_string (DualVar t name _ _ _ _) = (if type_is_int t then ''{int}'' @ name
     else if type_is_string t then ''{string}'' @ name
     else ''{'' @ type_to_string t @ ''}'' @ name)"
| "to_string (OptIntVar _ name _ _ _) = ''{optional-int}'' @ name"
| "to_string (CustomFun _ name _) = ''{string}'' @ name @ ''()''"
| "to_string (SummaryInt _ name _) = ''{int}'' @ name @ ''()''"
| "to_string (SummaryString _ name _) = ''{str}'' @ name @ ''()''"

text \<open>\<^verbatim>\<open>require_object\<close>; a list always requires one.\<close>

fun require_object :: "'o node \<Rightarrow> bool" where
  "require_object (StringValue _ _ _) = False"
| "require_object (IntValue _ _ _) = False"
| "require_object (FloatValue _ _ _) = False"
| "require_object (ListNode _ _) = True"
| "require_object (BinaryOp _ _ l r) = (require_object l \<or> require_object r)"
| "require_object (UnaryOp _ _ s) = require_object s"
| "require_object (UnaryFun _ _ s _) = require_object s"
| "require_object (SummaryInt _ _ _) = False"
| "require_object (SummaryString _ _ _) = False"
| "require_object _ = True"

section \<open>Variables\<close>

text \<open>\<open>with_object fn yes no\<close>: the accessor is set and a record is attached.\<close>

definition with_object :: "('o, 'a) accessor \<Rightarrow> (('o, 'a) cev \<Rightarrow> ('o, 'b) cev) \<Rightarrow> ('o, 'b) cev \<Rightarrow> ('o, 'b) cev" where
  "with_object fn yes no = (\<lambda>c. case fn of None \<Rightarrow> no c
     | Some f \<Rightarrow> (case object c of None \<Rightarrow> no c | Some x \<Rightarrow> yes (f x) c))"

definition failed_to_evaluate :: "env \<Rightarrow> string \<Rightarrow> exn \<Rightarrow> ('o, unit) cev" where
  "failed_to_evaluate E name e = ctx_error (''Failed to evaluate '' @ name @ '': '' @ utf8_from_native E (exn_what e))"

definition evaluate_guard :: "env \<Rightarrow> string \<Rightarrow> ('o, leaf) cev \<Rightarrow> ('o, leaf) cev" where
  "evaluate_guard E name m = catch_std m (\<lambda>e. seqE (failed_to_evaluate E name e) (ret create_false))"

definition no_instance_false :: "string \<Rightarrow> ('o, leaf) cev" where
  "no_instance_false name = error_false (''Failed to evaluate '' @ name @ '' no object instance'')"

definition nil_error :: "string \<Rightarrow> ('o, value_container) cev" where
  "nil_error msg = seqE (ctx_error msg) (ret (create_nil False))"

definition number_of_int :: "bool \<Rightarrow> int \<Rightarrow> ('o, value_container) cev" where
  "number_of_int ti v = ret (if ti then create_int v False else create_float (d_of_int v) False)"

definition unsure_number :: "bool \<Rightarrow> ('o, value_container) cev" where
  "unsure_number ti = ret (if ti then create_int 0 True else create_float d_zero True)"

definition int_variable_evaluate :: "env \<Rightarrow> string \<Rightarrow> ('o, int) accessor \<Rightarrow> ('o, leaf) cev" where
  "int_variable_evaluate E name fn = evaluate_guard E name
     (with_object fn (\<lambda>m. bindE m (\<lambda>v. ret (LInt v False))) (no_instance_false name))"

definition int_variable_get_value :: "env \<Rightarrow> string \<Rightarrow> ('o, int) accessor \<Rightarrow> 'o getter" where
  "int_variable_get_value E name fn vt =
     (if type_is_int vt \<or> type_is_float vt then
        catch_std
          (with_object fn (\<lambda>m. bindE m (number_of_int (type_is_int vt)))
             (seqE (ctx_warn (''Failed to get '' @ name @ '' no object instance'')) (unsure_number (type_is_int vt))))
          (\<lambda>e. seqE (failed_to_evaluate E name e) (ret (create_nil False)))
      else nil_error (''Invalid type '' @ name @ '' we are int but wanted: '' @ xtos_int vt))"

definition float_variable_evaluate :: "env \<Rightarrow> string \<Rightarrow> ('o, double) accessor \<Rightarrow> ('o, leaf) cev" where
  "float_variable_evaluate E name fn = evaluate_guard E name
     (with_object fn (\<lambda>m. bindE m (\<lambda>v. ret (LFloat v False))) (no_instance_false name))"

definition float_variable_get_value :: "env \<Rightarrow> string \<Rightarrow> ('o, double) accessor \<Rightarrow> 'o getter" where
  "float_variable_get_value E name fn vt =
     (if type_is_int vt \<or> type_is_float vt then
        catch_std
          (with_object fn (\<lambda>m. bindE m (\<lambda>v.
               ret (if type_is_int vt then create_int (to_int64_saturating v) (\<not> fits_int64 v)
                    else create_float v False)))
             (seqE (ctx_warn (''Failed to get '' @ name @ '' no object instance'')) (unsure_number (type_is_int vt))))
          (\<lambda>e. seqE (failed_to_evaluate E name e) (ret (create_nil False)))
      else nil_error (''Invalid type '' @ name @ '' we are float but wanted: '' @ xtos_int vt))"

definition str_variable_evaluate :: "env \<Rightarrow> string \<Rightarrow> ('o, string) accessor \<Rightarrow> ('o, leaf) cev" where
  "str_variable_evaluate E name fn = evaluate_guard E name
     (with_object fn (\<lambda>m. bindE m (\<lambda>v. ret (LString v False)))
        (seqE (ctx_warn (''Failed to evaluate '' @ name @ '' no object instance'')) (ret create_false)))"

text \<open>The numeric view of a string; \<open>nid\<close> identifies the node whose warning is given once.\<close>

definition str_variable_number :: "env \<Rightarrow> nat \<Rightarrow> string \<Rightarrow> string \<Rightarrow> bool \<Rightarrow> ('o, value_container) cev" where
  "str_variable_number E nid name v ti =
     catch_std
       (bindE (lift_res (stox_double E (trim_copy E v))) (\<lambda>parsed.
          ret (if ti then create_int (llround E parsed) False else create_float parsed False)))
       (\<lambda>_. bindE (getE warned_not_numeric) (\<lambda>ws.
          seqE (if nid \<in> ws then ret ()
                else seqE (modify (\<lambda>c. c\<lparr>warned_not_numeric := insert nid (warned_not_numeric c)\<rparr>))
                  (ctx_warn (''Cannot compare '' @ name @ '' numerically: '' @ quoted v @ '' is not a number'')))
            (ret create_no_value)))"

definition str_variable_get_value :: "env \<Rightarrow> nat \<Rightarrow> string \<Rightarrow> ('o, string) accessor \<Rightarrow> 'o getter" where
  "str_variable_get_value E nid name fn vt =
     catch_std
       (with_object fn
          (\<lambda>m. bindE m (\<lambda>v.
             if vt = type_string then ret (create_string v False)
             else if type_is_int vt \<or> type_is_float vt then str_variable_number E nid name v (type_is_int vt)
             else nil_error (''Invalid type '' @ name)))
          (seqE (ctx_warn (''Unbound function '' @ name))
             (if type_is_int vt then ret (create_int 0 True)
              else if type_is_float vt then ret (create_float d_zero True)
              else ret (create_string [] True))))
       (\<lambda>e. seqE (failed_to_evaluate E name e) (ret (create_nil False)))"

definition dual_variable_evaluate :: "env \<Rightarrow> value_type \<Rightarrow> string \<Rightarrow> ('o, int) accessor \<Rightarrow> ('o, double) accessor
    \<Rightarrow> ('o, string) accessor \<Rightarrow> ('o, leaf) cev" where
  "dual_variable_evaluate E t name i_fun f_fun s_fun =
     (if type_is_string t then evaluate_guard E name
        (with_object s_fun (\<lambda>m. bindE m (\<lambda>v. ret (LString v False))) (no_instance_false name))
      else if type_is_float t then evaluate_guard E name
        (with_object f_fun (\<lambda>m. bindE m (\<lambda>v. ret (LFloat v False)))
           (with_object i_fun (\<lambda>m. bindE m (\<lambda>v. ret (LFloat (d_of_int v) False))) (no_instance_false name)))
      else evaluate_guard E name
        (with_object i_fun (\<lambda>m. bindE m (\<lambda>v. ret (LInt v False))) (no_instance_false name)))"

definition dual_variable_of :: "value_type \<Rightarrow> string \<Rightarrow> ('o, int) accessor \<Rightarrow> ('o, double) accessor
    \<Rightarrow> ('o, string) accessor \<Rightarrow> value_type \<Rightarrow> 'o \<Rightarrow> ('o, value_container) cev" where
  "dual_variable_of t name i_fun f_fun s_fun vt x =
     (if type_is_int vt \<and> i_fun \<noteq> None then bindE (the i_fun x) (\<lambda>v. ret (create_int v False))
      else if type_is_float vt \<and> f_fun \<noteq> None then bindE (the f_fun x) (\<lambda>v. ret (create_float v False))
      else if type_is_float vt \<and> i_fun \<noteq> None
      then bindE (the i_fun x) (\<lambda>v. ret (create_float (d_of_int v) False))
      else if vt = type_string \<and> s_fun \<noteq> None then bindE (the s_fun x) (\<lambda>v. ret (create_string v False))
      else if vt = type_string \<and> i_fun \<noteq> None \<and> (type_is_int t \<or> f_fun = None)
      then bindE (the i_fun x) (\<lambda>v. ret (create_string (xtos_int v) False))
      else if vt = type_string \<and> f_fun \<noteq> None
      then bindE (the f_fun x) (\<lambda>v. ret (create_string (xtos_double v) False))
      else nil_error (''No context when evaluating: '' @ name))"

definition dual_variable_get_value :: "env \<Rightarrow> value_type \<Rightarrow> string \<Rightarrow> ('o, int) accessor \<Rightarrow> ('o, double) accessor
    \<Rightarrow> ('o, string) accessor \<Rightarrow> 'o getter" where
  "dual_variable_get_value E t name i_fun f_fun s_fun vt =
     catch_std
       (\<lambda>c. case object c of
          None \<Rightarrow> seqE (ctx_warn (''Failed to get '' @ name @ '' no object instance''))
            (if type_is_int vt then ret (create_int 0 True)
             else if type_is_float vt then ret (create_float d_zero True)
             else if vt = type_string then ret (create_string [] True)
             else nil_error (''No context when evaluating: '' @ name)) c
        | Some x \<Rightarrow> dual_variable_of t name i_fun f_fun s_fun vt x c)
       (\<lambda>e. seqE (failed_to_evaluate E name e) (nil_error (''Failed to evaluate '' @ name)))"

definition optional_int_variable_evaluate :: "env \<Rightarrow> string \<Rightarrow> string \<Rightarrow> ('o, int option) accessor \<Rightarrow> ('o, leaf) cev" where
  "optional_int_variable_evaluate E name no_value fn = evaluate_guard E name
     (with_object fn
        (\<lambda>m. bindE m (\<lambda>v. ret (case v of Some i \<Rightarrow> LInt i False | None \<Rightarrow> LString no_value False)))
        (seqE (ctx_warn (''Failed to evaluate '' @ name @ '' no object instance'')) (ret create_false)))"

definition optional_int_variable_get_value :: "env \<Rightarrow> string \<Rightarrow> string \<Rightarrow> ('o, int option) accessor \<Rightarrow> 'o getter" where
  "optional_int_variable_get_value E name no_value fn vt =
     catch_std
       (with_object fn
          (\<lambda>m. bindE m (\<lambda>v.
             if type_is_int vt then ret (case v of Some i \<Rightarrow> create_int i False | None \<Rightarrow> create_no_value)
             else if type_is_float vt
             then ret (case v of Some i \<Rightarrow> create_float (d_of_int i) False | None \<Rightarrow> create_no_value)
             else if vt = type_string
             then ret (create_string (case v of Some i \<Rightarrow> xtos_int i | None \<Rightarrow> no_value) False)
             else nil_error (''Invalid type '' @ name @ '' we are optional-int but wanted: '' @ xtos_int vt)))
          (seqE (ctx_warn (''Failed to get '' @ name @ '' no object instance''))
             (if type_is_int vt then ret (create_int 0 True)
              else if type_is_float vt then ret (create_float d_zero True)
              else ret (create_string [] True))))
       (\<lambda>e. seqE (failed_to_evaluate E name e) (ret (create_nil False)))"

definition custom_function_evaluate :: "env \<Rightarrow> 'o registry \<Rightarrow> value_type \<Rightarrow> string \<Rightarrow> 'o node \<Rightarrow> ('o, leaf) cev" where
  "custom_function_evaluate E R t name subject = evaluate_guard E name
     (case r_function R name of
        Some f \<Rightarrow> f t subject
      | None \<Rightarrow> error_false (''Failed to evaluate '' @ name @ '' no function''))"

definition summary_int_evaluate :: "env \<Rightarrow> string \<Rightarrow> (generic_summary \<Rightarrow> int) option \<Rightarrow> ('o, leaf) cev" where
  "summary_int_evaluate E name fn = evaluate_guard E name
     (case fn of
        Some f \<Rightarrow> bindE get_summary (\<lambda>s. ret (LInt (f s) False))
      | None \<Rightarrow> error_false (''Failed to evaluate '' @ name @ '' no function''))"

definition summary_int_get_value :: "env \<Rightarrow> string \<Rightarrow> (generic_summary \<Rightarrow> int) option \<Rightarrow> 'o getter" where
  "summary_int_get_value E name fn wanted_type =
     (if wanted_type = type_int then
        catch_std
          (case fn of
             Some f \<Rightarrow> bindE get_summary (\<lambda>s. ret (create_int (f s) False))
           | None \<Rightarrow> nil_error (''Failed to evaluate '' @ name @ '' no function''))
          (\<lambda>e. seqE (failed_to_evaluate E name e) (ret (create_nil False)))
      else nil_error (''Unknown type: '' @ name))"

definition summary_string_evaluate :: "env \<Rightarrow> string \<Rightarrow> (generic_summary \<Rightarrow> string) option \<Rightarrow> ('o, leaf) cev" where
  "summary_string_evaluate E name fn = evaluate_guard E name
     (case fn of
        Some f \<Rightarrow> bindE get_summary (\<lambda>s. ret (LString (f s) False))
      | None \<Rightarrow> error_false (''Failed to evaluate '' @ name @ '' no function''))"

definition summary_string_get_value :: "string \<Rightarrow> (generic_summary \<Rightarrow> string) option \<Rightarrow> 'o getter" where
  "summary_string_get_value name fn tpe =
     (if tpe = type_int \<or> tpe = type_float then nil_error (''Function not numeric: '' @ name)
      else if tpe = type_string then
        (case fn of
           Some f \<Rightarrow> bindE get_summary (\<lambda>s. ret (create_string (f s) False))
         | None \<Rightarrow> nil_error (''Invalid function: '' @ name))
      else nil_error (''Unknown type: '' @ name))"

section \<open>Operators and functions\<close>

definition binary_op_evaluate :: "env \<Rightarrow> value_type \<Rightarrow> operators \<Rightarrow> ('o, 'n) operand \<Rightarrow> ('o, 'n) operand \<Rightarrow> ('o, leaf) cev" where
  "binary_op_evaluate E t op left right =
     (if type_is_int t \<or> type_is_string t then binary_operator_evaluate E op left right
      else error_false (''Binary operator does not work with '' @ type_to_string t))"

definition unary_op_evaluate :: "env \<Rightarrow> operators \<Rightarrow> ('o, 'n) operand \<Rightarrow> ('o, leaf) cev" where
  "unary_op_evaluate E op subject =
     (if type_is_int (get_return_type op type_invalid)
      then (if op = op_not then operator_not E (o_type subject) (o_get subject) else operator_false)
      else error_false ''Missing operator implementation'')"

definition filter_converter_evaluate :: "env \<Rightarrow> 'o registry \<Rightarrow> value_type \<Rightarrow> 'o node \<Rightarrow> ('o, leaf) cev" where
  "filter_converter_evaluate E R to subject =
     catch_std
       (\<lambda>c. case object c of
            None \<Rightarrow> error_false ''No object attached'' c
          | Some x \<Rightarrow> (case r_converter R to of
              None \<Rightarrow> error_false ''No function attached'' c
            | Some f \<Rightarrow> f x subject c))
       (\<lambda>e. error_false (''Failed to evaluate function: '' @ utf8_from_native E (exn_what e)))"

text \<open>
  \<^verbatim>\<open>function->evaluate(type, context, subject)\<close> for each kind of bound function:
  \<open>None\<close> is the captured argument of \<open>convert\<close> itself. \<open>subject\<close> comes as node, getter and
  text; the captured arguments come as operands.
\<close>

fun function_evaluate :: "env \<Rightarrow> 'o registry \<Rightarrow> 'o binding \<Rightarrow> ('o, 'n) operand option \<Rightarrow> ('o, 'n) operand option
    \<Rightarrow> value_type \<Rightarrow> 'o node \<Rightarrow> 'o getter \<Rightarrow> ('o, leaf option) cev" where
  "function_evaluate E R (Convert _ _) v u t n g = function_convert_evaluate E v u t (to_string n)"
| "function_evaluate E R NotFn v u t n g = bindE (operator_not E t g) (\<lambda>l. ret (Some l))"
| "function_evaluate E R FalseFn v u t n g = bindE operator_false (\<lambda>l. ret (Some l))"
| "function_evaluate E R (ConverterFn to) v u t n g = bindE (filter_converter_evaluate E R to n) (\<lambda>l. ret (Some l))"

definition missing_binding :: "string \<Rightarrow> ('o, leaf) cev" where
  "missing_binding name = error_false (''Missing function binding: '' @ name @ ''bound: 0'')"

definition list_node_get_value :: "'o getter list \<Rightarrow> 'o getter" where
  "list_node_get_value gs new_type =
     (if new_type = type_int \<or> new_type = type_float then nil_error ''Cant get number from a list''
      else if new_type = type_string
      then bindE (mapE get_string_value gs) (\<lambda>ss. ret (create_string (list_text [] ss) False))
      else nil_error ''Invalid type'')"

section \<open>Virtual methods\<close>

fun captured_value :: "'o binding option \<Rightarrow> 'o node option" where
  "captured_value (Some (Convert v _)) = v"
| "captured_value _ = None"

fun captured_unit :: "'o binding option \<Rightarrow> 'o node option" where
  "captured_unit (Some (Convert _ u)) = u"
| "captured_unit _ = None"

lemma captured_size [termination_simp]:
  "captured_value b = Some x \<Longrightarrow> size x < size_option size b"
  "captured_unit b = Some x \<Longrightarrow> size x < size_option size b"
  by (cases b rule: captured_value.cases; auto)+

text \<open>
  The node a bound function returns: the literal, or the captured argument. In the source the
  latter needs a captured argument, so the last case never arises.
\<close>

fun result_item :: "env \<Rightarrow> 'o node option \<Rightarrow> ('o, 'o node) operand option \<Rightarrow> leaf option \<Rightarrow> 'o node \<times> 'o getter" where
  "result_item E vn vo (Some l) = (leaf_node l, leaf_get_value E l)"
| "result_item E (Some n) (Some v) None = (n, o_get v)"
| "result_item E _ _ None = (leaf_node create_false, leaf_get_value E create_false)"

fun operand_of :: "env \<Rightarrow> 'o registry \<Rightarrow> 'o node \<Rightarrow> ('o, 'o node) operand" where
  "operand_of E R (StringValue t v u) = \<lparr>o_type = t, o_get = string_value_get_value E v u,
     o_items = ret [(leaf_node (LString v False), string_value_get_value E v False)],
     o_show = to_string (StringValue t v u :: 'o node)\<rparr>"
| "operand_of E R (IntValue t v u) = \<lparr>o_type = t, o_get = int_value_get_value v u,
     o_items = ret [(leaf_node (LInt v False), int_value_get_value v False)],
     o_show = to_string (IntValue t v u :: 'o node)\<rparr>"
| "operand_of E R (FloatValue t v u) = \<lparr>o_type = t, o_get = float_value_get_value v u,
     o_items = ret [(leaf_node (LFloat v False), float_value_get_value v False)],
     o_show = to_string (FloatValue t v u :: 'o node)\<rparr>"
| "operand_of E R (ListNode t ns) = \<lparr>o_type = t,
     o_get = list_node_get_value (map (\<lambda>n. o_get (operand_of E R n)) ns),
     o_items = ret (map (\<lambda>n. (n, o_get (operand_of E R n))) ns),
     o_show = to_string (ListNode t ns)\<rparr>"
| "operand_of E R (BinaryOp t op l r) = \<lparr>o_type = t,
     o_get = (\<lambda>vt. bindE (binary_op_evaluate E t op (operand_of E R l) (operand_of E R r))
                     (\<lambda>f. leaf_get_value E f vt)),
     o_items = ret [], o_show = to_string (BinaryOp t op l r)\<rparr>"
| "operand_of E R (UnaryOp t op s) = \<lparr>o_type = t,
     o_get = (\<lambda>vt. bindE (unary_op_evaluate E op (operand_of E R s)) (\<lambda>f. leaf_get_value E f vt)),
     o_items = ret [], o_show = to_string (UnaryOp t op s)\<rparr>"
| "operand_of E R (UnaryFun t name s b) =
     (let v = map_option (operand_of E R) (captured_value b);
          u = map_option (operand_of E R) (captured_unit b);
          S = operand_of E R s
      in \<lparr>o_type = t,
          o_get = (\<lambda>vt. case b of
              None \<Rightarrow> bindE (missing_binding name) (\<lambda>l. leaf_get_value E l vt)
            | Some f \<Rightarrow> bindE (function_evaluate E R f v u t s (o_get S))
                (\<lambda>r. snd (result_item E (captured_value b) v r) vt)),
          o_items = bindE (o_items S) (mapE (\<lambda>(n, g). case b of
              None \<Rightarrow> ret (leaf_node create_false, leaf_get_value E create_false)
            | Some f \<Rightarrow> bindE (function_evaluate E R f v u t n g)
                (\<lambda>r. ret (result_item E (captured_value b) v r)))),
          o_show = to_string (UnaryFun t name s b)\<rparr>)"
| "operand_of E R (IntVar t name fn) = \<lparr>o_type = t, o_get = int_variable_get_value E name fn,
     o_items = ret [], o_show = to_string (IntVar t name fn)\<rparr>"
| "operand_of E R (FloatVar t name fn) = \<lparr>o_type = t, o_get = float_variable_get_value E name fn,
     o_items = ret [], o_show = to_string (FloatVar t name fn)\<rparr>"
| "operand_of E R (StrVar t nid name fn) = \<lparr>o_type = t, o_get = str_variable_get_value E nid name fn,
     o_items = ret [], o_show = to_string (StrVar t nid name fn)\<rparr>"
| "operand_of E R (DualVar t name fallback i_fun f_fun s_fun) = \<lparr>o_type = t,
     o_get = dual_variable_get_value E t name i_fun f_fun s_fun,
     o_items = ret [], o_show = to_string (DualVar t name fallback i_fun f_fun s_fun)\<rparr>"
| "operand_of E R (OptIntVar t name nt no_value fn) = \<lparr>o_type = t,
     o_get = optional_int_variable_get_value E name no_value fn,
     o_items = ret [], o_show = to_string (OptIntVar t name nt no_value fn)\<rparr>"
| "operand_of E R (CustomFun t name s) = \<lparr>o_type = t,
     o_get = (\<lambda>vt. bindE (custom_function_evaluate E R t name s) (\<lambda>l. leaf_get_value E l vt)),
     o_items = ret [], o_show = to_string (CustomFun t name s)\<rparr>"
| "operand_of E R (SummaryInt t name fn) = \<lparr>o_type = t, o_get = summary_int_get_value E name fn,
     o_items = ret [], o_show = to_string (SummaryInt t name fn :: 'o node)\<rparr>"
| "operand_of E R (SummaryString t name fn) = \<lparr>o_type = t, o_get = summary_string_get_value name fn,
     o_items = ret [], o_show = to_string (SummaryString t name fn :: 'o node)\<rparr>"

abbreviation get_value :: "env \<Rightarrow> 'o registry \<Rightarrow> 'o node \<Rightarrow> 'o getter" where
  "get_value E R n \<equiv> o_get (operand_of E R n)"

definition leaf_item :: "env \<Rightarrow> ('o, leaf) cev \<Rightarrow> ('o, 'o node \<times> 'o getter) cev" where
  "leaf_item E m = bindE m (\<lambda>l. ret (leaf_node l, leaf_get_value E l))"

text \<open>\<^verbatim>\<open>evaluate\<close>: the returned node with its \<^verbatim>\<open>get_value\<close>.\<close>

fun evaluate :: "env \<Rightarrow> 'o registry \<Rightarrow> 'o node \<Rightarrow> ('o, 'o node \<times> 'o getter) cev" where
  "evaluate E R (StringValue t v u) = leaf_item E (ret create_false)"
| "evaluate E R (IntValue t v u) = leaf_item E (ret create_false)"
| "evaluate E R (FloatValue t v u) = leaf_item E (ret create_false)"
| "evaluate E R (ListNode t ns) = seqE (mapE (\<lambda>n. evaluate E R n) ns) (leaf_item E (ret create_false))"
| "evaluate E R (BinaryOp t op l r) = leaf_item E (binary_op_evaluate E t op (operand_of E R l) (operand_of E R r))"
| "evaluate E R (UnaryOp t op s) = leaf_item E (unary_op_evaluate E op (operand_of E R s))"
| "evaluate E R (UnaryFun t name s b) =
     (let v = map_option (operand_of E R) (captured_value b);
          u = map_option (operand_of E R) (captured_unit b)
      in case b of
           None \<Rightarrow> leaf_item E (missing_binding name)
         | Some f \<Rightarrow> bindE (function_evaluate E R f v u t s (get_value E R s))
             (\<lambda>r. ret (result_item E (captured_value b) v r)))"
| "evaluate E R (IntVar t name fn) = leaf_item E (int_variable_evaluate E name fn)"
| "evaluate E R (FloatVar t name fn) = leaf_item E (float_variable_evaluate E name fn)"
| "evaluate E R (StrVar t nid name fn) = leaf_item E (str_variable_evaluate E name fn)"
| "evaluate E R (DualVar t name fallback i_fun f_fun s_fun) =
     leaf_item E (dual_variable_evaluate E t name i_fun f_fun s_fun)"
| "evaluate E R (OptIntVar t name nt no_value fn) = leaf_item E (optional_int_variable_evaluate E name no_value fn)"
| "evaluate E R (CustomFun t name s) = leaf_item E (custom_function_evaluate E R t name s)"
| "evaluate E R (SummaryInt t name fn) = leaf_item E (summary_int_evaluate E name fn)"
| "evaluate E R (SummaryString t name fn) = leaf_item E (summary_string_evaluate E name fn)"

section \<open>Text of a node in a context\<close>

definition with_object_or :: "('o, 'a) accessor \<Rightarrow> ('a \<Rightarrow> string) \<Rightarrow> string \<Rightarrow> ('o, string) cev" where
  "with_object_or fn show dflt = with_object fn (\<lambda>m. bindE m (\<lambda>v. ret (show v))) (ret dflt)"

text \<open>A string variable calls its accessor whenever a record is attached, set or not.\<close>

definition str_variable_to_string :: "string \<Rightarrow> ('o, string) accessor \<Rightarrow> ('o, string) cev" where
  "str_variable_to_string name fn = (\<lambda>c. case object c of
       None \<Rightarrow> (Inr (''(string)var:'' @ name), c)
     | Some x \<Rightarrow> (case fn of Some f \<Rightarrow> f x c
         | None \<Rightarrow> (Inl (Std_Exception ''call to empty boost::function''), c)))"

definition dual_variable_to_string :: "string \<Rightarrow> ('o, int) accessor \<Rightarrow> ('o, double) accessor \<Rightarrow> ('o, string) accessor
    \<Rightarrow> ('o, string) cev" where
  "dual_variable_to_string name i_fun f_fun s_fun =
     with_object s_fun (\<lambda>m. m)
       (with_object i_fun (\<lambda>m. bindE m (\<lambda>v. ret (xtos_int v)))
         (with_object_or f_fun xtos_double (name @ ''?'')))"

fun to_string_ctx :: "env \<Rightarrow> 'o registry \<Rightarrow> 'o node \<Rightarrow> ('o, string) cev" where
  "to_string_ctx E R (StringValue t v u) = ret v"
| "to_string_ctx E R (IntValue t v u) = ret (xtos_int v)"
| "to_string_ctx E R (FloatValue t v u) = ret (xtos_double v)"
| "to_string_ctx E R (ListNode t ns) = bindE (mapE (\<lambda>n. to_string_ctx E R n) ns) (\<lambda>ss. ret (list_text [] ss))"
| "to_string_ctx E R (BinaryOp t op l r) = bindE (to_string_ctx E R l) (\<lambda>a. bindE (to_string_ctx E R r) (\<lambda>b.
     ret (a @ '' '' @ operator_to_string op @ '' '' @ b)))"
| "to_string_ctx E R (UnaryOp t op s) = bindE (to_string_ctx E R s) (\<lambda>a.
     ret (operator_to_string op @ '' ( '' @ a @ '' ) ''))"
| "to_string_ctx E R (UnaryFun t name s b) =
     (let text = (case captured_value b of None \<Rightarrow> ret [] | Some n \<Rightarrow> to_string_ctx E R n)
      in bindE
        (case b of
           None \<Rightarrow> to_string_ctx E R s
         | Some f \<Rightarrow> bindE (function_evaluate E R f (map_option (operand_of E R) (captured_value b))
                (map_option (operand_of E R) (captured_unit b)) type_string s (get_value E R s))
             (\<lambda>r. case r of Some l \<Rightarrow> ret (leaf_str l) | None \<Rightarrow> text))
        (\<lambda>a. ret (name @ ''('' @ a @ '')'')))"
| "to_string_ctx E R (IntVar t name fn) = with_object_or fn xtos_int (name @ ''?'')"
| "to_string_ctx E R (FloatVar t name fn) = with_object_or fn xtos_double (''(float)var:'' @ name)"
| "to_string_ctx E R (StrVar t nid name fn) = str_variable_to_string name fn"
| "to_string_ctx E R (DualVar t name fallback i_fun f_fun s_fun) = dual_variable_to_string name i_fun f_fun s_fun"
| "to_string_ctx E R (OptIntVar t name nt no_value fn) =
     with_object_or fn (\<lambda>v. case v of Some i \<Rightarrow> xtos_int i | None \<Rightarrow> no_value) (name @ ''?'')"
| "to_string_ctx E R (CustomFun t name s) = (case r_function R name of
       Some f \<Rightarrow> bindE (f type_string s) (\<lambda>l. get_string_value (leaf_get_value E l))
     | None \<Rightarrow> ret (''(string)fun:'' @ name))"
| "to_string_ctx E R (SummaryInt t name fn) = catch_all
     (case fn of Some f \<Rightarrow> bindE get_summary (\<lambda>s. ret (xtos_int (f s))) | None \<Rightarrow> ret (name @ ''?''))
     (\<lambda>e. ret (name @ ''?''))"
| "to_string_ctx E R (SummaryString t name fn) =
     (case fn of Some f \<Rightarrow> bindE get_summary (\<lambda>s. ret (f s)) | None \<Rightarrow> ret (''(str)var:'' @ name))"

end
