(* ===== verification/Where_Perf.thy ===== *)
theory Where_Perf
  imports Where_Node Str_Units
begin

text \<open>
  Performance data of a record: the generators of \<^verbatim>\<open>include/parsers/where/variable.hpp\<close> and
  their configuration keys (\<^verbatim>\<open>filter_handler_impl.hpp\<close>), and \<^verbatim>\<open>get_performance_data\<close> of
  every node class. A generator configures itself on its first use, so generating returns
  the generators as they are left.
\<close>

section \<open>Double arithmetic of the generators\<close>

fun d_add :: "double \<Rightarrow> double \<Rightarrow> double" where
  "d_add NaN _ = NaN"
| "d_add _ NaN = NaN"
| "d_add (Inf a) (Inf b) = (if a = b then Inf a else NaN)"
| "d_add (Inf a) (Fin _ _ _) = Inf a"
| "d_add (Fin _ _ _) (Inf b) = Inf b"
| "d_add (Fin s m e) (Fin s' m' e') =
     (let k = min e e'; v = Cpp_Double.signed s m * 2 ^ nat (e - k) + Cpp_Double.signed s' m' * 2 ^ nat (e' - k)
      in if v = 0 then Fin (s \<and> s') 0 0
         else d_round (v < 0) (if k < 0 then nat \<bar>v\<bar> else nat \<bar>v\<bar> * 2 ^ nat k) (if k < 0 then 2 ^ nat (- k) else 1))"

fun d_floor :: "double \<Rightarrow> double" where
  "d_floor (Fin s m e) = (if e \<ge> 0 then Fin s m e else Fin s (nat \<bar>Cpp_Double.signed s m div 2 ^ nat (- e)\<bar>) 0)"
| "d_floor x = x"

fun d_ceil :: "double \<Rightarrow> double" where
  "d_ceil (Fin s m e) = (if e \<ge> 0 then Fin s m e else Fin s (nat \<bar>- ((- Cpp_Double.signed s m) div 2 ^ nat (- e))\<bar>) 0)"
| "d_ceil x = x"

definition d_half :: double where "d_half = Fin False 1 (- 1)"

text \<open>\<^verbatim>\<open>percentage_int_performance_generator::round\<close>\<close>

definition round_half_up :: "double \<Rightarrow> double" where
  "round_half_up v = (if d_lt v d_zero then d_ceil (d_add v (d_neg d_half)) else d_floor (d_add v d_half))"

text \<open>A \<^verbatim>\<open>long long\<close> product, as the two's complement hardware leaves it.\<close>

definition ll_wrap :: "int \<Rightarrow> int" where
  "ll_wrap i = (i + 2 ^ 63) mod 2 ^ 64 - 2 ^ 63"

section \<open>Data\<close>

record perf_value =
  pv_value :: double
  pv_crit :: "double option"
  pv_warn :: "double option"
  pv_minimum :: "double option"
  pv_maximum :: "double option"

definition new_perf_value :: perf_value where
  "new_perf_value = \<lparr>pv_value = d_zero, pv_crit = None, pv_warn = None, pv_minimum = None, pv_maximum = None\<rparr>"

record performance_data =
  pd_alias :: string
  pd_unit :: string
  pd_float_value :: "perf_value option"
  pd_string_value :: "string option"

type_synonym perf_options = "string \<rightharpoonup> (string \<rightharpoonup> string)"

definition get_performance_config_value :: "perf_options \<Rightarrow> string \<Rightarrow> string \<Rightarrow> string option" where
  "get_performance_config_value opts obj key = (case opts obj of None \<Rightarrow> None | Some m \<Rightarrow> m key)"

text \<open>The first of the candidate objects that has the key wins.\<close>

definition config_candidates :: "string \<Rightarrow> string \<Rightarrow> string \<Rightarrow> string list" where
  "config_candidates prefix obj suffix =
     (if prefix \<noteq> [] \<and> suffix \<noteq> [] then [prefix @ ''.'' @ obj @ ''.'' @ suffix] else []) @
     (if prefix \<noteq> [] then [prefix @ ''.'' @ obj] else []) @
     (if suffix \<noteq> [] then [obj @ ''.'' @ suffix] else []) @
     (if prefix \<noteq> [] then [prefix] else []) @
     (if suffix \<noteq> [] then [suffix] else []) @ [obj, ''*'']"

fun first_value :: "(string \<Rightarrow> string option) \<Rightarrow> string list \<Rightarrow> string \<Rightarrow> string" where
  "first_value f [] v = v"
| "first_value f (x # xs) v = (case f x of Some w \<Rightarrow> w | None \<Rightarrow> first_value f xs v)"

definition get_performance_config_key :: "perf_options \<Rightarrow> string \<Rightarrow> string \<Rightarrow> string \<Rightarrow> string \<Rightarrow> string \<Rightarrow> string" where
  "get_performance_config_key opts prefix obj suffix key v =
     first_value (\<lambda>x. get_performance_config_value opts x key) (config_candidates prefix obj suffix) v"

definition add_perf_config :: "string \<Rightarrow> (string \<rightharpoonup> string) \<Rightarrow> perf_options \<Rightarrow> perf_options" where
  "add_perf_config key options opts = opts(key \<mapsto> options)"

definition parse_optional_perf_bound :: "env \<Rightarrow> string \<Rightarrow> double option res" where
  "parse_optional_perf_bound E s =
     (if s = [] then Inr None
      else case stox_double E (trim_copy E s) of
             Inr d \<Rightarrow> Inr (Some d)
           | Inl (Bad_Lexical_Cast _) \<Rightarrow> Inr None
           | Inl e \<Rightarrow> Inl e)"

definition exact_byte_unit_index :: "string \<Rightarrow> int" where
  "exact_byte_unit_index u =
     (if u = [] \<or> length u > 2 then - 1
      else if length u = 2 \<and> u ! 1 \<noteq> CHR ''B'' \<and> u ! 1 \<noteq> CHR ''b'' then - 1
      else byte_unit_index u)"

section \<open>Generators\<close>

record simple_number_performance_generator =
  sg_unit :: string
  sg_registered_unit :: string
  sg_prefix :: string
  sg_suffix :: string
  sg_configured :: bool
  sg_ignored :: bool
  sg_minimum :: "double option"
  sg_maximum :: "double option"

record 'o percentage_int_performance_generator =
  pg_maxfun :: "'o \<Rightarrow> ('o, int) cev"
  pg_prefix :: string
  pg_suffix :: string
  pg_configured :: bool
  pg_ignored :: bool

record 'o scaled_byte_int_performance_generator =
  bg_minfun :: "('o \<Rightarrow> ('o, int) cev) option"
  bg_maxfun :: "('o \<Rightarrow> ('o, int) cev) option"
  bg_prefix :: string
  bg_suffix :: string
  bg_unit :: string
  bg_configured :: bool
  bg_ignored :: bool

datatype 'o generator =
    SimpleGen simple_number_performance_generator
  | PercentGen "'o percentage_int_performance_generator"
  | ByteGen "'o scaled_byte_int_performance_generator"

definition none_is_empty :: "string \<Rightarrow> string" where
  "none_is_empty s = (if s = ''none'' then [] else s)"

definition simple_configure :: "env \<Rightarrow> perf_options \<Rightarrow> string \<Rightarrow> simple_number_performance_generator
    \<Rightarrow> simple_number_performance_generator res" where
  "simple_configure E opts key g =
     (let cfg = get_performance_config_key opts (trim_copy E (sg_prefix g)) (trim_copy E key) (trim_copy E (sg_suffix g));
          bound = (\<lambda>a b. bind_res (parse_optional_perf_bound E (cfg a [])) (\<lambda>r.
             case r of Some d \<Rightarrow> Inr (Some d) | None \<Rightarrow> parse_optional_perf_bound E (cfg b [])))
      in bind_res (bound ''minimum'' ''min'') (\<lambda>mn. bind_res (bound ''maximum'' ''max'') (\<lambda>mx.
           Inr (g\<lparr>sg_unit := cfg ''unit'' (sg_unit g), sg_prefix := none_is_empty (cfg ''prefix'' (sg_prefix g)),
                  sg_suffix := none_is_empty (cfg ''suffix'' (sg_suffix g)),
                  sg_ignored := sg_ignored g \<or> cfg ''ignored'' ''false'' = ''true'',
                  sg_minimum := mn, sg_maximum := mx, sg_configured := True\<rparr>))))"

definition percentage_configure :: "env \<Rightarrow> perf_options \<Rightarrow> string \<Rightarrow> 'o percentage_int_performance_generator
    \<Rightarrow> 'o percentage_int_performance_generator" where
  "percentage_configure E opts key g =
     (let cfg = get_performance_config_key opts (trim_copy E (pg_prefix g)) (trim_copy E key) (trim_copy E (pg_suffix g))
      in g\<lparr>pg_prefix := none_is_empty (cfg ''prefix'' (pg_prefix g)), pg_suffix := none_is_empty (cfg ''suffix'' (pg_suffix g)),
           pg_ignored := pg_ignored g \<or> cfg ''ignored'' ''false'' = ''true'', pg_configured := True\<rparr>)"

definition scaled_byte_configure :: "env \<Rightarrow> perf_options \<Rightarrow> string \<Rightarrow> 'o scaled_byte_int_performance_generator
    \<Rightarrow> 'o scaled_byte_int_performance_generator" where
  "scaled_byte_configure E opts key g =
     (let cfg = get_performance_config_key opts (trim_copy E (bg_prefix g)) (trim_copy E key) (trim_copy E (bg_suffix g))
      in g\<lparr>bg_unit := cfg ''unit'' (bg_unit g),
           bg_prefix := none_is_empty (cfg ''prefix'' (bg_prefix g)), bg_suffix := none_is_empty (cfg ''suffix'' (bg_suffix g)),
           bg_ignored := bg_ignored g \<or> cfg ''ignored'' ''false'' = ''true'', bg_configured := True\<rparr>)"

section \<open>Generating\<close>

primrec scale_down :: "nat \<Rightarrow> double \<Rightarrow> double" where
  "scale_down 0 v = v"
| "scale_down (Suc k) v = scale_down k (d_div v (d_of_int 1024))"

primrec scale_up :: "nat \<Rightarrow> double \<Rightarrow> double" where
  "scale_up 0 v = v"
| "scale_up (Suc k) v = scale_up k (d_mul v (d_of_int 1024))"

text \<open>
  A unit override on a byte series converts the values; any other override is a relabel.
\<close>

definition unit_scale :: "string \<Rightarrow> string \<Rightarrow> double" where
  "unit_scale registered u =
     (if u = registered then d_of_int 1
      else let from = exact_byte_unit_index registered; to = exact_byte_unit_index u
           in if from \<ge> 0 \<and> to \<ge> 0 then scale_up (nat (from - to)) (scale_down (nat (to - from)) (d_of_int 1))
              else d_of_int 1)"

definition simple_eval :: "simple_number_performance_generator \<Rightarrow> string \<Rightarrow> double \<Rightarrow> double option \<Rightarrow> double option
    \<Rightarrow> performance_data list" where
  "simple_eval g alias cur warn crit =
     (if sg_ignored g then []
      else let sc = unit_scale (sg_registered_unit g) (sg_unit g)
           in [\<lparr>pd_alias = sg_prefix g @ alias @ sg_suffix g, pd_unit = sg_unit g,
                pd_float_value = Some \<lparr>pv_value = d_mul cur sc, pv_crit = map_option (\<lambda>v. d_mul v sc) crit,
                  pv_warn = map_option (\<lambda>v. d_mul v sc) warn, pv_minimum = sg_minimum g, pv_maximum = sg_maximum g\<rparr>,
                pd_string_value = None\<rparr>])"

definition percentage_of :: "int \<Rightarrow> int \<Rightarrow> double" where
  "percentage_of v maximum = round_half_up (d_div (d_of_int (ll_wrap (v * 100))) (d_of_int maximum))"

definition percentage_eval :: "'o percentage_int_performance_generator \<Rightarrow> string \<Rightarrow> int \<Rightarrow> int option \<Rightarrow> int option \<Rightarrow> 'o
    \<Rightarrow> ('o, performance_data list) cev" where
  "percentage_eval g alias cur warn crit obj =
     (if pg_ignored g then ret []
      else bindE (pg_maxfun g obj) (\<lambda>maximum.
        ret (if maximum > 0
             then [\<lparr>pd_alias = pg_prefix g @ alias @ pg_suffix g, pd_unit = ''%'',
                    pd_float_value = Some \<lparr>pv_value = percentage_of cur maximum,
                      pv_crit = map_option (\<lambda>v. percentage_of v maximum) crit,
                      pv_warn = map_option (\<lambda>v. percentage_of v maximum) warn,
                      pv_minimum = Some (d_of_int 0), pv_maximum = Some (d_of_int 100)\<rparr>,
                    pd_string_value = None\<rparr>]
             else [])))"

definition call_or_zero :: "('o \<Rightarrow> ('o, int) cev) option \<Rightarrow> 'o \<Rightarrow> ('o, int) cev" where
  "call_or_zero f obj = (case f of None \<Rightarrow> ret 0 | Some g \<Rightarrow> g obj)"

definition reference_bytes :: "int \<Rightarrow> int option \<Rightarrow> int option \<Rightarrow> int \<Rightarrow> int \<Rightarrow> int" where
  "reference_bytes cur warn crit max_value min_value =
     (let m1 = (case warn of Some w \<Rightarrow> if w > 0 then max cur w else cur | None \<Rightarrow> cur);
          m2 = (case crit of Some k \<Rightarrow> if k > 0 then max m1 k else m1 | None \<Rightarrow> m1);
          m3 = (if max_value > 0 then min m2 max_value else m2)
      in if min_value > 0 then min m3 min_value else m3)"

definition byte_bound :: "('o \<Rightarrow> ('o, int) cev) option \<Rightarrow> int \<Rightarrow> string \<Rightarrow> double option" where
  "byte_bound f v u =
     (case f of None \<Rightarrow> None | Some _ \<Rightarrow> Some (if v > 0 then convert_to_byte_units v u else d_of_int v))"

definition scaled_byte_eval :: "'o scaled_byte_int_performance_generator \<Rightarrow> string \<Rightarrow> int \<Rightarrow> int option \<Rightarrow> int option \<Rightarrow> 'o
    \<Rightarrow> ('o, performance_data list) cev" where
  "scaled_byte_eval g alias cur warn crit obj =
     (if bg_ignored g then ret []
      else bindE (call_or_zero (bg_maxfun g) obj) (\<lambda>max_value. bindE (call_or_zero (bg_minfun g) obj) (\<lambda>min_value.
        let active_unit = (if bg_unit g = [] then find_proper_unit_BKMG (reference_bytes cur warn crit max_value min_value)
                           else bg_unit g)
        in ret [\<lparr>pd_alias = bg_prefix g @ alias @ bg_suffix g, pd_unit = active_unit,
                 pd_float_value = Some \<lparr>pv_value = convert_to_byte_units cur active_unit,
                   pv_crit = map_option (\<lambda>v. convert_to_byte_units v active_unit) crit,
                   pv_warn = map_option (\<lambda>v. convert_to_byte_units v active_unit) warn,
                   pv_minimum = byte_bound (bg_minfun g) min_value active_unit,
                   pv_maximum = byte_bound (bg_maxfun g) max_value active_unit\<rparr>,
                 pd_string_value = None\<rparr>])))"

section \<open>Performance data of a node\<close>

text \<open>One generator of an integer variable: configured on first use, then evaluated.\<close>

definition run_generator :: "env \<Rightarrow> perf_options \<Rightarrow> string \<Rightarrow> string \<Rightarrow> int \<Rightarrow> int option \<Rightarrow> int option \<Rightarrow> 'o generator
    \<Rightarrow> ('o, performance_data list \<times> 'o generator) cev" where
  "run_generator E opts name alias cur warn crit g =
     (case g of
        SimpleGen s \<Rightarrow> bindE (lift_res (if sg_configured s then Inr s else simple_configure E opts name s)) (\<lambda>s'.
          seqE get_object (ret (simple_eval s' alias (d_of_int cur) (map_option d_of_int warn) (map_option d_of_int crit), SimpleGen s')))
      | PercentGen p \<Rightarrow> (let p' = (if pg_configured p then p else percentage_configure E opts name p)
          in bindE get_object (\<lambda>x. bindE (percentage_eval p' alias cur warn crit x) (\<lambda>r. ret (r, PercentGen p'))))
      | ByteGen b \<Rightarrow> (let b' = (if bg_configured b then b else scaled_byte_configure E opts name b)
          in bindE get_object (\<lambda>x. bindE (scaled_byte_eval b' alias cur warn crit x) (\<lambda>r. ret (r, ByteGen b')))))"

definition run_float_generator :: "env \<Rightarrow> perf_options \<Rightarrow> string \<Rightarrow> string \<Rightarrow> double \<Rightarrow> double option \<Rightarrow> double option
    \<Rightarrow> simple_number_performance_generator \<Rightarrow> ('o, performance_data list \<times> simple_number_performance_generator) cev" where
  "run_float_generator E opts name alias cur warn crit s =
     bindE (lift_res (if sg_configured s then Inr s else simple_configure E opts name s)) (\<lambda>s'.
       seqE get_object (ret (simple_eval s' alias cur warn crit, s')))"

definition run_all :: "('g \<Rightarrow> ('o, performance_data list \<times> 'g) cev) \<Rightarrow> 'g list \<Rightarrow> ('o, performance_data list \<times> 'g list) cev" where
  "run_all f gs = bindE (mapE f gs) (\<lambda>rs. ret (concat (map fst rs), map snd rs))"

definition optional_value :: "('o, 'a) cev option \<Rightarrow> ('o, 'a option) cev" where
  "optional_value m = (case m of None \<Rightarrow> ret None | Some n \<Rightarrow> bindE n (\<lambda>v. ret (Some v)))"

text \<open>
  An entry of \<^verbatim>\<open>leaf_performance_data\<close>: the node of the variable with its generators, and the
  bounds found in the warning and critical expressions.
\<close>

record 'o perf_entry =
  pe_label :: string
  pe_current :: "'o node"
  pe_generators :: "'o generator list"
  pe_float_generators :: "simple_number_performance_generator list"
  pe_warn :: "'o node option"
  pe_crit :: "'o node option"

definition number_performance_data :: "env \<Rightarrow> 'o registry \<Rightarrow> perf_options \<Rightarrow> string \<Rightarrow> string \<Rightarrow> ('o, int option) cev
    \<Rightarrow> 'o perf_entry \<Rightarrow> ('o, performance_data list \<times> 'o perf_entry) cev" where
  "number_performance_data E R opts name alias current e = (\<lambda>c.
     if \<not> has_object c then (Inr ([], e), c)
     else bindE current (\<lambda>v. case v of None \<Rightarrow> ret ([], e) | Some cur \<Rightarrow>
       bindE (optional_value (map_option (\<lambda>n. get_int_value (get_value E R n)) (pe_warn e))) (\<lambda>warn.
       bindE (optional_value (map_option (\<lambda>n. get_int_value (get_value E R n)) (pe_crit e))) (\<lambda>crit.
       bindE (run_all (run_generator E opts name alias cur warn crit) (pe_generators e)) (\<lambda>(r, gs).
         ret (r, e\<lparr>pe_generators := gs\<rparr>))))) c)"

definition float_performance_data :: "env \<Rightarrow> 'o registry \<Rightarrow> perf_options \<Rightarrow> string \<Rightarrow> string \<Rightarrow> 'o perf_entry
    \<Rightarrow> ('o, performance_data list \<times> 'o perf_entry) cev" where
  "float_performance_data E R opts name alias e = (\<lambda>c.
     if \<not> has_object c then (Inr ([], e), c)
     else bindE (get_float_value (get_value E R (pe_current e))) (\<lambda>cur.
       bindE (optional_value (map_option (\<lambda>n. get_float_value (get_value E R n)) (pe_warn e))) (\<lambda>warn.
       bindE (optional_value (map_option (\<lambda>n. get_float_value (get_value E R n)) (pe_crit e))) (\<lambda>crit.
       bindE (run_all (run_float_generator E opts name alias cur warn crit) (pe_float_generators e)) (\<lambda>(r, gs).
         ret (r, e\<lparr>pe_float_generators := gs\<rparr>))))) c)"

definition summary_performance_data :: "env \<Rightarrow> 'o registry \<Rightarrow> string \<Rightarrow> 'o perf_entry
    \<Rightarrow> ('o, performance_data list \<times> 'o perf_entry) cev" where
  "summary_performance_data E R name e = (\<lambda>c.
     if has_object c then (Inr ([], e), c)
     else bindE (get_int_value (get_value E R (pe_current e))) (\<lambda>cur.
       bindE (optional_value (map_option (\<lambda>n. get_int_value (get_value E R n)) (pe_warn e))) (\<lambda>warn.
       bindE (optional_value (map_option (\<lambda>n. get_int_value (get_value E R n)) (pe_crit e))) (\<lambda>crit.
         ret ([\<lparr>pd_alias = name, pd_unit = [],
                pd_float_value = Some (new_perf_value\<lparr>pv_value := d_of_int cur, pv_warn := map_option d_of_int warn,
                  pv_crit := map_option d_of_int crit\<rparr>), pd_string_value = None\<rparr>], e)))) c)"

text \<open>An empty accessor of an optional number is called, which throws.\<close>

definition call_accessor :: "('o, 'a) accessor \<Rightarrow> ('o, 'a) cev" where
  "call_accessor fn = bindE get_object (\<lambda>x. case fn of
     None \<Rightarrow> throw (Std_Exception ''call to empty boost::function'') | Some f \<Rightarrow> f x)"

fun get_performance_data :: "env \<Rightarrow> 'o registry \<Rightarrow> perf_options \<Rightarrow> string \<Rightarrow> 'o perf_entry
    \<Rightarrow> ('o, performance_data list \<times> 'o perf_entry) cev" where
  "get_performance_data E R opts alias e = (case pe_current e of
     IntVar _ name _ \<Rightarrow> number_performance_data E R opts name alias
       (bindE (get_int_value (get_value E R (pe_current e))) (\<lambda>v. ret (Some v))) e
   | FloatVar _ name _ \<Rightarrow> float_performance_data E R opts name alias e
   | DualVar _ name _ _ _ _ \<Rightarrow> number_performance_data E R opts name alias
       (bindE (get_int_value (get_value E R (pe_current e))) (\<lambda>v. ret (Some v))) e
   | OptIntVar _ name _ _ fn \<Rightarrow> number_performance_data E R opts name alias (call_accessor fn) e
   | SummaryInt _ name _ \<Rightarrow> summary_performance_data E R name e
   | _ \<Rightarrow> ret ([], e))"

section \<open>Properties\<close>

text \<open>
  No value, no metric: a record for which an optional number has no value produces no
  performance data for it, whatever generators and bounds are registered.
\<close>

theorem optional_number_without_metric:
  assumes "pe_current e = OptIntVar t name nt nv (Some f)" and "object c = Some x" and "f x c = (Inr None, c')"
  shows "get_performance_data E R opts alias e c = (Inr ([], e), c')"
  using assms
  by (simp add: number_performance_data_def call_accessor_def has_object_def bindE_def get_object_def ret_def)

theorem optional_number_without_metric_witness:
  "get_performance_data plain_env no_registry Map.empty ''x''
     \<lparr>pe_label = ''jitter'', pe_current = OptIntVar type_multi ''jitter'' type_int ''unknown'' (Some (\<lambda>_. ret None)),
      pe_generators = [], pe_float_generators = [], pe_warn = None, pe_crit = None\<rparr>
     ((initial_ctx new_summary :: nat ctx)\<lparr>object := Some 7\<rparr>)
   = (Inr ([], \<lparr>pe_label = ''jitter'', pe_current = OptIntVar type_multi ''jitter'' type_int ''unknown'' (Some (\<lambda>_. ret None)),
      pe_generators = [], pe_float_generators = [], pe_warn = None, pe_crit = None\<rparr>), (initial_ctx new_summary)\<lparr>object := Some 7\<rparr>)"
  by (rule optional_number_without_metric [where f = "\<lambda>_. ret None" and x = 7]) (simp_all add: ret_def)

lemma d_mul_1024:
  assumes "2 ^ 52 \<le> m" "m < 2 ^ 53" "- 1084 \<le> e" "e \<le> 961"
  shows "d_mul (Fin s m e) (d_of_int 1024) = Fin s m (e + 10)"
proof -
  let ?n = "if e - 42 < 0 then m * 2 ^ 52 else m * 2 ^ 52 * 2 ^ nat (e - 42)"
  let ?d = "if e - 42 < 0 then 2 ^ nat (- (e - 42)) else (1 :: nat)"
  have "d_mul (Fin s m e) (d_of_int 1024) = d_round s ?n ?d"
    unfolding d_of_1024 d_mul.simps Let_def by (simp only: add_uminus_conv_diff) simp
  moreover have "real ?n / real ?d = real m * (2 powi (e - 42) * 2 powi 52)"
    by (cases "e - 42 < 0") (simp_all add: power_int_def power_one_over)
  moreover have "2 powi (e - 42) * 2 powi 52 = (2 powi (e + 10) :: real)"
    unfolding powi_two_add [symmetric] by (rule arg_cong) simp
  moreover have "0 < ?d" by simp
  ultimately show ?thesis
    using d_round_exact [OF assms(1,2), of "e + 10" ?d ?n s] assms(3,4) by simp
qed

lemma scale_up_normal:
  assumes "2 ^ 52 \<le> m" "m < 2 ^ 53" "- 1084 \<le> e" "e + 10 * int k \<le> 971"
  shows "scale_up k (Fin s m e) = Fin s m (e + 10 * int k)"
  using assms(3,4)
proof (induction k arbitrary: e)
  case (Suc k)
  have "d_mul (Fin s m e) (d_of_int 1024) = Fin s m (e + 10)"
    using Suc.prems by (intro d_mul_1024 assms(1,2)) simp_all
  with Suc.IH [of "e + 10"] Suc.prems show ?case by simp
qed simp

lemma scale_down_is_div: "scale_down k v = div_1024 k v"
  by (induction k arbitrary: v) simp_all

lemma d_of_1: "d_of_int 1 = Fin False (2 ^ 52) (- 52)"
  using d_round_small [of 1 False] by (simp add: d_of_int_def)

lemma exact_byte_unit_range: "exact_byte_unit_index u \<le> 6"
  using byte_unit_index_range [of u] by (simp add: exact_byte_unit_index_def)

text \<open>
  Changing the unit of a byte series rescales it exactly: with both units byte units, the
  factor is \<open>1024\<close> to the number of steps between them, and with any other pair it is one.
\<close>

theorem unit_scale_exact:
  "d_finite (unit_scale registered u) \<and>
   d_val (unit_scale registered u) =
     (let i = exact_byte_unit_index registered; j = exact_byte_unit_index u
      in if u \<noteq> registered \<and> i \<ge> 0 \<and> j \<ge> 0 then 1024 powi (i - j) else 1)"
proof -
  define i j where "i = exact_byte_unit_index registered" and "j = exact_byte_unit_index u"
  have one: "d_finite (d_of_int 1)" "d_val (d_of_int 1) = 1" using d_of_int_exact [of 1] by simp_all
  show ?thesis
  proof (cases "u \<noteq> registered \<and> i \<ge> 0 \<and> j \<ge> 0")
    case False
    then have "unit_scale registered u = d_of_int 1"
      unfolding unit_scale_def Let_def i_def j_def by auto
    then show ?thesis using one False by (simp only: Let_def if_False i_def [symmetric] j_def [symmetric])
  next
    case True
    have b: "i \<le> 6" "j \<le> 6" unfolding i_def j_def by (rule exact_byte_unit_range)+
    have down: "scale_down (nat (j - i)) (d_of_int 1) = Fin False (2 ^ 52) (- 52 - 10 * int (nat (j - i)))"
      unfolding scale_down_is_div d_of_1 using True b by (intro div_1024_normal) simp_all
    have "scale_up (nat (i - j)) (scale_down (nat (j - i)) (d_of_int 1)) =
        Fin False (2 ^ 52) (- 52 - 10 * int (nat (j - i)) + 10 * int (nat (i - j)))"
      unfolding down using True b by (intro scale_up_normal) simp_all
    then have u: "unit_scale registered u = Fin False (2 ^ 52) (- 52 + 10 * (i - j))"
      using True unfolding unit_scale_def Let_def i_def [symmetric] j_def [symmetric] by (cases "i \<le> j") simp_all
    have "d_val (unit_scale registered u) = 2 powi 52 * 2 powi (- 52 + 10 * (i - j))"
      unfolding u by (simp add: Cpp_Double.signed_def)
    also have "\<dots> = 2 powi (10 * (i - j))" unfolding powi_two_add [symmetric] by simp
    also have "\<dots> = 1024 powi (i - j)" by (simp only: power_int_mult) simp
    finally show ?thesis using True u unfolding i_def j_def by (simp add: Let_def)
  qed
qed

end
