(* ===== verification/Where_Engine.thy ===== *)
theory Where_Engine
  imports Where_Node
begin

text \<open>
  The parsed filter and the engine over a list of filters (\<^verbatim>\<open>parsers/where.cpp\<close>,
  \<^verbatim>\<open>parsers/where/engine.cpp\<close>): guarded evaluation, matching with and without a
  record, and forced matching. An engine is the list of its bound trees; whether a tree
  requires a record depends on the tree alone, so the cached answer of
  \<^verbatim>\<open>engine_filter\<close> is the tree's.
\<close>

section \<open>Expression limits\<close>

definition max_expression_length :: nat where "max_expression_length = 1024"
definition max_expression_depth :: nat where "max_expression_depth = 64"

definition is_ident :: "char \<Rightarrow> bool" where
  "is_ident ch \<longleftrightarrow> CHR ''a'' \<le> ch \<and> ch \<le> CHR ''z'' \<or> CHR ''A'' \<le> ch \<and> ch \<le> CHR ''Z'' \<or>
     CHR ''0'' \<le> ch \<and> ch \<le> CHR ''9'' \<or> ch = CHR ''_''"

definition skip_past :: "char \<Rightarrow> string \<Rightarrow> string" where
  "skip_past q s = tl (dropWhile (\<lambda>c. c \<noteq> q) s)"

text \<open>
  The scan walks the expression from left to right; \<open>before\<close> is the text already passed, last
  character first, which the test for a \<^verbatim>\<open>str(\<close> literal looks back into.
\<close>

definition opens_str_literal :: "string \<Rightarrow> bool" where
  "opens_str_literal before \<longleftrightarrow> take 3 before = ''rts'' \<and> (length before = 3 \<or> \<not> is_ident (before ! 3))"

lemma skip_past_length: "length (skip_past q s) \<le> length s"
  by (simp add: skip_past_def) (meson diff_le_self le_trans length_dropWhile_le)

function paren_scan :: "string \<Rightarrow> string \<Rightarrow> nat \<Rightarrow> nat \<Rightarrow> nat" where
  "paren_scan before [] depth max_depth = max_depth"
| "paren_scan before (c # rest) depth max_depth =
     (if c = CHR 0x27 then
        paren_scan (rev (take (length rest - length (skip_past (CHR 0x27) rest)) rest) @ c # before)
          (skip_past (CHR 0x27) rest) depth max_depth
      else if c = CHR ''('' then
        (if opens_str_literal before then
           paren_scan (rev (take (length rest - length (skip_past (CHR '')'') rest)) rest) @ c # before)
             (skip_past (CHR '')'') rest) depth max_depth
         else if Suc depth > max_depth then
           (if Suc depth > max_expression_depth then Suc depth
            else paren_scan (c # before) rest (Suc depth) (Suc depth))
         else paren_scan (c # before) rest (Suc depth) max_depth)
      else if c = CHR '')'' then paren_scan (c # before) rest (depth - 1) max_depth
      else paren_scan (c # before) rest depth max_depth)"
  by pat_completeness auto
termination
  by (relation "measure (\<lambda>(_, s, _, _). length s)") (auto simp: le_imp_less_Suc skip_past_length)

definition max_paren_depth :: "string \<Rightarrow> nat" where
  "max_paren_depth expr = paren_scan [] expr 0 0"

text \<open>The grammar is a parameter: what it parses, or the unparsed rest.\<close>

definition parse :: "(string \<Rightarrow> string + 'o node) \<Rightarrow> string \<Rightarrow> string + 'o node" where
  "parse grammar expr =
     (if length expr > max_expression_length
      then Inl (''expression exceeds the maximum length of '' @ nat_str max_expression_length @ '' characters'')
      else if max_paren_depth expr > max_expression_depth
      then Inl (''expression nesting exceeds the maximum depth of '' @ nat_str max_expression_depth)
      else grammar expr)"

section \<open>Evaluation\<close>

definition parser_evaluate :: "env \<Rightarrow> 'o registry \<Rightarrow> 'o node \<Rightarrow> ('o, value_container) cev" where
  "parser_evaluate E R tree =
     catch_all (bindE (evaluate E R tree) (\<lambda>r. snd r type_int))
       (\<lambda>e. seqE (if is_std_exception e then ctx_error (''Evaluate exception: '' @ exn_what e)
                  else ctx_error (''Evaluate exception: '' @ to_string tree))
              (ret (create_int 0 True)))"

definition when_logged :: "('o ctx \<Rightarrow> bool) \<Rightarrow> ('o ctx \<Rightarrow> string) \<Rightarrow> (string \<Rightarrow> ('o, unit) cev) \<Rightarrow> ('o, string) cev
    \<Rightarrow> ('o, unit) cev" where
  "when_logged has get out tree = bindE (getE has) (\<lambda>b. if b
     then bindE (getE get) (\<lambda>msg. bindE tree (\<lambda>t. out (msg @ '': '' @ t))) else ret ())"

text \<open>A warning goes to the debug log only, so its text is computed and dropped.\<close>

definition engine_filter_match :: "env \<Rightarrow> 'o registry \<Rightarrow> 'o node \<Rightarrow> bool \<Rightarrow> ('o, bool) cev" where
  "engine_filter_match E R tree expect_object =
     (if expect_object \<and> \<not> require_object tree then ret False
      else if \<not> expect_object \<and> require_object tree then ret False
      else bindE (parser_evaluate E R tree) (\<lambda>v.
        seqE (when_logged has_error get_error log_error (to_string_ctx E R tree))
        (seqE (when_logged has_warn get_warn (\<lambda>_. ret ()) (to_string_ctx E R tree))
        (seqE ctx_clear
        (seqE (if is_unsure v then bindE (to_string_ctx E R tree) (\<lambda>_. ret ()) else ret ())
          (ret (vc_is_true v)))))))"

record force_match_result =
  fm_matched :: bool
  fm_unsure :: bool

definition engine_filter_match_force :: "env \<Rightarrow> 'o registry \<Rightarrow> 'o node \<Rightarrow> ('o, force_match_result) cev" where
  "engine_filter_match_force E R tree =
     bindE (parser_evaluate E R tree) (\<lambda>v.
       seqE (when_logged has_error get_error log_error (to_string_ctx E R tree))
       (seqE ctx_clear
         (ret \<lparr>fm_matched = vc_is_true v, fm_unsure = is_unsure v\<rparr>)))"

type_synonym 'o engine = "'o node list"

primrec engine_match :: "env \<Rightarrow> 'o registry \<Rightarrow> 'o engine \<Rightarrow> bool \<Rightarrow> ('o, bool) cev" where
  "engine_match E R [] expect_object = ret False"
| "engine_match E R (f # fs) expect_object =
     bindE (engine_filter_match E R f expect_object) (\<lambda>b.
       if b then ret True else engine_match E R fs expect_object)"

primrec engine_match_force_from :: "env \<Rightarrow> 'o registry \<Rightarrow> 'o engine \<Rightarrow> bool \<Rightarrow> ('o, force_match_result) cev" where
  "engine_match_force_from E R [] any_unsure = ret \<lparr>fm_matched = False, fm_unsure = any_unsure\<rparr>"
| "engine_match_force_from E R (f # fs) any_unsure =
     bindE (engine_filter_match_force E R f) (\<lambda>r.
       if fm_matched r \<and> \<not> fm_unsure r then ret \<lparr>fm_matched = True, fm_unsure = False\<rparr>
       else engine_match_force_from E R fs (any_unsure \<or> fm_unsure r))"

definition engine_match_force :: "env \<Rightarrow> 'o registry \<Rightarrow> 'o engine \<Rightarrow> ('o, force_match_result) cev" where
  "engine_match_force E R fs = engine_match_force_from E R fs False"

end
