(* ===== verification/Where_Frame.thy ===== *)
theory Where_Frame
  imports Where_Engine
begin

text \<open>
  What evaluating a filter leaves alone. Evaluation writes messages, spends the regular
  expression budget and warms the pattern cache; as long as the accessors and the registered
  functions do the same, the record, the summary and the debug trail stay as they are.
\<close>

definition frame :: "'o ctx \<Rightarrow> 'o option \<times> generic_summary option \<times> bool \<times> ('o \<times> object_match) list \<times> 'o option \<times> 64 word" where
  "frame c = (object c, summary c, debug_on c, object_debug c, last_debug_object c, regex_budget_ms c)"

abbreviation framed :: "('o, 'a) cev \<Rightarrow> bool" where "framed m \<equiv> keeps frame m"

section \<open>Operations\<close>

lemma keeps_Pair: "keeps p (Pair r)"
  by (simp add: keeps_def)

lemma framed_modify: "(\<And>c. frame (g c) = frame c) \<Longrightarrow> framed (modify g)"
  by (rule keeps_modify)

lemma framed_ctx [intro!]:
  "framed (ctx_error m)" "framed (ctx_warn m)" "framed ctx_clear" "framed (charge_regex_time_ms t)"
  "framed (log_error m)"
  by (auto intro!: framed_modify simp: ctx_ops log_error_def frame_def)

lemma framed_getters [intro!]: "framed get_object" "framed get_summary"
  by (auto simp: keeps_def get_object_def get_summary_def split: option.splits)

lemma framed_compiled_regex [intro!]: "framed (compiled_regex E p)"
  by (auto simp: keeps_def compiled_regex_def frame_def Let_def split: option.splits sum.splits prod.splits)

lemma framed_if: "(b \<Longrightarrow> framed m) \<Longrightarrow> (\<not> b \<Longrightarrow> framed n) \<Longrightarrow> framed (if b then m else n)"
  by simp

lemma framed_catch_out_of_range: "framed m \<Longrightarrow> framed (catch_out_of_range m s)"
  unfolding keeps_def catch_out_of_range_def by (auto split: prod.split sum.split exn.split) (metis snd_conv)+

lemma framed_leaf: "framed (error_false m)" "framed operator_false" "framed invalid_unsure" "framed (nil_error m)"
  "framed (missing_binding s)" "framed (no_instance_false s)" "framed (failed_to_evaluate E s e)"
  "framed (int_leaf r u)" "framed (number_of_int ti i)" "framed (unsure_number ti)"
  by (auto simp: error_false_def operator_false_def invalid_unsure_def nil_error_def missing_binding_def
      no_instance_false_def failed_to_evaluate_def int_leaf_def number_of_int_def unsure_number_def
      intro!: keeps_intros)

lemmas framed_intros = framed_ctx framed_getters framed_compiled_regex framed_leaf framed_if
  framed_catch_out_of_range keeps_ret keeps_throw keeps_getE keeps_lift_res keeps_bindE keeps_seqE
  keeps_catch_std keeps_catch_all keeps_mapE

lemma framed_leaf_get_value [intro!]: "framed (leaf_get_value E l t)"
  by (cases l) (auto simp: string_value_get_value_def int_value_get_value_def float_value_get_value_def
      intro!: framed_intros split: sum.split)

lemma framed_values:
  assumes "\<And>t. framed (g t)"
  shows "framed (get_int_value g)" "framed (get_float_value g)" "framed (get_string_value g)"
  using assms by (auto simp: get_int_value_def get_float_value_def get_string_value_def intro!: framed_intros)

text \<open>An operand whose methods keep the frame.\<close>

definition framed_operand :: "('o, 'n) operand \<Rightarrow> bool" where
  "framed_operand x \<longleftrightarrow> (\<forall>t. framed (o_get x t)) \<and> framed (o_items x) \<and>
     (\<forall>c is c' n g t. o_items x c = (Inr is, c') \<longrightarrow> (n, g) \<in> set is \<longrightarrow> framed (g t))"

lemma framed_operandD:
  "framed_operand x \<Longrightarrow> framed (o_get x t)"
  "framed_operand x \<Longrightarrow> framed (o_items x)"
  by (simp_all add: framed_operand_def)

lemma framed_any_item:
  assumes "\<forall>g \<in> set gs. framed (p g)"
  shows "framed (any_item p gs)"
  using assms by (induction gs) (auto intro!: framed_intros)

lemma keeps_bindE_result:
  assumes "keeps p m" and "\<And>c x c'. m c = (Inr x, c') \<Longrightarrow> keeps p (f x)"
  shows "keeps p (bindE m f)"
  unfolding keeps_def
proof
  fix c
  obtain r c' where m: "m c = (r, c')" by (cases "m c")
  from assms(1) have pc: "p c' = p c" using m by (auto simp: keeps_def dest: spec [of _ c])
  show "p (snd (bindE m f c)) = p c"
  proof (cases r)
    case (Inr x)
    with assms(2) m have "keeps p (f x)" by blast
    with m Inr pc show ?thesis by (simp add: bindE_def keeps_def)
  qed (simp add: m pc bindE_def)
qed

lemma framed_membership:
  assumes l: "framed_operand l" and r: "framed_operand r" and i: "\<And>g. (\<And>t. framed (g t)) \<Longrightarrow> framed (item g)"
  shows "framed (membership found t rd item eq l r)"
proof -
  have inner: "framed (bindE (o_items r) (\<lambda>is. bindE (any_item (\<lambda>g. bindE (item g) (\<lambda>x. ret (eq x v))) (map snd is))
      (\<lambda>b. ret (create_int (b2i (if b then found else \<not> found)) (is_unsure w)))))" for v w
  proof (rule keeps_bindE_result)
    fix c "is" c'
    assume "o_items r c = (Inr is, c')"
    with r have "framed (g t)" if "(n, g) \<in> set is" for n g t using that unfolding framed_operand_def by blast
    then have "\<forall>g \<in> set (map snd is). framed (bindE (item g) (\<lambda>x. ret (eq x v)))"
      by (auto intro!: framed_intros i)
    then show "framed (bindE (any_item (\<lambda>g. bindE (item g) (\<lambda>x. ret (eq x v))) (map snd is))
        (\<lambda>b. ret (create_int (b2i (if b then found else \<not> found)) (is_unsure w))))"
      by (intro keeps_bindE framed_any_item keeps_ret)
  qed (use r in \<open>rule framed_operandD(2)\<close>)
  show ?thesis
    unfolding membership_def using inner framed_operandD(1) [OF l]
    by (intro keeps_bindE [where m = "o_get l t"] framed_if keeps_bindE [where m = "lift_res _"]) (auto intro: framed_leaf)
qed

lemma framed_even_simpler:
  assumes "framed_operand l" "framed_operand r"
  shows "framed (even_simpler_eval t (compare_with cmp rd) l r)"
  using assms by (auto simp: even_simpler_eval_def compare_with_def framed_operandD intro!: framed_intros)

lemma framed_bool_impl:
  assumes "framed_operand l" "framed_operand r"
  shows "framed (simple_bool_evaluate (even_simpler_bool_binary_operator_impl op) l r)"
    and "framed (simple_bool_evaluate operator_in l r)"
    and "framed (simple_bool_evaluate operator_not_in l r)"
  using assms
  by (auto simp: simple_bool_evaluate_def even_simpler_bool_binary_operator_impl_def operator_in_def
      operator_not_in_def Let_def intro!: framed_intros framed_even_simpler framed_membership framed_values)

lemma framed_and_or:
  assumes "framed_operand l" "framed_operand r"
  shows "framed (operator_and l r)" "framed (operator_or l r)"
  using assms by (auto simp: operator_and_def operator_or_def framed_operandD intro!: framed_intros)

lemma framed_matchers:
  "framed (like_match_to_container E negate s p u)"
  "framed (regex_match_to_container E negate s p u)"
  by (auto simp: like_match_to_container_def regex_match_to_container_def regex_run_def regex_failed_def
      too_expensive_def Let_def intro!: framed_intros split: exn.split bool.split)

lemma framed_pattern_evaluate:
  assumes "framed_operand l" "framed_operand r" "\<And>s p u. framed (m s p u)"
  shows "framed (pattern_evaluate m d l r)"
  using assms
  by (auto simp: pattern_evaluate_def pattern_eval_int_def pattern_eval_float_def pattern_eval_string_def
      Let_def framed_operandD intro!: framed_intros)

lemma framed_simple_int_evaluate:
  "framed (f l r) \<Longrightarrow> framed (simple_int_evaluate f d l r)"
  by (auto simp: simple_int_evaluate_def intro!: framed_intros)

lemma framed_binary_op_evaluate:
  assumes "framed_operand l" "framed_operand r"
  shows "framed (binary_op_evaluate E t op l r)"
  using assms
  by (cases op) (auto simp: binary_op_evaluate_def binary_operator_evaluate_def Let_def
      intro!: framed_intros framed_bool_impl framed_simple_int_evaluate framed_and_or framed_pattern_evaluate framed_matchers)

lemma framed_operator_not:
  assumes "\<And>t. framed (g t)"
  shows "framed (operator_not E t g)"
  using assms by (auto simp: operator_not_def intro!: framed_intros)

lemma framed_unary_op_evaluate: "framed_operand x \<Longrightarrow> framed (unary_op_evaluate E op x)"
  by (auto simp: unary_op_evaluate_def framed_operandD intro!: framed_intros framed_operator_not)

lemma framed_convert:
  assumes "\<And>x. v = Some x \<Longrightarrow> framed_operand x" "\<And>x. u = Some x \<Longrightarrow> framed_operand x"
  shows "framed (function_convert_evaluate E v u t s)"
  using assms
  by (auto simp: function_convert_evaluate_def convert_with_unit_def Let_def framed_operandD
      intro!: framed_intros framed_values split: option.split)

section \<open>Nodes\<close>

definition framed_accessor :: "('o, 'a) accessor \<Rightarrow> bool" where
  "framed_accessor fn \<longleftrightarrow> (\<forall>f x. fn = Some f \<longrightarrow> framed (f x))"

definition framed_registry :: "'o registry \<Rightarrow> bool" where
  "framed_registry R \<longleftrightarrow> (\<forall>to f x n. r_converter R to = Some f \<longrightarrow> framed (f x n)) \<and>
     (\<forall>name f t n. r_function R name = Some f \<longrightarrow> framed (f t n))"

fun framed_node :: "'o node \<Rightarrow> bool" where
  "framed_node (ListNode _ ns) = (\<forall>n \<in> set ns. framed_node n)"
| "framed_node (BinaryOp _ _ l r) = (framed_node l \<and> framed_node r)"
| "framed_node (UnaryOp _ _ s) = framed_node s"
| "framed_node (UnaryFun _ _ s b) = (framed_node s \<and> pred_option framed_node (captured_value b) \<and>
     pred_option framed_node (captured_unit b))"
| "framed_node (IntVar _ _ fn) = framed_accessor fn"
| "framed_node (FloatVar _ _ fn) = framed_accessor fn"
| "framed_node (StrVar _ _ _ fn) = framed_accessor fn"
| "framed_node (DualVar _ _ _ i f s) = (framed_accessor i \<and> framed_accessor f \<and> framed_accessor s)"
| "framed_node (OptIntVar _ _ _ _ fn) = framed_accessor fn"
| "framed_node _ = True"

lemma framed_with_object:
  assumes "framed_accessor fn" "\<And>m. framed m \<Longrightarrow> framed (yes m)" "framed no"
  shows "framed (with_object fn yes no)"
proof -
  have "framed (yes (f x))" if "fn = Some f" for f x
    using assms that by (simp add: framed_accessor_def)
  then show ?thesis
    using assms(3) by (auto simp: with_object_def keeps_def split: option.split)
qed

lemma framed_evaluate_guard: "framed m \<Longrightarrow> framed (evaluate_guard E s m)"
  by (auto simp: evaluate_guard_def intro!: framed_intros)

lemma framed_variables:
  "framed_accessor fn \<Longrightarrow> framed (int_variable_get_value E s fn t)"
  "framed_accessor fn \<Longrightarrow> framed (int_variable_evaluate E s fn)"
  "framed_accessor gn \<Longrightarrow> framed (float_variable_get_value E s gn t)"
  "framed_accessor gn \<Longrightarrow> framed (float_variable_evaluate E s gn)"
  "framed_accessor on \<Longrightarrow> framed (optional_int_variable_get_value E s nv on t)"
  "framed_accessor on \<Longrightarrow> framed (optional_int_variable_evaluate E s nv on)"
  "framed_accessor sn \<Longrightarrow> framed (str_variable_evaluate E s sn)"
  by (auto simp: int_variable_get_value_def int_variable_evaluate_def float_variable_get_value_def
      float_variable_evaluate_def optional_int_variable_get_value_def optional_int_variable_evaluate_def
      str_variable_evaluate_def
      intro!: framed_intros framed_with_object framed_evaluate_guard)

lemma framed_str_variable:
  assumes "framed_accessor sn"
  shows "framed (str_variable_get_value E nid s sn t)"
proof -
  have "framed (modify (\<lambda>c. c\<lparr>warned_not_numeric := insert nid (warned_not_numeric c)\<rparr>))"
    by (rule framed_modify) (simp add: frame_def)
  then have "framed (str_variable_number E nid s v ti)" for v ti
    by (auto simp: str_variable_number_def intro!: framed_intros)
  with assms show ?thesis
    by (auto simp: str_variable_get_value_def intro!: framed_intros framed_with_object)
qed

lemma framed_on_object:
  assumes "\<And>x. framed (f x)" "framed m"
  shows "framed (\<lambda>c. case object c of None \<Rightarrow> m c | Some x \<Rightarrow> f x c)"
  using assms by (auto simp: keeps_def split: option.split)

lemma framed_dual_variable:
  assumes "framed_accessor i" "framed_accessor f" "framed_accessor s"
  shows "framed (dual_variable_get_value E t n i f s vt)" "framed (dual_variable_evaluate E t n i f s)"
proof -
  have a: "framed (the i x)" if "i \<noteq> None" for x using assms(1) that by (auto simp: framed_accessor_def)
  have b: "framed (the f x)" if "f \<noteq> None" for x using assms(2) that by (auto simp: framed_accessor_def)
  have d: "framed (the s x)" if "s \<noteq> None" for x using assms(3) that by (auto simp: framed_accessor_def)
  have "framed (dual_variable_of t n i f s vt x)" for x
    unfolding dual_variable_of_def by (intro framed_intros; (rule a b d; blast)?)
  then show "framed (dual_variable_get_value E t n i f s vt)"
    by (auto simp: dual_variable_get_value_def intro!: framed_intros framed_on_object)
  show "framed (dual_variable_evaluate E t n i f s)"
    using assms by (auto simp: dual_variable_evaluate_def intro!: framed_intros framed_with_object framed_evaluate_guard)
qed

lemma framed_filter_converter:
  assumes "framed_registry R"
  shows "framed (filter_converter_evaluate E R to n)"
proof -
  have "framed (case r_converter R to of None \<Rightarrow> error_false m | Some f \<Rightarrow> f x n)" for m x
    using assms by (auto simp: framed_registry_def intro!: framed_intros split: option.split)
  moreover have "filter_converter_evaluate E R to n = catch_std
      (\<lambda>c. case object c of None \<Rightarrow> error_false ''No object attached'' c
        | Some x \<Rightarrow> (case r_converter R to of None \<Rightarrow> error_false ''No function attached'' | Some f \<Rightarrow> f x n) c)
      (\<lambda>e. error_false (''Failed to evaluate function: '' @ utf8_from_native E (exn_what e)))"
    by (auto simp: filter_converter_evaluate_def intro!: arg_cong2 [where f = catch_std] split: option.split)
  ultimately show ?thesis by (auto intro!: framed_intros framed_on_object)
qed

lemma framed_function_evaluate:
  assumes "framed_registry R" "\<And>t. framed (g t)"
    and "\<And>x. v = Some x \<Longrightarrow> framed_operand x" "\<And>x. u = Some x \<Longrightarrow> framed_operand x"
  shows "framed (function_evaluate E R f v u t n g)"
  using assms
  by (cases f) (auto intro!: framed_convert framed_operator_not framed_filter_converter keeps_bindE framed_leaf)

lemma framed_result_item:
  assumes "\<And>x. vo = Some x \<Longrightarrow> framed_operand x"
  shows "framed (snd (result_item E vn vo r) t)"
  using assms by (cases "(E, vn, vo, r)" rule: result_item.cases) (auto simp: framed_operandD)

lemma mapE_result:
  assumes "mapE f xs c = (Inr ys, c')" and "y \<in> set ys"
  shows "\<exists>x \<in> set xs. \<exists>c1 c2. f x c1 = (Inr y, c2)"
  using assms
proof (induction xs arbitrary: c ys)
  case (Cons x xs)
  obtain r c1 where f: "f x c = (r, c1)" by (cases "f x c")
  with Cons.prems obtain z where z: "r = Inr z" by (cases r) (auto simp: bindE_def)
  obtain q c2 where m: "mapE f xs c1 = (q, c2)" by (cases "mapE f xs c1")
  with Cons.prems f z obtain zs where zs: "q = Inr zs" "ys = z # zs" by (cases q) (auto simp: bindE_def)
  show ?case
  proof (cases "y = z")
    case True
    with f z show ?thesis by auto
  next
    case False
    with Cons.prems zs have "y \<in> set zs" by simp
    moreover from Cons.prems f z m zs have "mapE f xs c1 = (Inr zs, c')" by (simp add: bindE_def)
    ultimately show ?thesis using Cons.IH by fastforce
  qed
qed simp

lemma bindE_result:
  assumes "bindE m f c = (Inr y, c')"
  obtains x c1 where "m c = (Inr x, c1)" "f x c1 = (Inr y, c')"
  using assms by (cases "m c"; cases "fst (m c)") (auto simp: bindE_def)

lemma framed_operand_leafy:
  assumes "\<And>t. framed (g t)" "\<And>t. framed (h t)"
  shows "framed_operand \<lparr>o_type = ty, o_get = g, o_items = ret [(n, h)], o_show = s\<rparr>"
    and "framed_operand \<lparr>o_type = ty, o_get = g, o_items = ret [], o_show = s\<rparr>"
  using assms by (auto simp: framed_operand_def)

lemma framed_unary_fun:
  assumes R: "framed_registry R" and S: "framed_operand (operand_of E R s)"
    and v: "\<And>x. captured_value b = Some x \<Longrightarrow> framed_operand (operand_of E R x)"
    and u: "\<And>x. captured_unit b = Some x \<Longrightarrow> framed_operand (operand_of E R x)"
  shows "framed_operand (operand_of E R (UnaryFun t name s b))"
proof -
  define V where "V = map_option (operand_of E R) (captured_value b)"
  define U where "U = map_option (operand_of E R) (captured_unit b)"
  have V: "framed_operand x" if "V = Some x" for x using v that by (auto simp: V_def)
  have U: "framed_operand x" if "U = Some x" for x using u that by (auto simp: U_def)
  have fe: "framed (function_evaluate E R f V U t n g)" if "\<And>t. framed (g t)" for f n g
    using R that V U by (rule framed_function_evaluate)
  have ri: "framed (snd (result_item E vn V r) t)" for vn r t by (rule framed_result_item [OF V])
  define run where "run = (\<lambda>(n, g). case b of
      None \<Rightarrow> ret (leaf_node create_false, leaf_get_value E create_false)
    | Some f \<Rightarrow> bindE (function_evaluate E R f V U t n g) (\<lambda>r. ret (result_item E (captured_value b) V r)))"
  have run_framed: "framed (run (n, g))" if "\<And>t. framed (g t)" for n g
    using that fe by (auto simp: run_def intro!: framed_intros split: option.split)
  have run_result: "framed (snd y t)" if "run x c1 = (Inr y, c2)" for x c1 y c2 t
    using that ri by (auto simp: run_def split: prod.splits option.splits elim!: bindE_result)
  have op: "operand_of E R (UnaryFun t name s b) = \<lparr>o_type = t,
      o_get = (\<lambda>vt. case b of None \<Rightarrow> bindE (missing_binding name) (\<lambda>l. leaf_get_value E l vt)
        | Some f \<Rightarrow> bindE (function_evaluate E R f V U t s (get_value E R s))
            (\<lambda>r. snd (result_item E (captured_value b) V r) vt)),
      o_items = bindE (o_items (operand_of E R s)) (mapE run),
      o_show = to_string (UnaryFun t name s b)\<rparr>"
    unfolding V_def U_def run_def operand_of.simps Let_def by (rule refl)
  have items: "framed (bindE (o_items (operand_of E R s)) (mapE run))"
  proof (rule keeps_bindE_result)
    show "framed (o_items (operand_of E R s))" using S by (rule framed_operandD(2))
    show "framed (mapE run is)" if "o_items (operand_of E R s) c = (Inr is, c')" for c "is" c'
      using S that run_framed unfolding framed_operand_def by (intro keeps_mapE) (metis prod.exhaust)
  qed
  have "framed (snd y t)" if "bindE (o_items (operand_of E R s)) (mapE run) c = (Inr ys, c')" "y \<in> set ys" for c ys c' y t
    using that run_result by (elim bindE_result) (metis mapE_result)
  moreover have "framed (case b of None \<Rightarrow> bindE (missing_binding name) (\<lambda>l. leaf_get_value E l vt)
        | Some f \<Rightarrow> bindE (function_evaluate E R f V U t s (get_value E R s))
            (\<lambda>r. snd (result_item E (captured_value b) V r) vt))" for vt
    using fe framed_operandD(1) [OF S] ri by (auto intro!: framed_intros split: option.split)
  ultimately show ?thesis
    using items unfolding framed_operand_def op by (simp add: split_def) (metis snd_conv)
qed

lemma framed_literals:
  "framed (string_value_get_value E v u t)" "framed (int_value_get_value i u t)" "framed (float_value_get_value d u t)"
  using framed_leaf_get_value [of E "LString v u" t] framed_leaf_get_value [of E "LInt i u" t]
    framed_leaf_get_value [of E "LFloat d u" t] by simp_all

lemma framed_list_node:
  assumes "\<And>n. n \<in> set ns \<Longrightarrow> framed_operand (operand_of E R n)"
  shows "framed_operand \<lparr>o_type = t, o_get = list_node_get_value (map (get_value E R) ns),
      o_items = ret (map (\<lambda>n. (n, get_value E R n)) ns), o_show = s\<rparr>"
proof -
  have g: "framed (get_value E R n t)" if "n \<in> set ns" for n t
    using assms [OF that] by (rule framed_operandD(1))
  have "framed (list_node_get_value (map (get_value E R) ns) vt)" for vt
    unfolding list_node_get_value_def
    by (intro framed_intros) (auto intro!: framed_values(3) g)
  with g show ?thesis by (auto simp: framed_operand_def)
qed

lemma framed_custom_function:
  "framed_registry R \<Longrightarrow> framed (custom_function_evaluate E R t name s)"
  by (auto simp: custom_function_evaluate_def framed_registry_def intro!: framed_intros framed_evaluate_guard
      split: option.split)

lemma framed_summary:
  "framed (summary_int_get_value E name fi t)" "framed (summary_int_evaluate E name fi)"
  "framed (summary_string_get_value name fs t)" "framed (summary_string_evaluate E name fs)"
  by (auto simp: summary_int_get_value_def summary_int_evaluate_def summary_string_get_value_def
      summary_string_evaluate_def intro!: framed_intros framed_evaluate_guard split: option.split)

lemma framed_operand_of:
  assumes "framed_registry R" and "framed_node n"
  shows "framed_operand (operand_of E R n)"
  using assms
proof (induction E R n rule: operand_of.induct)
  case (7 E R t name s b)
  then show ?case by (intro framed_unary_fun) (auto simp: pred_option_def)
qed (auto simp del: leaf_node.simps intro!: framed_operand_leafy framed_literals framed_list_node framed_variables
    framed_str_variable framed_dual_variable framed_custom_function framed_summary framed_binary_op_evaluate
    framed_unary_op_evaluate keeps_bindE)

lemma framed_get_value: "framed_registry R \<Longrightarrow> framed_node n \<Longrightarrow> framed (get_value E R n t)"
  by (rule framed_operandD(1)) (rule framed_operand_of)

lemma framed_captured:
  assumes "framed_registry R" "framed_node (UnaryFun t name s b)"
  shows "map_option (operand_of E R) (captured_value b) = Some x \<Longrightarrow> framed_operand x"
    and "map_option (operand_of E R) (captured_unit b) = Some x \<Longrightarrow> framed_operand x"
  using assms by (auto intro: framed_operand_of)

lemma framed_evaluate:
  assumes "framed_registry R" and "framed_node n"
  shows "framed (evaluate E R n)"
  using assms
proof (induction E R n rule: evaluate.induct)
  case (7 E R t name s b)
  then have "framed (function_evaluate E R f (map_option (operand_of E R) (captured_value b))
      (map_option (operand_of E R) (captured_unit b)) t s (get_value E R s))" for f
    by (intro framed_function_evaluate framed_captured [OF 7]) (auto intro: framed_get_value)
  then show ?case by (auto simp: leaf_item_def Let_def intro!: framed_intros split: option.split)
qed (auto simp: leaf_item_def framed_operand_of intro!: framed_variables framed_dual_variable framed_custom_function
    framed_summary framed_binary_op_evaluate framed_unary_op_evaluate keeps_bindE keeps_seqE keeps_mapE keeps_Pair)

text \<open>The result of evaluating a framed tree reads without touching the frame.\<close>

lemma framed_evaluate_result:
  assumes "framed_registry R" and "framed_node n" and "evaluate E R n c = (Inr r, c')"
  shows "framed (snd r t)"
  using assms
proof (cases "(E, R, n)" rule: evaluate.cases)
  case (7 E' R' ty name s b)
  with assms have "framed (snd (result_item E (captured_value b) (map_option (operand_of E R) (captured_value b)) q) t)" for q
    using framed_captured(1) [of R ty name s b E] by (intro framed_result_item) auto
  with assms 7 show ?thesis
    by (auto simp: Let_def leaf_item_def split: option.splits elim!: bindE_result)
qed (auto simp: leaf_item_def seqE_def elim!: bindE_result)

lemma framed_str_variable_to_string:
  assumes "framed_accessor fn"
  shows "framed (str_variable_to_string name fn)"
proof -
  have "framed (f x)" if "fn = Some f" for f x using assms that by (simp add: framed_accessor_def)
  then show ?thesis by (auto simp: str_variable_to_string_def keeps_def split: option.split)
qed

lemma framed_to_string_ctx:
  assumes "framed_registry R" and "framed_node n"
  shows "framed (to_string_ctx E R n)"
  using assms
proof (induction E R n rule: to_string_ctx.induct)
  case (7 E R t name s b)
  then have "framed (function_evaluate E R f (map_option (operand_of E R) (captured_value b))
      (map_option (operand_of E R) (captured_unit b)) type_string s (get_value E R s))" for f
    by (intro framed_function_evaluate framed_captured [OF 7(3,4)]) (auto intro: framed_get_value)
  with 7 show ?case by (auto simp: Let_def intro!: framed_intros split: option.split)
qed (auto simp: with_object_or_def dual_variable_to_string_def framed_registry_def
    intro!: framed_intros framed_with_object framed_str_variable_to_string framed_values split: option.split)

lemma framed_parser_evaluate:
  assumes "framed_registry R" and "framed_node n"
  shows "framed (parser_evaluate E R n)"
  unfolding parser_evaluate_def
  by (intro keeps_catch_all keeps_bindE_result framed_evaluate assms)
    (auto intro!: framed_intros dest: framed_evaluate_result [OF assms])

lemma framed_engine_filter_match:
  assumes "framed_registry R" and "framed_node n"
  shows "framed (engine_filter_match E R n b)"
  using framed_parser_evaluate [OF assms] framed_to_string_ctx [OF assms]
  by (auto simp: engine_filter_match_def when_logged_def intro!: framed_intros)

lemma framed_engine_match:
  assumes "framed_registry R" and "\<forall>n \<in> set fs. framed_node n"
  shows "framed (engine_match E R fs b)"
  using assms by (induction fs) (auto intro!: framed_intros framed_engine_filter_match)

lemma framed_engine_match_force:
  assumes "framed_registry R" and "\<forall>n \<in> set fs. framed_node n"
  shows "framed (engine_match_force E R fs)"
proof -
  have "framed (engine_filter_match_force E R n)" if "n \<in> set fs" for n
    using framed_parser_evaluate [of R n E] framed_to_string_ctx [of R n E] assms that
    by (auto simp: engine_filter_match_force_def when_logged_def intro!: framed_intros)
  then have "framed (engine_match_force_from E R fs u)" for u
    by (induction fs arbitrary: u) (auto intro!: framed_intros)
  then show ?thesis by (simp add: engine_match_force_def)
qed

end
