(* ===== verification/Modern_Filter.thy ===== *)
theory Modern_Filter
  imports Where_Frame Where_Perf Nagios_Status
begin

text \<open>
  A check run over its records (\<^verbatim>\<open>include/parsers/filter/modern_filter.hpp\<close>): the renderers,
  \<^verbatim>\<open>start_match\<close>, \<^verbatim>\<open>match\<close> for each record, \<^verbatim>\<open>evaluate_deferred_records\<close>, \<^verbatim>\<open>match_post\<close>
  and the message. The summary the engines read through the context is the summary the run
  updates, so the context holds the only copy.
\<close>

section \<open>Renderers\<close>

datatype 'o text_entry = TextPart string | NodePart "'o node"

record 'o renderer =
  rd_entries :: "'o text_entry list"
  rd_human_numbers :: bool

definition renderer_is_empty :: "'o renderer \<Rightarrow> bool" where
  "renderer_is_empty r \<longleftrightarrow> rd_entries r = []"

definition render_node :: "env \<Rightarrow> 'o registry \<Rightarrow> number_format option \<Rightarrow> 'o node \<Rightarrow> ('o, string) cev" where
  "render_node E R human n =
     (if type_is_int (node_get_type n) then bindE (get_int_value (get_value E R n)) (\<lambda>v. ret (xtos_non_sci_int v))
      else if type_is_float (node_get_type n)
      then bindE (get_float_value (get_value E R n)) (\<lambda>v.
             ret (case human of Some fmt \<Rightarrow> render_number v fmt | None \<Rightarrow> xtos_double v))
      else get_string_value (get_value E R n))"

definition render :: "env \<Rightarrow> 'o registry \<Rightarrow> number_format \<Rightarrow> 'o renderer \<Rightarrow> ('o, string) cev" where
  "render E R fmt r =
     bindE (mapE (\<lambda>e. case e of
              TextPart s \<Rightarrow> ret s
            | NodePart n \<Rightarrow> render_node E R (if rd_human_numbers r then Some fmt else None) n) (rd_entries r))
       (\<lambda>parts. ret (concat parts))"

text \<open>The hash renderer fills a map key by key, so a repeated key keeps its last value.\<close>

definition render_hash :: "env \<Rightarrow> 'o registry \<Rightarrow> (string \<times> 'o node) list \<Rightarrow> ('o, string \<rightharpoonup> string) cev" where
  "render_hash E R entries =
     bindE (mapE (\<lambda>(k, n). bindE (render_node E R None n) (\<lambda>v. ret (k, v))) entries)
       (\<lambda>kvs. ret (map_of (rev kvs)))"

section \<open>State\<close>

record 'o deferred_record =
  dr_record :: 'o
  dr_current :: string
  dr_second_unique_match :: bool

text \<open>What \<^verbatim>\<open>build_syntax\<close>, \<^verbatim>\<open>build_engines\<close> and \<^verbatim>\<open>build_index\<close> set up.\<close>

record 'o filter_setup =
  renderer_top :: "'o renderer"
  renderer_detail :: "'o renderer"
  renderer_hash :: "(string \<times> 'o node) list"
  renderer_perf :: "'o renderer"
  renderer_unique :: "'o renderer"
  renderer_ok :: "'o renderer"
  renderer_empty :: "'o renderer"
  engine_filter :: "'o engine option"
  engine_warn :: "'o engine option"
  engine_crit :: "'o engine option"
  engine_ok :: "'o engine option"
  fetch_hash_on :: bool
  has_unique_index :: bool
  perf_opts :: perf_options
  context_number_format :: number_format
  error_handler_set :: bool

record 'o modern_filters =
  mf_context :: "'o ctx"
  unique_index :: "string set"
  mf_has_matched :: bool
  records :: "(string \<rightharpoonup> string) list"
  deferred_records :: "'o deferred_record list"
  performance_instance_data :: "performance_data list"
  leaf_performance_data :: "(string \<times> 'o perf_entry) list"

type_synonym ('o, 'a) mev = "('o modern_filters, 'a) ev"

definition in_ctx :: "('o, 'a) cev \<Rightarrow> ('o, 'a) mev" where
  "in_ctx m = (\<lambda>s. case m (mf_context s) of (r, c) \<Rightarrow> (r, s\<lparr>mf_context := c\<rparr>))"

definition the_summary :: "'o modern_filters \<Rightarrow> generic_summary" where
  "the_summary s = (case summary (mf_context s) of Some x \<Rightarrow> x | None \<Rightarrow> new_summary)"

definition update_summary :: "(generic_summary \<Rightarrow> generic_summary) \<Rightarrow> ('o, unit) mev" where
  "update_summary f = in_ctx (modify (\<lambda>c. c\<lparr>summary := map_option f (summary c)\<rparr>))"

definition set_returnCode :: "(nagiosReturn \<Rightarrow> nagiosReturn) \<Rightarrow> ('o, unit) mev" where
  "set_returnCode f = update_summary (\<lambda>s. s\<lparr>returnCode := f (returnCode s)\<rparr>)"

definition new_modern_filters :: "'o modern_filters" where
  "new_modern_filters = \<lparr>mf_context = initial_ctx new_summary, unique_index = {}, mf_has_matched = False, records = [],
     deferred_records = [], performance_instance_data = [], leaf_performance_data = []\<rparr>"

record match_result =
  matched_filter :: bool
  matched_bound :: bool
  is_done :: bool

definition append_match_result :: "match_result \<Rightarrow> match_result \<Rightarrow> match_result" where
  "append_match_result a b = \<lparr>matched_filter = matched_filter a \<or> matched_filter b,
     matched_bound = matched_bound a \<or> matched_bound b, is_done = is_done a \<or> is_done b\<rparr>"

section \<open>Operations\<close>

definition drain_render_errors :: "'o filter_setup \<Rightarrow> ('o, unit) cev" where
  "drain_render_errors F = bindE (getE has_error) (\<lambda>b. if \<not> b then ret ()
     else seqE (if error_handler_set F then bindE (getE get_error) log_error else ret ()) ctx_clear)"

definition debug_mark :: "object_match \<Rightarrow> ('o, unit) cev" where
  "debug_mark reason = bindE (getE debug_on) (\<lambda>b. if b then ctx_debug reason else ret ())"

definition start_match :: "('o, unit) mev" where
  "start_match =
     seqE (in_ctx reset_regex_budget)
     (seqE (set_returnCode (\<lambda>_. returnOK))
     (seqE (modify (\<lambda>s. s\<lparr>mf_has_matched := False\<rparr>))
     (seqE (update_summary reset_summary)
       (modify (\<lambda>s. s\<lparr>records := [], deferred_records := []\<rparr>)))))"

text \<open>
  The performance data of one row: every registered variable in turn. A repeated label is
  only reported in the debug log.
\<close>

definition append_row_performance_data :: "performance_data list \<Rightarrow> ('o, unit) mev" where
  "append_row_performance_data perf = modify (\<lambda>s. s\<lparr>performance_instance_data := performance_instance_data s @ perf\<rparr>)"

primrec row_performance_data :: "env \<Rightarrow> 'o registry \<Rightarrow> perf_options \<Rightarrow> string \<Rightarrow> (string \<times> 'o perf_entry) list
    \<Rightarrow> ('o, (string \<times> 'o perf_entry) list) mev" where
  "row_performance_data E R opts alias [] = ret []"
| "row_performance_data E R opts alias (x # xs) =
     bindE (in_ctx (get_performance_data E R opts alias (snd x))) (\<lambda>(perf, e').
       seqE (if perf \<noteq> [] then append_row_performance_data perf else ret ())
         (bindE (row_performance_data E R opts alias xs) (\<lambda>rest. ret ((fst x, e') # rest))))"

definition emit_performance_data :: "env \<Rightarrow> 'o registry \<Rightarrow> 'o filter_setup \<Rightarrow> string \<Rightarrow> ('o, unit) mev" where
  "emit_performance_data E R F alias =
     (if renderer_is_empty (renderer_perf F) then ret ()
      else bindE (getE leaf_performance_data) (\<lambda>es.
        bindE (row_performance_data E R (perf_opts F) alias es) (\<lambda>es'.
          modify (\<lambda>s. s\<lparr>leaf_performance_data := es'\<rparr>))))"

definition optional_match :: "env \<Rightarrow> 'o registry \<Rightarrow> 'o engine option \<Rightarrow> bool \<Rightarrow> bool \<Rightarrow> ('o, bool) mev" where
  "optional_match E R e expect_object unset = (case e of None \<Rightarrow> ret unset | Some fs \<Rightarrow> in_ctx (engine_match E R fs expect_object))"

definition index_unique :: "env \<Rightarrow> 'o registry \<Rightarrow> 'o filter_setup \<Rightarrow> ('o, bool) mev" where
  "index_unique E R F =
     (if \<not> has_unique_index F then ret False
      else bindE (in_ctx (render E R (context_number_format F) (renderer_unique F))) (\<lambda>key.
        bindE (getE unique_index) (\<lambda>seen.
          if key \<in> seen then ret True else seqE (modify (\<lambda>s. s\<lparr>unique_index := insert key seen\<rparr>)) (ret False))))"

definition match_matched :: "env \<Rightarrow> 'o registry \<Rightarrow> 'o filter_setup \<Rightarrow> 'o \<Rightarrow> ('o, unit) mev" where
  "match_matched E R F rec =
     seqE (in_ctx (debug_mark om_match))
     (seqE (if fetch_hash_on F then bindE (in_ctx (render_hash E R (renderer_hash F))) (\<lambda>h.
              modify (\<lambda>s. s\<lparr>records := records s @ [h]\<rparr>)) else ret ())
     (bindE (in_ctx (render E R (context_number_format F) (renderer_detail F))) (\<lambda>current.
      bindE (in_ctx (render E R (context_number_format F) (renderer_perf F))) (\<lambda>perf_alias.
      seqE (in_ctx (drain_render_errors F))
      (bindE (index_unique E R F) (\<lambda>second.
       seqE (emit_performance_data E R F perf_alias)
       (seqE (update_summary (if second then matched_unique else matched current))
         (modify (\<lambda>s. s\<lparr>deferred_records := deferred_records s @
            [\<lparr>dr_record = rec, dr_current = current, dr_second_unique_match = second\<rparr>]\<rparr>)))))))))"

definition match :: "env \<Rightarrow> 'o registry \<Rightarrow> 'o filter_setup \<Rightarrow> 'o \<Rightarrow> ('o, match_result) mev" where
  "match E R F rec =
     seqE (in_ctx (set_object rec))
     (seqE (in_ctx (debug_mark om_none))
     (seqE (update_summary summary_count)
     (bindE (optional_match E R (engine_filter F) True True) (\<lambda>hit.
        seqE (if hit then match_matched E R F rec else ret ())
          (ret \<lparr>matched_filter = hit, matched_bound = False, is_done = False\<rparr>)))))"

text \<open>The verdict of one deferred row; the result says whether a bound was matched.\<close>

definition evaluate_deferred :: "env \<Rightarrow> 'o registry \<Rightarrow> 'o filter_setup \<Rightarrow> 'o deferred_record \<Rightarrow> ('o, bool) mev" where
  "evaluate_deferred E R F d =
     seqE (in_ctx (set_object (dr_record d)))
     (seqE (in_ctx (debug_mark om_match))
     (bindE (optional_match E R (engine_crit F) True False) (\<lambda>crit.
      if crit then
        seqE (in_ctx (debug_mark om_critical))
        (seqE (update_summary (if dr_second_unique_match d then matched_crit_unique else matched_crit (dr_current d)))
        (seqE (set_returnCode escalteReturnCodeToCRIT) (ret True)))
      else bindE (optional_match E R (engine_warn F) True False) (\<lambda>warn.
      if warn then
        seqE (in_ctx (debug_mark om_warning))
        (seqE (update_summary (if dr_second_unique_match d then matched_warn_unique else matched_warn (dr_current d)))
        (seqE (set_returnCode escalteReturnCodeToWARN) (ret True)))
      else bindE (optional_match E R (engine_ok F) True False) (\<lambda>ok.
        seqE (if ok then in_ctx (debug_mark om_ok) else ret ())
        (seqE (update_summary (if dr_second_unique_match d then matched_ok_unique else matched_ok (dr_current d)))
          (ret ok)))))))"

definition evaluate_deferred_records :: "env \<Rightarrow> 'o registry \<Rightarrow> 'o filter_setup \<Rightarrow> ('o, unit) mev" where
  "evaluate_deferred_records E R F =
     bindE (getE deferred_records) (\<lambda>ds.
       if ds = [] then ret ()
       else bindE (mapE (evaluate_deferred E R F) ds) (\<lambda>bs.
         modify (\<lambda>s. s\<lparr>mf_has_matched := mf_has_matched s \<or> True \<in> set bs, deferred_records := []\<rparr>)))"

text \<open>
  \<^verbatim>\<open>force_sure_true\<close>: with no matched rows an engine is also evaluated without a record.
  The second component is \<^verbatim>\<open>force_unsure_seen\<close>.
\<close>

definition force_sure_true :: "env \<Rightarrow> 'o registry \<Rightarrow> 'o engine \<Rightarrow> bool \<Rightarrow> bool \<Rightarrow> ('o, bool \<times> bool) mev" where
  "force_sure_true E R fs no_rows unsure =
     (if \<not> no_rows then ret (False, unsure)
      else bindE (in_ctx (engine_match_force E R fs)) (\<lambda>r.
        ret (fm_matched r \<and> \<not> fm_unsure r, unsure \<or> fm_unsure r)))"

definition post_verdict :: "env \<Rightarrow> 'o registry \<Rightarrow> 'o engine option \<Rightarrow> bool \<Rightarrow> bool \<Rightarrow> ('o, bool \<times> bool) mev" where
  "post_verdict E R e no_rows unsure =
     (case e of None \<Rightarrow> ret (False, unsure)
      | Some fs \<Rightarrow> bindE (in_ctx (engine_match E R fs False)) (\<lambda>hit.
          if hit then ret (True, unsure) else force_sure_true E R fs no_rows unsure))"

definition match_post :: "env \<Rightarrow> 'o registry \<Rightarrow> 'o filter_setup \<Rightarrow> ('o, bool) mev" where
  "match_post E R F =
     seqE (evaluate_deferred_records E R F)
     (seqE (in_ctx remove_object)
     (bindE (getE (\<lambda>s. has_matched (the_summary s))) (\<lambda>matched.
      seqE (emit_performance_data E R F [])
      (bindE (getE (\<lambda>s. \<not> has_matched (the_summary s))) (\<lambda>no_rows.
       bindE (post_verdict E R (engine_crit F) no_rows False) (\<lambda>(crit, unsure).
       if crit then
         seqE (set_returnCode escalteReturnCodeToCRIT) (seqE (update_summary move_hits_crit) (ret True))
       else bindE (post_verdict E R (engine_warn F) no_rows unsure) (\<lambda>(warn, unsure').
       if warn then
         seqE (set_returnCode escalteReturnCodeToWARN) (seqE (update_summary move_hits_warn) (ret True))
       else bindE (optional_match E R (engine_ok F) False False) (\<lambda>ok.
         if ok then ret True
         else seqE (if unsure' then set_returnCode escalateReturnCodeToUNKNOWN else ret ()) (ret matched)))))))))"

definition end_match :: "env \<Rightarrow> 'o registry \<Rightarrow> 'o filter_setup \<Rightarrow> ('o, unit) mev" where
  "end_match E R F = seqE (in_ctx remove_object) (emit_performance_data E R F [])"

definition get_message :: "env \<Rightarrow> 'o registry \<Rightarrow> 'o filter_setup \<Rightarrow> ('o, string) mev" where
  "get_message E R F =
     bindE (getE the_summary) (\<lambda>m.
       let r = (if \<not> has_matched m \<and> \<not> renderer_is_empty (renderer_empty F) then renderer_empty F
                else if returnCode m = returnOK \<and> \<not> renderer_is_empty (renderer_ok F) then renderer_ok F
                else renderer_top F)
       in bindE (in_ctx (render E R (context_number_format F) r)) (\<lambda>message.
            seqE (in_ctx (drain_render_errors F)) (ret message)))"

text \<open>A whole check: the records in turn, then the verdict.\<close>

definition run_check :: "env \<Rightarrow> 'o registry \<Rightarrow> 'o filter_setup \<Rightarrow> 'o list \<Rightarrow> ('o, bool) mev" where
  "run_check E R F xs = seqE start_match (bindE (mapE (match E R F) xs) (\<lambda>_. match_post E R F))"

section \<open>Registration of performance data\<close>

definition assoc_update :: "string \<Rightarrow> 'a \<Rightarrow> (string \<times> 'a) list \<Rightarrow> (string \<times> 'a) list" where
  "assoc_update k v xs =
     (if k \<in> fst ` set xs then map (\<lambda>(k', v'). (k', if k' = k then v else v')) xs
      else insort_key fst (k, v) xs)"

text \<open>
  \<open>create\<close> is the factory: the node and generators of a variable, if it is known. An error
  is logged on the handler of the context.
\<close>

definition register_leaf_performance_data :: "(string \<Rightarrow> 'o perf_entry option) \<Rightarrow> string \<Rightarrow> 'o node \<Rightarrow> bool
    \<Rightarrow> ('o, unit) mev" where
  "register_leaf_performance_data create var bound is_crit =
     (case create var of
        None \<Rightarrow> in_ctx (log_error ''Failed to register for performance data'')
      | Some fresh \<Rightarrow> modify (\<lambda>s. s\<lparr>leaf_performance_data :=
          (let e = (case map_of (leaf_performance_data s) var of Some old \<Rightarrow> old
                    | None \<Rightarrow> fresh\<lparr>pe_label := var, pe_warn := None, pe_crit := None\<rparr>)
           in assoc_update var (if is_crit then e\<lparr>pe_crit := Some bound\<rparr> else e\<lparr>pe_warn := Some bound\<rparr>)
                (leaf_performance_data s))\<rparr>))"

definition add_manual_perf :: "(string \<Rightarrow> 'o perf_entry option) \<Rightarrow> string \<Rightarrow> ('o, unit) mev" where
  "add_manual_perf create key =
     (case create key of
        None \<Rightarrow> in_ctx (log_error ''Failed to register for performance data'')
      | Some fresh \<Rightarrow> modify (\<lambda>s. if map_of (leaf_performance_data s) key \<noteq> None then s
          else s\<lparr>leaf_performance_data := assoc_update key (fresh\<lparr>pe_label := key, pe_warn := None, pe_crit := None\<rparr>)
                 (leaf_performance_data s)\<rparr>))"

section \<open>What a run leaves alone\<close>

text \<open>The part of the state the verdict depends on.\<close>

definition view :: "'o modern_filters \<Rightarrow> generic_summary option \<times> 'o deferred_record list \<times> (string \<times> 'o perf_entry) list" where
  "view s = (summary (mf_context s), deferred_records s, leaf_performance_data s)"

lemma framed_keeps_summary: "framed m \<Longrightarrow> keeps summary m"
  by (simp add: keeps_def frame_def)

lemma keeps_view_in_ctx: "keeps summary m \<Longrightarrow> keeps view (in_ctx m)"
  by (simp add: keeps_def in_ctx_def view_def split_def)

lemma view_framed: "framed m \<Longrightarrow> keeps view (in_ctx m)"
  by (rule keeps_view_in_ctx) (rule framed_keeps_summary)

lemma summary_keepers:
  "keeps summary (ctx_debug r)" "keeps summary (set_object x)" "keeps summary remove_object"
  "keeps summary reset_regex_budget"
  by (auto simp: keeps_def ctx_debug_def ctx_ops split: option.splits)

lemma keeps_debug_mark: "keeps summary (debug_mark r)"
  unfolding debug_mark_def by (intro keeps_bindE keeps_getE) (auto intro: summary_keepers)

definition framed_generator :: "'o generator \<Rightarrow> bool" where
  "framed_generator g = (case g of
     SimpleGen _ \<Rightarrow> True
   | PercentGen p \<Rightarrow> (\<forall>x. framed (pg_maxfun p x))
   | ByteGen b \<Rightarrow> (\<forall>f x. bg_minfun b = Some f \<longrightarrow> framed (f x)) \<and> (\<forall>f x. bg_maxfun b = Some f \<longrightarrow> framed (f x)))"

definition framed_entry :: "'o perf_entry \<Rightarrow> bool" where
  "framed_entry e \<longleftrightarrow> framed_node (pe_current e) \<and> pred_option framed_node (pe_warn e) \<and> pred_option framed_node (pe_crit e) \<and>
     (\<forall>g \<in> set (pe_generators e). framed_generator g)"

definition framed_renderer :: "'o renderer \<Rightarrow> bool" where
  "framed_renderer r \<longleftrightarrow> (\<forall>n. NodePart n \<in> set (rd_entries r) \<longrightarrow> framed_node n)"

definition framed_engine :: "'o engine option \<Rightarrow> bool" where
  "framed_engine e \<longleftrightarrow> (\<forall>fs. e = Some fs \<longrightarrow> (\<forall>n \<in> set fs. framed_node n))"

text \<open>
  The functions a check registers read their record and report errors; they do not write the
  summary or the current record.
\<close>

definition framed_setup :: "'o registry \<Rightarrow> 'o filter_setup \<Rightarrow> bool" where
  "framed_setup R F \<longleftrightarrow> framed_registry R \<and>
     framed_engine (engine_filter F) \<and> framed_engine (engine_warn F) \<and> framed_engine (engine_crit F) \<and> framed_engine (engine_ok F) \<and>
     framed_renderer (renderer_detail F) \<and> framed_renderer (renderer_perf F) \<and> framed_renderer (renderer_unique F) \<and>
     (\<forall>(k, n) \<in> set (renderer_hash F). framed_node n)"

lemma framed_numbers:
  assumes "framed_registry R" "framed_node n"
  shows "framed (get_int_value (get_value E R n))" "framed (get_float_value (get_value E R n))"
    "framed (get_string_value (get_value E R n))"
  by (intro framed_values framed_get_value assms)+

lemma framed_render_node: "framed_registry R \<Longrightarrow> framed_node n \<Longrightarrow> framed (render_node E R human n)"
  unfolding render_node_def by (intro framed_intros framed_numbers)

lemma framed_render:
  assumes "framed_registry R" "framed_renderer r"
  shows "framed (render E R fmt r)"
  unfolding render_def
proof (intro framed_intros keeps_mapE)
  fix e assume "e \<in> set (rd_entries r)"
  then show "framed (case e of TextPart s \<Rightarrow> ret s | NodePart n \<Rightarrow> render_node E R (if rd_human_numbers r then Some fmt else None) n)"
    using assms by (auto simp: framed_renderer_def intro: framed_render_node split: text_entry.split)
qed

lemma framed_render_hash:
  assumes "framed_registry R" "\<forall>(k, n) \<in> set es. framed_node n"
  shows "framed (render_hash E R es)"
  unfolding render_hash_def
  using assms by (intro framed_intros keeps_mapE) (auto intro!: framed_intros framed_render_node)

lemma framed_drain: "framed (drain_render_errors F)"
  unfolding drain_render_errors_def by (intro framed_intros)

lemma framed_engine_match':
  "framed_registry R \<Longrightarrow> framed_engine e \<Longrightarrow> keeps view (optional_match E R e b u)"
  unfolding optional_match_def
  by (cases e) (auto simp: framed_engine_def intro!: view_framed framed_engine_match)

section \<open>Performance data leaves the verdict alone\<close>

lemma framed_call_or_zero: "(\<And>g. f = Some g \<Longrightarrow> framed (g x)) \<Longrightarrow> framed (call_or_zero f x)"
  by (simp add: call_or_zero_def split: option.split)

lemma framed_generators:
  assumes "framed_generator g"
  shows "framed (run_generator E opts name alias cur warn crit g)"
    and "run_generator E opts name alias cur warn crit g c = (Inr (r, g'), c') \<Longrightarrow> framed_generator g'"
proof -
  show "framed (run_generator E opts name alias cur warn crit g)"
    using assms unfolding run_generator_def framed_generator_def
    by (cases g) (auto simp: percentage_eval_def scaled_byte_eval_def percentage_configure_def scaled_byte_configure_def Let_def
        intro!: framed_intros framed_call_or_zero)
  show "framed_generator g'" if "run_generator E opts name alias cur warn crit g c = (Inr (r, g'), c')"
    using assms that unfolding run_generator_def framed_generator_def
    by (cases g) (auto simp: bindE_def seqE_def percentage_configure_def scaled_byte_configure_def Let_def
        split: sum.splits prod.splits if_splits)
qed

lemma mapE_results:
  assumes "mapE f xs c = (Inr ys, c')" and "y \<in> set ys"
  shows "\<exists>x d d'. x \<in> set xs \<and> f x d = (Inr y, d')"
  using assms
proof (induction xs arbitrary: c ys)
  case (Cons x xs)
  then obtain z zs d where "f x c = (Inr z, d)" "mapE f xs d = (Inr zs, c')" "ys = z # zs"
    by (auto simp: bindE_def split: prod.splits sum.splits)
  with Cons show ?case by (metis list.set_intros set_ConsD)
qed simp

lemma framed_run_all:
  assumes "\<And>g. g \<in> set gs \<Longrightarrow> framed (f g)"
  shows "framed (run_all f gs)"
  unfolding run_all_def by (intro framed_intros keeps_mapE assms)

lemma run_all_results:
  assumes "run_all f gs c = (Inr (r, gs'), c')" and "g' \<in> set gs'"
  shows "\<exists>g d d' r'. g \<in> set gs \<and> f g d = (Inr (r', g'), d')"
proof -
  obtain rs where "mapE f gs c = (Inr rs, c')" "gs' = map snd rs"
    using assms(1) by (auto simp: run_all_def bindE_def split: prod.splits sum.splits)
  moreover from this assms(2) obtain p where "p \<in> set rs" "g' = snd p" by auto
  ultimately show ?thesis using mapE_results [of f gs c rs c' p] by (metis prod.collapse)
qed

lemma framed_optional_value: "(\<And>n. m = Some n \<Longrightarrow> framed n) \<Longrightarrow> framed (optional_value m)"
  by (auto simp: optional_value_def intro!: framed_intros split: option.split)

lemma framed_bounds:
  assumes "framed_registry R" "framed_entry e"
  shows "framed (optional_value (map_option (\<lambda>n. get_int_value (get_value E R n)) (pe_warn e)))"
    "framed (optional_value (map_option (\<lambda>n. get_int_value (get_value E R n)) (pe_crit e)))"
    "framed (optional_value (map_option (\<lambda>n. get_float_value (get_value E R n)) (pe_warn e)))"
    "framed (optional_value (map_option (\<lambda>n. get_float_value (get_value E R n)) (pe_crit e)))"
  using assms by (auto simp: framed_entry_def pred_option_def intro!: framed_optional_value framed_numbers)

lemma framed_on_has_object: "framed m \<Longrightarrow> framed (\<lambda>c. if b c then (Inr x, c) else m c)"
  by (simp add: keeps_def)

lemma framed_number_performance_data:
  assumes "framed_registry R" "framed_entry e" "framed cur"
  shows "framed (number_performance_data E R opts name alias cur e)"
proof -
  have "framed (run_all (run_generator E opts name alias v warn crit) (pe_generators e))" for v warn crit
    using assms(2) by (intro framed_run_all framed_generators(1)) (simp add: framed_entry_def)
  then have "framed (bindE cur (\<lambda>v. case v of None \<Rightarrow> ret ([], e) | Some cur \<Rightarrow>
       bindE (optional_value (map_option (\<lambda>n. get_int_value (get_value E R n)) (pe_warn e))) (\<lambda>warn.
       bindE (optional_value (map_option (\<lambda>n. get_int_value (get_value E R n)) (pe_crit e))) (\<lambda>crit.
       bindE (run_all (run_generator E opts name alias cur warn crit) (pe_generators e)) (\<lambda>(r, gs).
         ret (r, e\<lparr>pe_generators := gs\<rparr>))))))"
    using framed_bounds [OF assms(1,2)] assms(3) by (auto intro!: framed_intros split: option.split prod.split)
  then show ?thesis unfolding number_performance_data_def by (intro framed_on_has_object) simp
qed

lemma framed_run_float_generator: "framed (run_float_generator E opts name alias cur warn crit g)"
  unfolding run_float_generator_def by (intro framed_intros)

lemma framed_float_performance_data:
  assumes "framed_registry R" "framed_entry e"
  shows "framed (float_performance_data E R opts name alias e)"
proof -
  have "framed (get_float_value (get_value E R (pe_current e)))"
    using assms by (intro framed_numbers) (simp_all add: framed_entry_def)
  then have "framed (bindE (get_float_value (get_value E R (pe_current e))) (\<lambda>cur.
       bindE (optional_value (map_option (\<lambda>n. get_float_value (get_value E R n)) (pe_warn e))) (\<lambda>warn.
       bindE (optional_value (map_option (\<lambda>n. get_float_value (get_value E R n)) (pe_crit e))) (\<lambda>crit.
       bindE (run_all (run_float_generator E opts name alias cur warn crit) (pe_float_generators e)) (\<lambda>(r, gs).
         ret (r, e\<lparr>pe_float_generators := gs\<rparr>))))))"
    using framed_bounds [OF assms]
    by (auto intro!: framed_intros framed_run_all framed_run_float_generator split: prod.split)
  then show ?thesis unfolding float_performance_data_def by (intro framed_on_has_object) simp
qed

lemma framed_summary_performance_data:
  assumes "framed_registry R" "framed_entry e"
  shows "framed (summary_performance_data E R name e)"
proof -
  have "framed (get_int_value (get_value E R (pe_current e)))"
    using assms by (intro framed_numbers) (simp_all add: framed_entry_def)
  with framed_bounds [OF assms] show ?thesis
    unfolding summary_performance_data_def by (intro framed_on_has_object framed_intros)
qed

lemma framed_get_performance_data:
  assumes "framed_registry R" "framed_entry e"
  shows "framed (get_performance_data E R opts alias e)"
proof -
  have n: "framed (get_int_value (get_value E R (pe_current e)))"
    using assms by (intro framed_numbers) (simp_all add: framed_entry_def)
  have "framed (call_accessor fn)" if "pe_current e = OptIntVar t nm nt nv fn" for t nm nt nv fn
    using assms(2) that unfolding call_accessor_def
    by (intro framed_intros) (auto simp: framed_entry_def framed_accessor_def intro!: framed_intros split: option.split)
  with n show ?thesis
    using assms by (auto intro!: framed_intros framed_number_performance_data framed_float_performance_data
        framed_summary_performance_data split: node.split)
qed

lemma run_all_generators:
  assumes "run_all (run_generator E opts name alias cur warn crit) gs c = (Inr (r, gs'), c')" "\<forall>g \<in> set gs. framed_generator g"
  shows "\<forall>g \<in> set gs'. framed_generator g"
proof
  fix g' assume "g' \<in> set gs'"
  then obtain g d d' r' where "g \<in> set gs" "run_generator E opts name alias cur warn crit g d = (Inr (r', g'), d')"
    using run_all_results [OF assms(1)] by blast
  with assms(2) show "framed_generator g'" using framed_generators(2) by blast
qed

lemma triple_run_all_generators:
  assumes "\<forall>g \<in> set gs. framed_generator g"
  shows "triple (\<lambda>_. True) (run_all (run_generator E opts name alias cur warn crit) gs) (\<lambda>(r, gs') _. \<forall>g \<in> set gs'. framed_generator g)"
  using run_all_generators [OF _ assms] by (auto simp: triple_def)

lemma triple_any: "triple P m (\<lambda>_ _. True)"
  by (simp add: triple_def)

lemma triple_at: "(\<And>c. P c \<Longrightarrow> triple P (m c) Q) \<Longrightarrow> triple P (\<lambda>c. m c c) Q"
  by (auto simp: triple_def)

lemma entry_number_performance_data:
  assumes "framed_entry e"
  shows "triple (\<lambda>_. True) (number_performance_data E R opts name alias cur e) (\<lambda>(r, e') _. framed_entry e')"
proof -
  let ?run = "\<lambda>v warn crit. bindE (run_all (run_generator E opts name alias v warn crit) (pe_generators e)) (\<lambda>(r, gs).
         ret (r, e\<lparr>pe_generators := gs\<rparr>))"
  let ?num = "\<lambda>b. optional_value (map_option (\<lambda>n. get_int_value (get_value E R n)) b)"
  let ?Q = "\<lambda>(r, e') _. framed_entry e'"
  have run: "triple (\<lambda>_. True) (?run v warn crit) ?Q" for v warn crit
    using assms
    by (intro triple_bindE [OF triple_run_all_generators]) (auto simp: framed_entry_def intro!: triple_ret)
  have row: "triple (\<lambda>_. True) (bindE (?num (pe_warn e)) (\<lambda>warn. bindE (?num (pe_crit e)) (?run v warn))) ?Q" for v
    by (rule triple_bindE [OF triple_any], rule triple_bindE [OF triple_any], rule run)
  have none: "triple (\<lambda>_. True) (ret ([], e)) ?Q" using assms by (intro triple_ret) simp
  have "triple (\<lambda>_. True) (bindE cur (\<lambda>v. case v of None \<Rightarrow> ret ([], e)
      | Some cur \<Rightarrow> bindE (?num (pe_warn e)) (\<lambda>warn. bindE (?num (pe_crit e)) (?run cur warn)))) ?Q"
    by (rule triple_bindE [OF triple_any]) (simp add: row none split: option.split)
  then show ?thesis unfolding number_performance_data_def using assms by (auto simp: triple_def)
qed

lemma entry_get_performance_data:
  assumes "framed_entry e"
  shows "triple (\<lambda>_. True) (get_performance_data E R opts alias e) (\<lambda>(r, e') _. framed_entry e')"
proof -
  have "triple (\<lambda>_. True) (float_performance_data E R opts name alias e) (\<lambda>(r, e') _. framed_entry e')" for name
    using assms by (auto simp: float_performance_data_def triple_def framed_entry_def bindE_def
        split: prod.splits sum.splits if_splits)
  moreover have "triple (\<lambda>_. True) (summary_performance_data E R name e) (\<lambda>(r, e') _. framed_entry e')" for name
    using assms by (auto simp: summary_performance_data_def triple_def bindE_def split: prod.splits sum.splits if_splits)
  ultimately show ?thesis
    using assms entry_number_performance_data [OF assms]
    by (auto intro!: triple_ret split: node.split)
qed

declare get_performance_data.simps [simp del]

section \<open>Triples of the operations\<close>

text \<open>
  Assertions about a run: the summary and the deferred rows satisfy \<open>Q\<close>, and the registered
  performance data is framed.
\<close>

definition holds :: "(generic_summary option \<Rightarrow> 'o deferred_record list \<Rightarrow> bool) \<Rightarrow> 'o modern_filters \<Rightarrow> bool" where
  "holds Q s \<longleftrightarrow> Q (summary (mf_context s)) (deferred_records s) \<and> (\<forall>(k, e) \<in> set (leaf_performance_data s). framed_entry e)"

lemma keeps_holds: "keeps view m \<Longrightarrow> triple (holds Q) m (\<lambda>_. holds Q)"
  using keeps_triple [of view m "\<lambda>(a, b, d). Q a b \<and> (\<forall>(k, e) \<in> set d. framed_entry e)"]
  by (simp add: holds_def [abs_def] view_def)

lemma holds_in_ctx: "keeps summary m \<Longrightarrow> triple (holds Q) (in_ctx m) (\<lambda>_. holds Q)"
  by (intro keeps_holds keeps_view_in_ctx)

lemma holds_framed: "framed m \<Longrightarrow> triple (holds Q) (in_ctx m) (\<lambda>_. holds Q)"
  by (intro holds_in_ctx framed_keeps_summary)

lemma holds_update_summary:
  "(\<And>m ds. Q m ds \<Longrightarrow> Q' (map_option f m) ds) \<Longrightarrow> triple (holds Q) (update_summary f) (\<lambda>_. holds Q')"
  by (simp add: triple_def holds_def update_summary_def in_ctx_def)

lemma holds_set_returnCode:
  "(\<And>m ds. Q m ds \<Longrightarrow> Q' (map_option (\<lambda>s. s\<lparr>returnCode := f (returnCode s)\<rparr>) m) ds) \<Longrightarrow>
   triple (holds Q) (set_returnCode f) (\<lambda>_. holds Q')"
  unfolding set_returnCode_def by (rule holds_update_summary)

lemma holds_row_performance_data:
  assumes "framed_registry R" "\<forall>(k, e) \<in> set es. framed_entry e"
  shows "triple (holds Q) (row_performance_data E R opts alias es) (\<lambda>es' s. holds Q s \<and> (\<forall>(k, e) \<in> set es'. framed_entry e))"
  using assms(2)
proof (induction es)
  case (Cons x xs)
  then have x: "framed_entry (snd x)" by (cases x) simp
  let ?I = "\<lambda>p s. holds Q s \<and> framed_entry (snd (p :: performance_data list \<times> 'a perf_entry))"
  have get: "triple (holds Q) (in_ctx (get_performance_data E R opts alias (snd x))) ?I"
    using tripleD [OF holds_framed [OF framed_get_performance_data [OF assms(1) x]]]
      tripleD [OF entry_get_performance_data [OF x]]
    by (fastforce simp: triple_def in_ctx_def split: prod.splits)
  have rest: "triple (\<lambda>s. holds Q s \<and> framed_entry e') (seqE (if perf \<noteq> [] then append_row_performance_data perf else ret ())
         (bindE (row_performance_data E R opts alias xs) (\<lambda>rest. ret ((fst x, e') # rest))))
       (\<lambda>es' s. holds Q s \<and> (\<forall>(k, e) \<in> set es'. framed_entry e))" for perf e'
  proof (rule triple_seqE [where S = "\<lambda>s. holds Q s \<and> framed_entry e'"])
    show "triple (\<lambda>s. holds Q s \<and> framed_entry e') (if perf \<noteq> [] then append_row_performance_data perf else ret ())
        (\<lambda>_ s. holds Q s \<and> framed_entry e')"
      by (auto simp: append_row_performance_data_def holds_def intro!: triple_ret triple_modify)
    have "triple (\<lambda>s. holds Q s \<and> framed_entry e') (row_performance_data E R opts alias xs)
        (\<lambda>es' s. holds Q s \<and> framed_entry e' \<and> (\<forall>(k, e) \<in> set es'. framed_entry e))"
      using Cons by (auto simp: triple_def) blast+
    then show "triple (\<lambda>s. holds Q s \<and> framed_entry e') (bindE (row_performance_data E R opts alias xs) (\<lambda>rest. ret ((fst x, e') # rest)))
        (\<lambda>es' s. holds Q s \<and> (\<forall>(k, e) \<in> set es'. framed_entry e))"
      by (rule triple_bindE) (auto intro!: triple_ret)
  qed
  show ?case
    unfolding row_performance_data.simps
  proof (rule triple_bindE [OF get])
    fix p :: "performance_data list \<times> 'a perf_entry"
    obtain perf e' where p: "p = (perf, e')" by (cases p)
    show "triple (?I p) ((\<lambda>(perf, e'). seqE (if perf \<noteq> [] then append_row_performance_data perf else ret ())
         (bindE (row_performance_data E R opts alias xs) (\<lambda>rest. ret ((fst x, e') # rest)))) p)
       (\<lambda>es' s. holds Q s \<and> (\<forall>(k, e) \<in> set es'. framed_entry e))"
      unfolding p prod.case snd_conv by (rule rest)
  qed
qed (simp add: triple_ret)

lemma holds_append:
  "triple (\<lambda>s. holds Q s) (append_row_performance_data perf) (\<lambda>_. holds Q)"
  by (auto simp: append_row_performance_data_def holds_def intro!: triple_modify)

lemma triple_fact: "(p \<Longrightarrow> triple P m Q) \<Longrightarrow> triple (\<lambda>s. P s \<and> p) m Q"
  by (auto simp: triple_def)

lemma triple_if': "triple P m Q \<Longrightarrow> triple P n Q \<Longrightarrow> triple P (if b then m else n) Q"
  by simp

lemma holds_emit_performance_data:
  assumes "framed_registry R"
  shows "triple (holds Q) (emit_performance_data E R F alias) (\<lambda>_. holds Q)"
  unfolding emit_performance_data_def
proof (intro triple_if triple_bindE)
  show "triple (holds Q) (getE leaf_performance_data) (\<lambda>es s. holds Q s \<and> (\<forall>(k, e) \<in> set es. framed_entry e))"
    by (rule triple_getE) (simp add: holds_def)
  show "triple (\<lambda>s. holds Q s \<and> (\<forall>(k, e) \<in> set es. framed_entry e)) (row_performance_data E R (perf_opts F) alias es)
      (\<lambda>es' s. holds Q s \<and> (\<forall>(k, e) \<in> set es'. framed_entry e))" for es
    by (intro triple_fact holds_row_performance_data assms)
  show "triple (\<lambda>s. holds Q s \<and> (\<forall>(k, e) \<in> set es'. framed_entry e)) (modify (\<lambda>s. s\<lparr>leaf_performance_data := es'\<rparr>))
      (\<lambda>_. holds Q)" for es'
    by (rule triple_modify) (simp add: holds_def)
qed (simp add: triple_ret)

lemma holds_optional_match:
  "framed_registry R \<Longrightarrow> framed_engine e \<Longrightarrow> triple (holds Q) (optional_match E R e b u) (\<lambda>_. holds Q)"
  by (intro keeps_holds framed_engine_match')

lemma holds_debug_mark: "triple (holds Q) (in_ctx (debug_mark r)) (\<lambda>_. holds Q)"
  by (intro holds_in_ctx keeps_debug_mark)

lemma holds_modify:
  "(\<And>s. view (f s) = view s) \<Longrightarrow> triple (holds Q) (modify f) (\<lambda>_. holds Q)"
  by (rule keeps_holds) (simp add: keeps_def)

lemma holds_index_unique:
  assumes "framed_registry R" "framed_renderer (renderer_unique F)"
  shows "triple (holds Q) (index_unique E R F) (\<lambda>_. holds Q)"
proof (rule keeps_holds)
  have "keeps view (in_ctx (render E R (context_number_format F) (renderer_unique F)))"
    using assms by (intro view_framed framed_render)
  then show "keeps view (index_unique E R F)"
    unfolding index_unique_def by (auto intro!: keeps_bindE keeps_seqE keeps_modify simp: view_def)
qed

section \<open>The verdict\<close>

text \<open>
  After \<open>k\<close> records: \<open>j\<close> of the rows that matched the filter have their verdict, and the
  code is the worst of those.
\<close>

definition worst_row :: "generic_summary \<Rightarrow> nagiosReturn" where
  "worst_row m = (if count_crit m > 0 then returnCRIT else if count_warn m > 0 then returnWARN else returnOK)"

definition counts_consistent :: "generic_summary \<Rightarrow> bool" where
  "counts_consistent m \<longleftrightarrow> 0 \<le> count_ok m \<and> 0 \<le> count_warn m \<and> 0 \<le> count_crit m"

definition tallied :: "nat \<Rightarrow> nat \<Rightarrow> nat \<Rightarrow> generic_summary option \<Rightarrow> bool" where
  "tallied k n j sm \<longleftrightarrow> (\<exists>m. sm = Some m \<and> counts_consistent m \<and> count_total m = int k \<and> count_match m = int n \<and>
     count_ok m + count_warn m + count_crit m = int j \<and> returnCode m = worst_row m)"

definition concluded :: "nat \<Rightarrow> generic_summary option \<Rightarrow> bool" where
  "concluded k sm \<longleftrightarrow> (\<exists>m. sm = Some m \<and> counts_consistent m \<and> count_total m = int k \<and>
     count_match m = count_ok m + count_warn m + count_crit m \<and> isNagiosReturnCode (returnCode m) \<and>
     severity (worst_row m) \<le> severity (returnCode m) \<and> (returnCode m = returnUNKNOWN \<longrightarrow> count_match m = 0))"

lemma worst_row_valid [simp]: "isNagiosReturnCode (worst_row m)"
  by (simp add: worst_row_def isNagiosReturnCode_def)

lemma worst_row_known [simp]: "worst_row m \<noteq> returnUNKNOWN"
  by (simp add: worst_row_def)

lemma tallied_Some:
  "tallied k n j (Some m) \<longleftrightarrow> counts_consistent m \<and> count_total m = int k \<and> count_match m = int n \<and>
     count_ok m + count_warn m + count_crit m = int j \<and> returnCode m = worst_row m"
  "\<not> tallied k n j None"
  by (simp_all add: tallied_def)

lemma tallied_reset: "tallied 0 0 0 (Some (reset_summary m))"
  by (simp add: tallied_Some reset_summary_def counts_consistent_def worst_row_def)

lemma start_match_tallied:
  "triple (holds (\<lambda>sm _. sm \<noteq> None)) start_match (\<lambda>_. holds (\<lambda>sm ds. tallied 0 (length ds) 0 sm))"
  unfolding start_match_def
proof (rule triple_seqE [OF holds_in_ctx [OF summary_keepers(4)]], intro triple_seqE)
  show "triple (holds (\<lambda>sm _. sm \<noteq> None)) (set_returnCode (\<lambda>_. returnOK)) (\<lambda>_. holds (\<lambda>sm _. sm \<noteq> None))"
    by (rule holds_set_returnCode) simp
  show "triple (holds (\<lambda>sm _. sm \<noteq> None)) (modify (\<lambda>s. s\<lparr>mf_has_matched := False\<rparr>)) (\<lambda>_. holds (\<lambda>sm _. sm \<noteq> None))"
    by (rule holds_modify) (simp add: view_def)
  show "triple (holds (\<lambda>sm _. sm \<noteq> None)) (update_summary reset_summary) (\<lambda>_. holds (\<lambda>sm _. tallied 0 0 0 sm))"
    by (rule holds_update_summary) (auto simp: tallied_reset)
  show "triple (holds (\<lambda>sm _. tallied 0 0 0 sm)) (modify (\<lambda>s. s\<lparr>records := [], deferred_records := []\<rparr>))
      (\<lambda>_. holds (\<lambda>sm ds. tallied 0 (length ds) 0 sm))"
    by (rule triple_modify) (simp add: holds_def)
qed

lemma tallied_matched:
  "tallied k n j sm \<Longrightarrow> tallied k (Suc n) j (map_option (if second then matched_unique else matched current) sm)"
  by (cases sm) (simp_all add: tallied_Some counts_consistent_def worst_row_def matched_def matched_unique_def)

lemma match_matched_tallied:
  assumes "framed_setup R F"
  shows "triple (holds (\<lambda>sm ds. tallied k (length ds) 0 sm)) (match_matched E R F rec)
      (\<lambda>_. holds (\<lambda>sm ds. tallied k (length ds) 0 sm))"
  (is "triple (holds ?T) _ _")
proof -
  have frames: "framed_registry R" "framed_renderer (renderer_detail F)" "framed_renderer (renderer_perf F)"
      "framed_renderer (renderer_unique F)" "\<forall>(k, n) \<in> set (renderer_hash F). framed_node n"
    using assms by (auto simp: framed_setup_def)
  have hash: "triple (holds ?T) (if fetch_hash_on F then bindE (in_ctx (render_hash E R (renderer_hash F))) (\<lambda>h.
      modify (\<lambda>s. s\<lparr>records := records s @ [h]\<rparr>)) else ret ()) (\<lambda>_. holds ?T)"
    by (intro triple_if' triple_bindE [OF holds_framed] framed_render_hash frames holds_modify triple_ret) (simp_all add: view_def)
  have count: "triple (holds ?T) (update_summary (if second then matched_unique else matched current))
      (\<lambda>_. holds (\<lambda>sm ds. tallied k (Suc (length ds)) 0 sm))" for second current
    by (rule holds_update_summary, rule tallied_matched)
  have push: "triple (holds (\<lambda>sm ds. tallied k (Suc (length ds)) 0 sm))
      (modify (\<lambda>s. s\<lparr>deferred_records := deferred_records s @ [d]\<rparr>)) (\<lambda>_. holds ?T)" for d
    by (rule triple_modify) (simp add: holds_def)
  show ?thesis
    unfolding match_matched_def
    by (rule triple_seqE [OF holds_debug_mark] triple_seqE [OF hash] triple_bindE [OF holds_framed]
        triple_seqE [OF holds_framed] triple_bindE [OF holds_index_unique] triple_seqE [OF holds_emit_performance_data]
        triple_seqE [OF count] push framed_render framed_drain frames)+
qed
lemma match_tallied:
  assumes "framed_setup R F"
  shows "triple (holds (\<lambda>sm ds. tallied k (length ds) 0 sm)) (match E R F rec) (\<lambda>_. holds (\<lambda>sm ds. tallied (Suc k) (length ds) 0 sm))"
  (is "triple _ _ (\<lambda>_. holds ?T)")
proof -
  have frames: "framed_registry R" "framed_engine (engine_filter F)" using assms by (auto simp: framed_setup_def)
  have count: "triple (holds (\<lambda>sm ds. tallied k (length ds) 0 sm)) (update_summary summary_count) (\<lambda>_. holds ?T)"
  proof (rule holds_update_summary)
    fix sm and ds :: "'a deferred_record list" assume "tallied k (length ds) 0 sm"
    then show "?T (map_option summary_count sm) ds"
      by (cases sm) (simp_all add: tallied_Some counts_consistent_def worst_row_def summary_count_def)
  qed
  have body: "triple (holds ?T) (if hit then match_matched E R F rec else ret ()) (\<lambda>_. holds ?T)" for hit
    by (intro triple_if' match_matched_tallied assms triple_ret)
  show ?thesis
    unfolding match_def
    by (rule triple_seqE [OF holds_in_ctx [OF summary_keepers(2)]] triple_seqE [OF holds_debug_mark] triple_seqE [OF count]
        triple_bindE [OF holds_optional_match [OF frames]] triple_seqE [OF body] triple_ret | assumption)+
qed

text \<open>A row with its verdict: one of the three counters moves, and the code follows.\<close>

lemma tallied_crit:
  assumes "tallied k n j sm"
  shows "tallied k n (Suc j) (map_option (\<lambda>s. s\<lparr>returnCode := escalteReturnCodeToCRIT (returnCode s)\<rparr>)
     (map_option (if second then matched_crit_unique else matched_crit line) sm))"
  using assms by (cases sm) (simp_all add: tallied_Some counts_consistent_def worst_row_def matched_crit_def matched_crit_unique_def
      escalteReturnCodeToCRIT_def)

lemma tallied_warn:
  assumes "tallied k n j sm"
  shows "tallied k n (Suc j) (map_option (\<lambda>s. s\<lparr>returnCode := escalteReturnCodeToWARN (returnCode s)\<rparr>)
     (map_option (if second then matched_warn_unique else matched_warn line) sm))"
  using assms by (cases sm) (simp_all add: tallied_Some counts_consistent_def worst_row_def matched_warn_def matched_warn_unique_def
      escalteReturnCodeToWARN_def)

lemma tallied_ok:
  assumes "tallied k n j sm"
  shows "tallied k n (Suc j) (map_option (if second then matched_ok_unique else matched_ok line) sm)"
  using assms by (cases sm) (simp_all add: tallied_Some counts_consistent_def worst_row_def matched_ok_def matched_ok_unique_def)

lemma escalated_row:
  assumes "\<And>sm. tallied k n j sm \<Longrightarrow>
      tallied k n (Suc j) (map_option (\<lambda>s. s\<lparr>returnCode := esc (returnCode s)\<rparr>) (map_option row sm))"
  shows "triple (holds (\<lambda>sm ds. tallied k n j sm)) (seqE (update_summary row) (seqE (set_returnCode esc) (ret True)))
      (\<lambda>_. holds (\<lambda>sm ds. tallied k n (Suc j) sm))"
proof (intro triple_seqE)
  show "triple (holds (\<lambda>sm ds. tallied k n j sm)) (update_summary row) (\<lambda>_. holds (\<lambda>sm ds. \<exists>sm'. tallied k n j sm' \<and> sm = map_option row sm'))"
    by (rule holds_update_summary) blast
  show "triple (holds (\<lambda>sm ds. \<exists>sm'. tallied k n j sm' \<and> sm = map_option row sm')) (set_returnCode esc)
      (\<lambda>_. holds (\<lambda>sm ds. tallied k n (Suc j) sm))"
    by (rule holds_set_returnCode) (use assms in blast)
qed (rule triple_ret)

lemma evaluate_deferred_tallied:
  assumes "framed_setup R F"
  shows "triple (holds (\<lambda>sm ds. tallied k n j sm)) (evaluate_deferred E R F d) (\<lambda>_. holds (\<lambda>sm ds. tallied k n (Suc j) sm))"
proof -
  have frames: "framed_registry R" "framed_engine (engine_crit F)" "framed_engine (engine_warn F)" "framed_engine (engine_ok F)"
    using assms by (auto simp: framed_setup_def)
  have ok: "triple (holds (\<lambda>sm ds. tallied k n j sm)) (if b then in_ctx (debug_mark om_ok) else ret ()) (\<lambda>_. holds (\<lambda>sm ds. tallied k n j sm))" for b
    by (intro triple_if' holds_debug_mark triple_ret)
  note row = holds_update_summary [where Q = "\<lambda>sm ds. tallied k n j sm" and Q' = "\<lambda>sm ds. tallied k n (Suc j) sm", OF tallied_ok]
  show ?thesis
    unfolding evaluate_deferred_def
    by (rule triple_seqE [OF holds_in_ctx [OF summary_keepers(2)]] triple_seqE [OF holds_debug_mark]
        triple_bindE [OF holds_optional_match] triple_if' escalated_row tallied_crit tallied_warn
        triple_seqE [OF ok] triple_seqE [OF row] triple_ret frames | assumption)+
qed

lemma evaluate_deferred_records_tallied:
  assumes "framed_setup R F"
  shows "triple (holds (\<lambda>sm ds. tallied k (length ds) 0 sm)) (evaluate_deferred_records E R F)
      (\<lambda>_. holds (\<lambda>sm ds. \<exists>n. tallied k n n sm))"
  unfolding evaluate_deferred_records_def
proof (rule triple_bindE)
  show "triple (holds (\<lambda>sm ds. tallied k (length ds) 0 sm)) (getE deferred_records) (\<lambda>ds. holds (\<lambda>sm _. tallied k (length ds) 0 sm))"
    by (rule triple_getE) (simp add: holds_def)
  fix ds :: "'a deferred_record list"
  have rows: "triple (holds (\<lambda>sm _. tallied k (length ds) 0 sm)) (mapE (evaluate_deferred E R F) ds)
      (\<lambda>_. holds (\<lambda>sm _. tallied k (length ds) (length ds) sm))"
    using triple_mapE [where P = "\<lambda>j. holds (\<lambda>sm _. tallied k (length ds) j sm)" and k = 0, OF evaluate_deferred_tallied [OF assms]]
    by simp
  show "triple (holds (\<lambda>sm _. tallied k (length ds) 0 sm)) (if ds = [] then ret () else bindE (mapE (evaluate_deferred E R F) ds) (\<lambda>bs.
      modify (\<lambda>s. s\<lparr>mf_has_matched := mf_has_matched s \<or> True \<in> set bs, deferred_records := []\<rparr>)))
      (\<lambda>_. holds (\<lambda>sm _. \<exists>n. tallied k n n sm))"
    by (intro triple_if triple_bindE [OF rows] triple_ret triple_modify) (auto simp: holds_def)
qed

lemma post_verdict_holds:
  assumes "framed_registry R" "framed_engine e"
  shows "triple (\<lambda>s. holds Q s \<and> (unsure \<longrightarrow> no_rows)) (post_verdict E R e no_rows unsure)
      (\<lambda>r s. holds Q s \<and> (snd r \<longrightarrow> no_rows))"
proof (rule triple_fact)
  assume un: "unsure \<longrightarrow> no_rows"
  have force: "framed (engine_match_force E R fs)" and eng: "framed (engine_match E R fs False)" if "e = Some fs" for fs
    using assms that by (auto simp: framed_engine_def intro!: framed_engine_match framed_engine_match_force)
  have "triple (holds Q) (force_sure_true E R fs no_rows unsure) (\<lambda>r s. holds Q s \<and> (snd r \<longrightarrow> no_rows))" if "e = Some fs" for fs
    unfolding force_sure_true_def
    using un by (intro triple_if triple_bindE [OF holds_framed [OF force [OF that]]] triple_ret) simp_all
  then show "triple (holds Q) (post_verdict E R e no_rows unsure) (\<lambda>r s. holds Q s \<and> (snd r \<longrightarrow> no_rows))"
    unfolding post_verdict_def using un
    by (auto intro!: triple_bindE [OF holds_framed [OF eng]] triple_ret split: option.split)
qed

lemma tallied_concluded: "tallied k n n sm \<Longrightarrow> concluded k sm"
  by (cases sm) (simp_all add: tallied_Some concluded_def)

lemma concluded_escalates:
  assumes "tallied k n n sm"
  shows "concluded k (map_option move_hits_crit (map_option (\<lambda>s. s\<lparr>returnCode := escalteReturnCodeToCRIT (returnCode s)\<rparr>) sm))"
    "concluded k (map_option move_hits_warn (map_option (\<lambda>s. s\<lparr>returnCode := escalteReturnCodeToWARN (returnCode s)\<rparr>) sm))"
    "n = 0 \<Longrightarrow> concluded k (map_option (\<lambda>s. s\<lparr>returnCode := escalateReturnCodeToUNKNOWN (returnCode s)\<rparr>) sm)"
proof -
  obtain m where m: "sm = Some m" "counts_consistent m" "count_total m = int k" "count_match m = int n"
     "count_ok m + count_warn m + count_crit m = int n" "returnCode m = worst_row m"
    using assms by (auto simp: tallied_def)
  have w: "worst_row (m\<lparr>returnCode := c, list_crit := x, list_problem := y\<rparr>) = worst_row m"
    "worst_row (m\<lparr>returnCode := c, list_warn := x, list_problem := y\<rparr>) = worst_row m"
    "worst_row (m\<lparr>returnCode := c\<rparr>) = worst_row m" for c x y
    by (simp_all add: worst_row_def)
  note mono = crit.inflationary [OF worst_row_valid] warn.inflationary [OF worst_row_valid] unknown.inflationary [OF worst_row_valid]
  show "concluded k (map_option move_hits_crit (map_option (\<lambda>s. s\<lparr>returnCode := escalteReturnCodeToCRIT (returnCode s)\<rparr>) sm))"
    using m mono(1) [of m] by (simp add: concluded_def move_hits_crit_def counts_consistent_def w) (simp add: escalteReturnCodeToCRIT_def)
  show "concluded k (map_option move_hits_warn (map_option (\<lambda>s. s\<lparr>returnCode := escalteReturnCodeToWARN (returnCode s)\<rparr>) sm))"
    using m mono(2) [of m] by (simp add: concluded_def move_hits_warn_def counts_consistent_def w) (simp add: escalteReturnCodeToWARN_def)
  show "concluded k (map_option (\<lambda>s. s\<lparr>returnCode := escalateReturnCodeToUNKNOWN (returnCode s)\<rparr>) sm)" if "n = 0"
    using m mono(3) [of m] that by (simp add: concluded_def counts_consistent_def w)
qed

text \<open>
  The state in which \<^verbatim>\<open>match_post\<close> decides: every row has its verdict, and an unsure forced
  evaluation is only possible when no row matched.
\<close>

definition deciding :: "nat \<Rightarrow> bool \<Rightarrow> bool \<Rightarrow> 'o modern_filters \<Rightarrow> bool" where
  "deciding k no_rows u s \<longleftrightarrow> holds (\<lambda>sm ds. \<exists>n. tallied k n n sm \<and> (no_rows \<longrightarrow> n = 0)) s \<and> (u \<longrightarrow> no_rows)"

lemma no_rows_read:
  "triple (holds (\<lambda>sm ds. \<exists>n. tallied k n n sm)) (getE (\<lambda>s. \<not> has_matched (the_summary s)))
     (\<lambda>no_rows. deciding k no_rows False)"
  by (rule triple_getE) (auto simp: deciding_def holds_def tallied_def the_summary_def has_matched_def)

lemma deciding_concluded: "deciding k no_rows u s \<Longrightarrow> holds (\<lambda>sm ds. concluded k sm) s"
  by (auto simp: deciding_def holds_def intro: tallied_concluded)

lemma post_verdict_deciding:
  assumes "framed_registry R" "framed_engine e"
  shows "triple (deciding k no_rows u) (post_verdict E R e no_rows u) (\<lambda>r. deciding k no_rows (snd r))"
  unfolding deciding_def by (rule post_verdict_holds [OF assms])

lemma post_sure:
  assumes "\<And>n sm. tallied k n n sm \<Longrightarrow> concluded k (map_option f (map_option (\<lambda>s. s\<lparr>returnCode := esc (returnCode s)\<rparr>) sm))"
  shows "triple (deciding k no_rows u) (seqE (set_returnCode esc) (seqE (update_summary f) (ret True))) (\<lambda>_. holds (\<lambda>sm ds. concluded k sm))"
  unfolding deciding_def
proof (rule triple_fact, intro triple_seqE)
  show "triple (holds (\<lambda>sm ds. \<exists>n. tallied k n n sm \<and> (no_rows \<longrightarrow> n = 0))) (set_returnCode esc)
      (\<lambda>_. holds (\<lambda>sm ds. concluded k (map_option f sm)))"
    by (rule holds_set_returnCode) (use assms in blast)
  show "triple (holds (\<lambda>sm ds. concluded k (map_option f sm))) (update_summary f) (\<lambda>_. holds (\<lambda>sm ds. concluded k sm))"
    by (rule holds_update_summary)
qed (rule triple_ret)

lemma post_unsure:
  "triple (deciding k no_rows u) (seqE (if u then set_returnCode escalateReturnCodeToUNKNOWN else ret ()) (ret x))
     (\<lambda>_. holds (\<lambda>sm ds. concluded k sm))"
  unfolding deciding_def
proof (rule triple_fact, rule triple_seqE)
  assume "u \<longrightarrow> no_rows"
  then show "triple (holds (\<lambda>sm ds. \<exists>n. tallied k n n sm \<and> (no_rows \<longrightarrow> n = 0)))
      (if u then set_returnCode escalateReturnCodeToUNKNOWN else ret ()) (\<lambda>_. holds (\<lambda>sm ds. concluded k sm))"
    by (intro triple_if holds_set_returnCode triple_ret) (auto simp: holds_def intro: concluded_escalates(3) tallied_concluded)
qed (rule triple_ret)

lemma match_post_concluded:
  assumes "framed_setup R F"
  shows "triple (holds (\<lambda>sm ds. tallied k (length ds) 0 sm)) (match_post E R F) (\<lambda>_. holds (\<lambda>sm ds. concluded k sm))"
proof -
  have frames: "framed_registry R" "framed_engine (engine_crit F)" "framed_engine (engine_warn F)" "framed_engine (engine_ok F)"
    using assms by (auto simp: framed_setup_def)
  have optional: "triple (deciding k no_rows u) (optional_match E R (engine_ok F) False False) (\<lambda>_. deciding k no_rows u)" for no_rows u
    unfolding deciding_def by (rule triple_fact) (rule triple_weaken [OF holds_optional_match [OF frames(1,4)]], auto)
  have read: "triple (holds Q) (getE g) (\<lambda>_. holds Q)" for Q and g :: "'a modern_filters \<Rightarrow> 'b" by (rule triple_getE)
  have yes: "triple (deciding k no_rows u) (ret True) (\<lambda>_. holds (\<lambda>sm ds. concluded k sm))" for no_rows u
    by (intro triple_ret deciding_concluded)
  show ?thesis
    unfolding match_post_def split_def
    by (rule triple_seqE [OF evaluate_deferred_records_tallied [OF assms]] triple_seqE [OF holds_in_ctx [OF summary_keepers(3)]]
        triple_bindE [OF no_rows_read] triple_bindE [OF read] triple_seqE [OF holds_emit_performance_data [OF frames(1)]]
        triple_bindE [OF post_verdict_deciding [OF frames(1,2)]] triple_bindE [OF post_verdict_deciding [OF frames(1,3)]]
        triple_bindE [OF optional] triple_if' yes post_unsure post_sure concluded_escalates(1,2) | assumption)+
qed

lemma worst_is_reported:
  assumes "isNagiosReturnCode c" "severity (worst_row m) \<le> severity c"
  shows "count_crit m > 0 \<longrightarrow> c = returnCRIT" "count_warn m > 0 \<longrightarrow> c \<in> {returnWARN, returnCRIT}"
  using assms by (auto simp: isNagiosReturnCode_def severity_def worst_row_def split: if_splits)

definition sample_check :: "nat filter_setup" where
  "sample_check =
     (let text = \<lparr>rd_entries = [TextPart ''row''], rd_human_numbers = False\<rparr>; none = \<lparr>rd_entries = [], rd_human_numbers = False\<rparr>
      in \<lparr>renderer_top = text, renderer_detail = text, renderer_hash = [], renderer_perf = none, renderer_unique = none,
        renderer_ok = none, renderer_empty = none, engine_filter = None, engine_warn = None,
        engine_crit = Some [BinaryOp type_bool op_gt (IntVar type_int ''size'' (Some (\<lambda>x c. (Inr (int x), c)))) (IntValue type_int 5 False)],
        engine_ok = None, fetch_hash_on = False, has_unique_index = False, perf_opts = Map.empty, context_number_format = new_number_format,
        error_handler_set = False\<rparr>)"

lemma sample_check_framed: "framed_setup no_registry sample_check"
  by (auto simp: framed_setup_def sample_check_def framed_engine_def framed_renderer_def Let_def framed_accessor_def keeps_def
      no_registry_def framed_registry_def)

lemma sample_check_run:
  "case run_check plain_env no_registry sample_check [3, 7] new_modern_filters of
     (Inl _, _) \<Rightarrow> False | (Inr _, s') \<Rightarrow> count_crit (the_summary s') = 1"
  by code_simp


end
