(* ===== verification/Where_Logic.thy ===== *)
theory Where_Logic
  imports Where_Engine
begin

text \<open>
  The logic of the filter language. A container of a boolean node is a truth value of
  Kleene's three-valued logic, unsure being the third value: \<open>and\<close>, \<open>or\<close> and \<open>not\<close> compute
  the strong Kleene connectives, a comparison without a record is unsure unless both
  sides are known, and so a sure verdict reached without a record holds for every record.
\<close>

section \<open>Three truth values\<close>

datatype tri = TT | FF | UU

fun tri_and :: "tri \<Rightarrow> tri \<Rightarrow> tri" where
  "tri_and FF _ = FF"
| "tri_and _ FF = FF"
| "tri_and TT TT = TT"
| "tri_and _ _ = UU"

fun tri_not :: "tri \<Rightarrow> tri" where
  "tri_not TT = FF"
| "tri_not FF = TT"
| "tri_not UU = UU"

definition tri_or :: "tri \<Rightarrow> tri \<Rightarrow> tri" where
  "tri_or a b = tri_not (tri_and (tri_not a) (tri_not b))"

definition tri_of :: "value_container \<Rightarrow> tri" where
  "tri_of v = (if is_unsure v then UU else if vc_get_int_or v 0 \<noteq> 0 then TT else FF)"

text \<open>The information order: unsure is below every verdict.\<close>

definition tri_le :: "tri \<Rightarrow> tri \<Rightarrow> bool" where
  "tri_le a b \<longleftrightarrow> a = UU \<or> a = b"

lemma tri_mono:
  "tri_le a a' \<Longrightarrow> tri_le b b' \<Longrightarrow> tri_le (tri_and a b) (tri_and a' b')"
  "tri_le a a' \<Longrightarrow> tri_le b b' \<Longrightarrow> tri_le (tri_or a b) (tri_or a' b')"
  "tri_le a a' \<Longrightarrow> tri_le (tri_not a) (tri_not a')"
  by (cases a; cases b; cases a'; cases b'; simp add: tri_le_def tri_or_def)+

lemma vc_is_int: "vc_is v 1 \<longleftrightarrow> (\<exists>i. i_value v = Some i)"
  by (auto simp: vc_is_def)

lemma vc_is_int_reads:
  assumes "vc_is v 1"
  shows "vc_get_int v = Inr (vc_get_int_or v 0)"
  using assms by (auto simp: vc_is_int vc_get_int_def vc_get_int_or_def)

text \<open>A container with a truth value of its own.\<close>

definition vc_bool :: "value_container \<Rightarrow> bool" where
  "vc_bool v \<longleftrightarrow> i_value v = Some 0 \<or> i_value v = Some 1"

lemma vc_bool_int: "vc_bool v \<Longrightarrow> vc_is v 1"
  by (auto simp: vc_bool_def vc_is_def)

lemma vc_bool_b2i [simp]: "vc_bool (create_int (b2i b) u)" "vc_bool (create_bool b u)" "vc_bool (create_int 0 u)"
  "vc_bool (create_int 1 u)"
  by (simp_all add: vc_bool_def vc_creates b2i_def)

lemma vc_bool_read: "vc_bool v \<Longrightarrow> vc_bool (create_int (vc_get_int_or v 0) u)"
  by (auto simp: vc_bool_def vc_creates vc_get_int_or_def)

lemma vc_bool_true: "vc_bool v \<Longrightarrow> \<not> is_unsure v \<Longrightarrow> vc_is_true v \<longleftrightarrow> tri_of v = TT"
  by (auto simp: vc_bool_def vc_is_true_def tri_of_def vc_get_int_or_def)

lemma int_containers [simp]:
  "vc_is (create_int i u) 1" "vc_is (create_bool b u) 1"
  "vc_get_int_or (create_int i u) d = i" "vc_get_int_or (create_bool b u) d = b2i b"
  "is_unsure (create_int i u) = u" "is_unsure (create_bool b u) = u"
  "create_num (create_int i u) = LInt i u" "create_num (create_bool b u) = LInt (b2i b) u"
  by (simp_all add: vc_creates vc_is_def vc_get_int_or_def create_num_def b2i_def)

lemma tri_of_int [simp]: "tri_of (create_int i u) = (if u then UU else if i \<noteq> 0 then TT else FF)"
  by (simp add: tri_of_def)

lemma b2i_zero [simp]: "b2i b = 0 \<longleftrightarrow> \<not> b"
  by (simp add: b2i_def)

section \<open>The connectives\<close>

lemma operator_and_kleene:
  assumes "o_get l 1 c = (Inr vl, c1)" "vc_is vl 1" and "o_get r 1 c1 = (Inr vr, c2)" "vc_is vr 1"
  shows "\<exists>v. operator_and l r c = (Inr v, if tri_of vl = FF then c1 else c2) \<and> vc_bool v \<and>
    tri_of v = tri_and (tri_of vl) (tri_of vr)"
  using assms by (auto simp: operator_and_def bindE_def vc_is_int_reads tri_of_def b2i_def)

lemma operator_or_kleene:
  assumes "o_get l 1 c = (Inr vl, c1)" "vc_is vl 1" and "o_get r 1 c1 = (Inr vr, c2)" "vc_is vr 1"
  shows "\<exists>v. operator_or l r c = (Inr v, if tri_of vl = TT then c1 else c2) \<and> vc_bool v \<and>
    tri_of v = tri_or (tri_of vl) (tri_of vr)"
  using assms by (auto simp: operator_or_def bindE_def vc_is_int_reads tri_of_def tri_or_def b2i_def)

lemma create_num_int:
  assumes "vc_is v 1"
  shows "create_num v = LInt (vc_get_int_or v 0) (is_unsure v)"
  using assms by (simp add: create_num_def)

lemma o_type_operand_of [simp]: "o_type (operand_of E R n) = node_get_type n"
  by (cases n) (simp_all add: Let_def)

section \<open>Formulas\<close>

datatype 'o bexp = Atom "'o node" | And "'o bexp" "'o bexp" | Or "'o bexp" "'o bexp" | Not "'o bexp"

fun bnode :: "'o bexp \<Rightarrow> 'o node" where
  "bnode (Atom n) = n"
| "bnode (And a b) = BinaryOp type_bool op_and (bnode a) (bnode b)"
| "bnode (Or a b) = BinaryOp type_bool op_or (bnode a) (bnode b)"
| "bnode (Not a) = UnaryOp type_bool op_not (bnode a)"

fun atoms :: "'o bexp \<Rightarrow> 'o node set" where
  "atoms (Atom n) = {n}"
| "atoms (And a b) = atoms a \<union> atoms b"
| "atoms (Or a b) = atoms a \<union> atoms b"
| "atoms (Not a) = atoms a"

fun kleene :: "('o node \<Rightarrow> tri) \<Rightarrow> 'o bexp \<Rightarrow> tri" where
  "kleene \<rho> (Atom n) = \<rho> n"
| "kleene \<rho> (And a b) = tri_and (kleene \<rho> a) (kleene \<rho> b)"
| "kleene \<rho> (Or a b) = tri_or (kleene \<rho> a) (kleene \<rho> b)"
| "kleene \<rho> (Not a) = tri_not (kleene \<rho> a)"

lemma kleene_mono:
  assumes "\<And>n. n \<in> atoms \<phi> \<Longrightarrow> tri_le (\<rho> n) (\<rho>' n)"
  shows "tri_le (kleene \<rho> \<phi>) (kleene \<rho>' \<phi>)"
  using assms by (induction \<phi>) (auto intro: tri_mono)

text \<open>
  \<open>answers I n t\<close>: in every context of \<open>I\<close> the node answers with an integer of truth value \<open>t\<close>
  and stays in \<open>I\<close>.
\<close>

definition answers :: "env \<Rightarrow> 'o registry \<Rightarrow> ('o ctx \<Rightarrow> bool) \<Rightarrow> 'o node \<Rightarrow> tri \<Rightarrow> bool" where
  "answers E R I n t \<longleftrightarrow> (\<forall>c. I c \<longrightarrow>
     (\<exists>v c'. get_value E R n 1 c = (Inr v, c') \<and> I c' \<and> vc_bool v \<and> tri_of v = t))"

lemma answersE:
  assumes "answers E R I n t" "I c"
  obtains v c' where "get_value E R n 1 c = (Inr v, c')" "I c'" "vc_bool v" "tri_of v = t"
  using assms unfolding answers_def by blast

lemma answers_and:
  assumes "answers E R I l a" "answers E R I r b" "type_is_int (node_get_type l)" "type_is_int (node_get_type r)"
  shows "answers E R I (BinaryOp type_bool op_and l r) (tri_and a b)"
  unfolding answers_def
proof (intro allI impI)
  fix c assume "I c"
  obtain vl c1 where l: "get_value E R l 1 c = (Inr vl, c1)" "I c1" "vc_bool vl" "tri_of vl = a"
    using assms(1) \<open>I c\<close> by (rule answersE)
  obtain vr c2 where r: "get_value E R r 1 c1 = (Inr vr, c2)" "I c2" "vc_bool vr" "tri_of vr = b"
    using assms(2) \<open>I c1\<close> by (rule answersE)
  obtain v c' where v: "operator_and (operand_of E R l) (operand_of E R r) c = (Inr v, c')" "I c'" "vc_bool v"
      "tri_of v = tri_and a b"
    using operator_and_kleene [OF l(1) vc_bool_int [OF l(3)] r(1) vc_bool_int [OF r(3)]] l r by (metis (full_types))
  with assms(3,4) show "\<exists>v c'. get_value E R (BinaryOp type_bool op_and l r) 1 c = (Inr v, c') \<and> I c' \<and>
      vc_bool v \<and> tri_of v = tri_and a b"
    by (auto simp: binary_op_evaluate_def binary_operator_evaluate_def simple_int_evaluate_def bindE_def
        create_num_int int_value_get_value_def tri_of_def vc_bool_int vc_bool_read)
qed

lemma answers_or:
  assumes "answers E R I l a" "answers E R I r b" "type_is_int (node_get_type l)" "type_is_int (node_get_type r)"
  shows "answers E R I (BinaryOp type_bool op_or l r) (tri_or a b)"
  unfolding answers_def
proof (intro allI impI)
  fix c assume "I c"
  obtain vl c1 where l: "get_value E R l 1 c = (Inr vl, c1)" "I c1" "vc_bool vl" "tri_of vl = a"
    using assms(1) \<open>I c\<close> by (rule answersE)
  obtain vr c2 where r: "get_value E R r 1 c1 = (Inr vr, c2)" "I c2" "vc_bool vr" "tri_of vr = b"
    using assms(2) \<open>I c1\<close> by (rule answersE)
  obtain v c' where v: "operator_or (operand_of E R l) (operand_of E R r) c = (Inr v, c')" "I c'" "vc_bool v"
      "tri_of v = tri_or a b"
    using operator_or_kleene [OF l(1) vc_bool_int [OF l(3)] r(1) vc_bool_int [OF r(3)]] l r by (metis (full_types))
  with assms(3,4) show "\<exists>v c'. get_value E R (BinaryOp type_bool op_or l r) 1 c = (Inr v, c') \<and> I c' \<and>
      vc_bool v \<and> tri_of v = tri_or a b"
    by (auto simp: binary_op_evaluate_def binary_operator_evaluate_def simple_int_evaluate_def bindE_def
        create_num_int int_value_get_value_def tri_of_def vc_bool_int vc_bool_read)
qed

lemma answers_not:
  assumes "answers E R I s a" "node_get_type s = type_bool"
  shows "answers E R I (UnaryOp type_bool op_not s) (tri_not a)"
  unfolding answers_def
proof (intro allI impI)
  fix c assume "I c"
  obtain v c1 where s: "get_value E R s 1 c = (Inr v, c1)" "I c1" "vc_bool v" "tri_of v = a"
    using assms(1) \<open>I c\<close> by (rule answersE)
  with assms(2) show "\<exists>v c'. get_value E R (UnaryOp type_bool op_not s) 1 c = (Inr v, c') \<and> I c' \<and> vc_bool v \<and>
      tri_of v = tri_not a"
    by (auto simp: unary_op_evaluate_def operator_not_def get_return_type_def bindE_def int_value_get_value_def tri_of_def vc_bool_int)
qed

lemma bnode_type: "\<forall>n \<in> atoms \<phi>. node_get_type n = type_bool \<Longrightarrow> node_get_type (bnode \<phi>) = type_bool"
  by (cases \<phi>) auto

lemma answers_kleene:
  assumes "\<forall>n \<in> atoms \<phi>. node_get_type n = type_bool \<and> answers E R I n (\<rho> n)"
  shows "answers E R I (bnode \<phi>) (kleene \<rho> \<phi>)"
  using assms by (induction \<phi>) (auto intro!: answers_and answers_or answers_not simp: bnode_type)

section \<open>Comparisons of known operands\<close>

fun comparison_of :: "operators \<Rightarrow> comparison" where
  "comparison_of op_eq = operator_eq"
| "comparison_of op_ne = operator_ne"
| "comparison_of op_gt = operator_gt"
| "comparison_of op_lt = operator_lt"
| "comparison_of op_le = operator_le"
| "comparison_of _ = operator_ge"

text \<open>
  \<open>reads I n f\<close>: in every context of \<open>I\<close> the node gives \<open>f t\<close> when asked for type \<open>t\<close>.
\<close>

definition reads :: "env \<Rightarrow> 'o registry \<Rightarrow> ('o ctx \<Rightarrow> bool) \<Rightarrow> 'o node \<Rightarrow> (value_type \<Rightarrow> value_container) \<Rightarrow> bool" where
  "reads E R I n f \<longleftrightarrow> (\<forall>t c. I c \<longrightarrow> (\<exists>c'. get_value E R n t c = (Inr (f t), c') \<and> I c'))"

lemma readsE:
  assumes "reads E R I n f" "I c"
  obtains c' where "get_value E R n t c = (Inr (f t), c')" "I c'"
  using assms unfolding reads_def by blast

text \<open>The result of a comparison method on the two containers.\<close>

definition compared :: "value_type \<Rightarrow> ('a \<Rightarrow> 'a \<Rightarrow> bool) \<Rightarrow> (value_container \<Rightarrow> 'a res) \<Rightarrow> value_container \<Rightarrow> value_container
    \<Rightarrow> value_container" where
  "compared t cmp rd a b =
     (if \<not> vc_is a t \<or> \<not> vc_is b t then create_int 0 True
      else if is_no_value a \<or> is_no_value b then create_int 0 False
      else create_int (case (rd a, rd b) of (Inr x, Inr y) \<Rightarrow> b2i (cmp x y) | _ \<Rightarrow> 0) (is_unsure a \<or> is_unsure b))"

lemma compared_bool [simp]: "vc_bool (compared t cmp rd a b)" "vc_is (compared t cmp rd a b) 1"
  by (auto simp: compared_def split: sum.split intro!: vc_bool_b2i)

lemma rd_total:
  "vc_is v 1 \<Longrightarrow> \<exists>x. vc_get_int v = Inr x" "vc_is v 3 \<Longrightarrow> \<exists>x. vc_get_float v = Inr x"
  "vc_is v 10 \<Longrightarrow> \<exists>x. vc_get_string v = Inr x"
  by (auto simp: vc_is_def vc_get_int_def vc_get_float_def vc_get_string_def split: option.splits)

lemma even_simpler_reads:
  assumes l: "reads E R I l f" and r: "reads E R I r g" and I: "\<And>c es. I c \<Longrightarrow> I (c\<lparr>errors := es\<rparr>)"
    and rd: "\<And>v. vc_is v t \<Longrightarrow> \<exists>x. rd v = Inr x" and "I c"
  shows "\<exists>c'. even_simpler_eval t (compare_with cmp rd) (operand_of E R l) (operand_of E R r) c =
    (Inr (compared t cmp rd (f t) (g t)), c') \<and> I c'"
proof -
  obtain c1 where c1: "get_value E R l t c = (Inr (f t), c1)" "I c1" using l \<open>I c\<close> by (rule readsE)
  obtain c2 where c2: "get_value E R r t c1 = (Inr (g t), c2)" "I c2" using r c1(2) by (rule readsE)
  show ?thesis
  proof (cases "vc_is (f t) t \<and> vc_is (g t) t")
    case True
    with rd obtain x y where "rd (f t) = Inr x" "rd (g t) = Inr y" by blast
    with c1 c2 True show ?thesis
      by (simp add: even_simpler_eval_def bindE_def compared_def compare_with_def)
  next
    case False
    with c1 c2 I show ?thesis
      by (auto simp: even_simpler_eval_def bindE_def compared_def invalid_unsure_def ctx_error_def)
  qed
qed

definition cmp_tri :: "comparison \<Rightarrow> value_type \<Rightarrow> value_type \<Rightarrow> (value_type \<Rightarrow> value_container)
    \<Rightarrow> (value_type \<Rightarrow> value_container) \<Rightarrow> tri" where
  "cmp_tri K lt rt f g =
     (if type_is_int lt \<and> type_is_int rt then tri_of (compared 1 (cmp_int K) vc_get_int (f 1) (g 1))
      else if type_is_float lt \<and> type_is_float rt then tri_of (compared 3 (cmp_float K) vc_get_float (f 3) (g 3))
      else if lt \<noteq> rt \<and> rt \<noteq> type_tbd then FF
      else if type_is_int lt then tri_of (compared 1 (cmp_int K) vc_get_int (f 1) (g 1))
      else if type_is_float lt then tri_of (compared 3 (cmp_float K) vc_get_float (f 3) (g 3))
      else if lt = type_string then tri_of (compared 10 (cmp_string K) vc_get_string (f 10) (g 10))
      else FF)"

lemma answers_comparison:
  assumes l: "reads E R I l f" and r: "reads E R I r g" and I: "\<And>c es. I c \<Longrightarrow> I (c\<lparr>errors := es\<rparr>)"
    and op: "is_comparison_operator op"
  shows "answers E R I (BinaryOp type_bool op l r) (cmp_tri (comparison_of op) (node_get_type l) (node_get_type r) f g)"
  unfolding answers_def
proof (intro allI impI)
  fix c assume "I c"
  define K where "K = comparison_of op"
  note ev = even_simpler_reads [OF l r I _ \<open>I c\<close>]
  obtain ci where i: "even_simpler_eval 1 (compare_with (cmp_int K) vc_get_int) (operand_of E R l) (operand_of E R r) c =
      (Inr (compared 1 (cmp_int K) vc_get_int (f 1) (g 1)), ci)" "I ci"
    using ev [of 1 vc_get_int "cmp_int K"] rd_total(1) by blast
  obtain cf where fl: "even_simpler_eval 3 (compare_with (cmp_float K) vc_get_float) (operand_of E R l) (operand_of E R r) c =
      (Inr (compared 3 (cmp_float K) vc_get_float (f 3) (g 3)), cf)" "I cf"
    using ev [of 3 vc_get_float "cmp_float K"] rd_total(2) by blast
  obtain cs where s: "even_simpler_eval 10 (compare_with (cmp_string K) vc_get_string) (operand_of E R l) (operand_of E R r) c =
      (Inr (compared 10 (cmp_string K) vc_get_string (f 10) (g 10)), cs)" "I cs"
    using ev [of 10 vc_get_string "cmp_string K"] rd_total(3) by blast
  have b: "binary_op_evaluate E 2 op (operand_of E R l) (operand_of E R r) =
      simple_bool_evaluate (even_simpler_bool_binary_operator_impl K) (operand_of E R l) (operand_of E R r)"
    using op by (cases op) (simp_all add: is_comparison_operator_def binary_op_evaluate_def
        binary_operator_evaluate_def K_def Let_def)
  show "\<exists>v c'. get_value E R (BinaryOp type_bool op l r) 1 c = (Inr v, c') \<and> I c' \<and> vc_bool v \<and>
      tri_of v = cmp_tri (comparison_of op) (node_get_type l) (node_get_type r) f g"
    using i fl s I [OF \<open>I c\<close>]
    by (simp add: b K_def [symmetric] cmp_tri_def simple_bool_evaluate_def Let_def
        even_simpler_bool_binary_operator_impl_def bindE_def create_num_int error_false_def ctx_error_def
        create_false_def int_value_get_value_def tri_of_def vc_bool_read)
qed

text \<open>An operand that is unsure, or the same in both contexts, keeps a comparison sound.\<close>

definition tracks :: "(value_type \<Rightarrow> value_container) \<Rightarrow> (value_type \<Rightarrow> value_container) \<Rightarrow> bool" where
  "tracks f f' \<longleftrightarrow> (\<forall>t \<in> {type_int, type_float, type_string}. \<not> is_no_value (f t) \<and> (is_unsure (f t) \<or> f' t = f t))"

lemma compared_unsure:
  "\<not> is_no_value a \<Longrightarrow> \<not> is_no_value b \<Longrightarrow> is_unsure a \<or> is_unsure b \<Longrightarrow> tri_of (compared t cmp rd a b) = UU"
  by (simp add: compared_def)

lemma compared_tracks:
  assumes "tracks f f'" "tracks g g'" "t \<in> {type_int, type_float, type_string}"
  shows "tri_le (tri_of (compared t cmp rd (f t) (g t))) (tri_of (compared t cmp rd (f' t) (g' t)))"
proof (cases "is_unsure (f t) \<or> is_unsure (g t)")
  case True
  with assms have "tri_of (compared t cmp rd (f t) (g t)) = UU"
    by (intro compared_unsure) (auto simp: tracks_def)
  then show ?thesis by (simp add: tri_le_def)
next
  case False
  with assms have "f' t = f t" "g' t = g t" unfolding tracks_def by blast+
  then show ?thesis by (simp add: tri_le_def)
qed

lemma cmp_tri_tracks:
  assumes "tracks f f'" "tracks g g'"
  shows "tri_le (cmp_tri K lt rt f g) (cmp_tri K lt rt f' g')"
  using compared_tracks [OF assms, of type_int "cmp_int K" vc_get_int]
    compared_tracks [OF assms, of type_float "cmp_float K" vc_get_float]
    compared_tracks [OF assms, of type_string "cmp_string K" vc_get_string]
  by (simp add: cmp_tri_def tri_le_def [of FF])

section \<open>Operands without a record\<close>

text \<open>An accessor that reads the record and nothing else.\<close>

definition pure_accessor :: "('o, 'a) accessor \<Rightarrow> bool" where
  "pure_accessor fn \<longleftrightarrow> (\<forall>f. fn = Some f \<longrightarrow> (\<exists>g. \<forall>x c. f x c = (Inr (g x), c)))"

fun simple_operand :: "'o node \<Rightarrow> bool" where
  "simple_operand (StringValue _ _ _) = True"
| "simple_operand (IntValue _ _ _) = True"
| "simple_operand (FloatValue _ _ _) = True"
| "simple_operand (IntVar _ _ fn) = pure_accessor fn"
| "simple_operand (FloatVar _ _ fn) = pure_accessor fn"
| "simple_operand (StrVar _ _ _ fn) = pure_accessor fn"
| "simple_operand (DualVar _ _ _ i f s) = (pure_accessor i \<and> pure_accessor f \<and> pure_accessor s)"
| "simple_operand (OptIntVar _ _ _ _ fn) = pure_accessor fn"
| "simple_operand (SummaryInt _ _ _) = True"
| "simple_operand _ = False"

text \<open>\<^verbatim>\<open>lexical_cast\<close> fails with a \<^verbatim>\<open>std::exception\<close>.\<close>

definition stox_std :: "env \<Rightarrow> bool" where
  "stox_std E \<longleftrightarrow> (\<forall>s e. stox_double E s = Inl e \<longrightarrow> is_std_exception e) \<and>
     (\<forall>s e. stox_int E s = Inl e \<longrightarrow> is_std_exception e)"

definition situated :: "'o option \<Rightarrow> generic_summary option \<Rightarrow> 'o ctx \<Rightarrow> bool" where
  "situated x s c \<longleftrightarrow> object c = x \<and> summary c = s"

lemma situated_simps [simp]:
  "situated x s (c\<lparr>errors := es\<rparr>) = situated x s c" "situated x s (c\<lparr>warnings := ws\<rparr>) = situated x s c"
  "situated x s (c\<lparr>warned_not_numeric := w\<rparr>) = situated x s c"
  by (simp_all add: situated_def)

definition sound_operand :: "env \<Rightarrow> 'o registry \<Rightarrow> generic_summary option \<Rightarrow> 'o \<Rightarrow> 'o node \<Rightarrow> bool" where
  "sound_operand E R s x n \<longleftrightarrow> (\<exists>f f'. reads E R (situated None s) n f \<and> reads E R (situated (Some x) s) n f' \<and> tracks f f')"

lemma sound_operandI:
  assumes "\<And>t c. situated None s c \<Longrightarrow> \<exists>c'. get_value E R n t c = (Inr (f t), c') \<and> situated None s c'"
    and "\<And>t c. situated (Some x) s c \<Longrightarrow> \<exists>c'. get_value E R n t c = (Inr (f' t), c') \<and> situated (Some x) s c'"
    and "tracks f f'"
  shows "sound_operand E R s x n"
  unfolding sound_operand_def reads_def using assms by blast

lemma tracks_refl: "(\<And>t. \<not> is_no_value (f t)) \<Longrightarrow> tracks f f"
  by (simp add: tracks_def)

lemma nil_flags [simp]: "\<not> is_no_value (create_nil u)" "is_unsure (create_nil u) = u"
  "\<not> is_no_value (create_int i u)" "\<not> is_no_value (create_float d u)" "\<not> is_no_value (create_string w u)"
  "is_unsure (create_float d u) = u" "is_unsure (create_string w u) = u"
  by (simp_all add: vc_creates)

definition string_read :: "env \<Rightarrow> string \<Rightarrow> bool \<Rightarrow> value_type \<Rightarrow> value_container" where
  "string_read E v u t =
     (if t = type_float then (case stox_double E v of Inr d \<Rightarrow> create_float d u | Inl _ \<Rightarrow> create_nil False)
      else if t = type_int then (case stox_int E v of Inr i \<Rightarrow> create_int i u | Inl _ \<Rightarrow> create_nil False)
      else if t = type_string then create_string v u else create_nil False)"

definition int_read :: "int \<Rightarrow> bool \<Rightarrow> value_type \<Rightarrow> value_container" where
  "int_read v u t = (if t = type_float then create_float (d_of_int v) u else if t = type_int then create_int v u
     else if t = type_string then create_string (xtos_int v) u else create_nil False)"

definition float_read :: "double \<Rightarrow> bool \<Rightarrow> value_type \<Rightarrow> value_container" where
  "float_read v u t = (if t = type_float then create_float v u
     else if t = type_int then create_int (to_int64_saturating v) (u \<or> \<not> fits_int64 v)
     else if t = type_string then create_string (xtos_double v) u else create_nil False)"

lemma sound_literals:
  "stox_std E \<Longrightarrow> sound_operand E R s x (StringValue ty v u)"
  "sound_operand E R s x (IntValue ty i u)"
  "sound_operand E R s x (FloatValue ty d u)"
proof -
  assume "stox_std E"
  then show "sound_operand E R s x (StringValue ty v u)"
    by (intro sound_operandI [where f = "string_read E v u" and f' = "string_read E v u"])
      (auto simp: string_value_get_value_def string_read_def ctx_error_def stox_std_def tracks_refl seqE_def bindE_def
        split: sum.split)
next
  show "sound_operand E R s x (IntValue ty i u)"
    by (intro sound_operandI [where f = "int_read i u" and f' = "int_read i u"])
      (auto simp: int_value_get_value_def int_read_def ctx_error_def tracks_refl)
  show "sound_operand E R s x (FloatValue ty d u)"
    by (intro sound_operandI [where f = "float_read d u" and f' = "float_read d u"])
      (auto simp: float_value_get_value_def float_read_def ctx_error_def tracks_refl)
qed

lemma pure_accessorE:
  assumes "pure_accessor fn" "fn = Some f"
  obtains g where "\<And>x c. f x c = (Inr (g x), c)"
  using assms unfolding pure_accessor_def by blast

definition unsure_read :: "value_type \<Rightarrow> value_container" where
  "unsure_read t = (if type_is_int t then create_int 0 True else if type_is_float t then create_float d_zero True
     else create_string [] True)"

lemma tracks_unsure: "tracks unsure_read f"
  by (simp add: tracks_def unsure_read_def)

text \<open>A number variable refuses the text type; otherwise it is unsure without a record.\<close>

definition number_read :: "(bool \<Rightarrow> value_container) \<Rightarrow> value_type \<Rightarrow> value_container" where
  "number_read v t = (if type_is_int t \<or> type_is_float t then v (type_is_int t) else create_nil False)"

definition unsure_number_read :: "value_type \<Rightarrow> value_container" where
  "unsure_number_read = number_read (\<lambda>ti. if ti then create_int 0 True else create_float d_zero True)"

lemma tracks_number: "tracks unsure_number_read (number_read v)"
  by (auto simp: tracks_def unsure_number_read_def number_read_def)

lemma sound_int_var:
  assumes "pure_accessor fn"
  shows "sound_operand E R s x (IntVar ty name fn)"
proof (cases fn)
  case None
  show ?thesis
    by (rule sound_operandI [OF _ _ tracks_number [of "\<lambda>ti. if ti then create_int 0 True else create_float d_zero True"]])
      (auto simp: None int_variable_get_value_def with_object_def catch_std_def unsure_number_def unsure_number_read_def
        number_read_def nil_error_def ctx_warn_def ctx_error_def)
next
  case (Some f)
  obtain g where g: "\<And>x c. f x c = (Inr (g x), c)" using assms Some by (rule pure_accessorE) blast
  show ?thesis
    by (rule sound_operandI [OF _ _ tracks_number [of "\<lambda>ti. if ti then create_int (g x) False
        else create_float (d_of_int (g x)) False"]])
      (auto simp: Some g situated_def int_variable_get_value_def with_object_def catch_std_def unsure_number_def
        unsure_number_read_def number_read_def nil_error_def ctx_warn_def ctx_error_def number_of_int_def bindE_def)
qed

lemma sound_float_var:
  assumes "pure_accessor fn"
  shows "sound_operand E R s x (FloatVar ty name fn)"
proof (cases fn)
  case None
  show ?thesis
    by (rule sound_operandI [OF _ _ tracks_number [of "\<lambda>ti. if ti then create_int 0 True else create_float d_zero True"]])
      (auto simp: None float_variable_get_value_def with_object_def catch_std_def unsure_number_def unsure_number_read_def
        number_read_def nil_error_def ctx_warn_def ctx_error_def)
next
  case (Some f)
  obtain g where g: "\<And>x c. f x c = (Inr (g x), c)" using assms Some by (rule pure_accessorE) blast
  show ?thesis
    by (rule sound_operandI [OF _ _ tracks_number [of "\<lambda>ti. if ti then
          create_int (to_int64_saturating (g x)) (\<not> fits_int64 (g x)) else create_float (g x) False"]])
      (auto simp: Some g situated_def float_variable_get_value_def with_object_def catch_std_def unsure_number_def
        unsure_number_read_def number_read_def nil_error_def ctx_warn_def ctx_error_def bindE_def)
qed

text \<open>The other variables answer every type unsurely without a record.\<close>

lemma sound_multi:
  fixes x :: 'o
  assumes "\<And>t c. object c = None \<Longrightarrow> \<exists>ws. get_value E R n t c = (Inr (unsure_read t), c\<lparr>warnings := ws\<rparr>)"
    and "\<And>t c. object c = Some x \<Longrightarrow> \<exists>c'. get_value E R n t c = (Inr (f' t), c') \<and> object c' = Some x \<and> summary c' = summary c"
  shows "sound_operand E R s x n"
proof (rule sound_operandI [OF _ _ tracks_unsure])
  fix t and c :: "'o ctx" assume "situated None s c"
  with assms(1) [of c t] show "\<exists>c'. get_value E R n t c = (Inr (unsure_read t), c') \<and> situated None s c'"
    by (auto simp: situated_def)
next
  fix t and c :: "'o ctx" assume "situated (Some x) s c"
  with assms(2) [of c t] show "\<exists>c'. get_value E R n t c = (Inr (f' t), c') \<and> situated (Some x) s c'"
    by (auto simp: situated_def)
qed

definition str_number_read :: "env \<Rightarrow> string \<Rightarrow> bool \<Rightarrow> value_container" where
  "str_number_read E v ti = (case stox_double E (trim_copy E v) of
     Inr d \<Rightarrow> if ti then create_int (llround E d) False else create_float d False
   | Inl _ \<Rightarrow> create_no_value)"

lemma str_variable_number_reads:
  assumes "stox_std E"
  shows "\<exists>c'. str_variable_number E nid name v ti c = (Inr (str_number_read E v ti), c') \<and> object c' = object c \<and>
    summary c' = summary c"
  using assms
  by (auto simp: str_variable_number_def str_number_read_def catch_std_def bindE_def seqE_def ctx_warn_def stox_std_def
      split: sum.split)

lemma sound_str_var:
  assumes "pure_accessor fn" "stox_std E"
  shows "sound_operand E R s x (StrVar ty nid name fn)"
proof (cases fn)
  case None
  show ?thesis
    by (rule sound_multi [where f' = unsure_read])
      (auto simp: None str_variable_get_value_def with_object_def catch_std_def ctx_warn_def unsure_read_def)
next
  case (Some f)
  obtain g where g: "\<And>x c. f x c = (Inr (g x), c)" using assms(1) Some by (rule pure_accessorE) blast
  have "\<exists>c'. str_variable_get_value E nid name fn t c = (Inr (if t = type_string then create_string (g x) False
        else if type_is_int t \<or> type_is_float t then str_number_read E (g x) (type_is_int t) else create_nil False), c') \<and>
      object c' = object c \<and> summary c' = summary c" if "object c = Some x" for t c
    using str_variable_number_reads [OF assms(2), of nid name "g x" "type_is_int t" c] that
    by (auto simp: Some g str_variable_get_value_def with_object_def catch_std_def nil_error_def ctx_error_def bindE_def)
  then show ?thesis
    by (intro sound_multi [where f' = "\<lambda>t. if t = type_string then create_string (g x) False
        else if type_is_int t \<or> type_is_float t then str_number_read E (g x) (type_is_int t) else create_nil False"])
      (auto simp: Some str_variable_get_value_def with_object_def catch_std_def ctx_warn_def unsure_read_def)
qed

lemma sound_optional_var:
  assumes "pure_accessor fn"
  shows "sound_operand E R s x (OptIntVar ty name nt nv fn)"
proof (cases fn)
  case None
  show ?thesis
    by (rule sound_multi [where f' = unsure_read])
      (auto simp: None optional_int_variable_get_value_def with_object_def catch_std_def ctx_warn_def unsure_read_def)
next
  case (Some f)
  obtain g where g: "\<And>x c. f x c = (Inr (g x), c)" using assms Some by (rule pure_accessorE) blast
  show ?thesis
    by (rule sound_multi [where f' = "\<lambda>t.
          if type_is_int t then (case g x of Some i \<Rightarrow> create_int i False | None \<Rightarrow> create_no_value)
          else if type_is_float t then (case g x of Some i \<Rightarrow> create_float (d_of_int i) False | None \<Rightarrow> create_no_value)
          else if t = type_string then create_string (case g x of Some i \<Rightarrow> xtos_int i | None \<Rightarrow> nv) False
          else create_nil False"])
      (auto simp: Some g optional_int_variable_get_value_def with_object_def catch_std_def ctx_warn_def ctx_error_def
        nil_error_def unsure_read_def bindE_def)
qed

definition dual_unsure_read :: "value_type \<Rightarrow> value_container" where
  "dual_unsure_read t = (if type_is_int t then create_int 0 True else if type_is_float t then create_float d_zero True
     else if t = type_string then create_string [] True else create_nil False)"

lemma tracks_dual: "tracks dual_unsure_read f"
  by (simp add: tracks_def dual_unsure_read_def)

lemma same_errors [simp]: "\<exists>es. c = c\<lparr>errors := es\<rparr>"
  by (rule exI [of _ "errors c"]) simp

lemma dual_variable_of_reads:
  assumes "pure_accessor i" "pure_accessor f" "pure_accessor w"
  shows "\<exists>g. \<forall>t c. \<exists>es. dual_variable_of ty name i f w t x c = (Inr (g t), c\<lparr>errors := es\<rparr>)"
proof -
  have p: "\<exists>v. \<forall>c. the fn x c = (Inr v, c)" if "pure_accessor fn" "fn \<noteq> None" for fn :: "('a, 'b) accessor"
    using that unfolding pure_accessor_def by (metis option.exhaust_sel)
  obtain vi where vi: "\<And>c. i \<noteq> None \<Longrightarrow> the i x c = (Inr vi, c)" using p [OF assms(1)] by metis
  obtain vf where vf: "\<And>c. f \<noteq> None \<Longrightarrow> the f x c = (Inr vf, c)" using p [OF assms(2)] by metis
  obtain vs where vs: "\<And>c. w \<noteq> None \<Longrightarrow> the w x c = (Inr vs, c)" using p [OF assms(3)] by metis
  show ?thesis
    by (rule exI [of _ "\<lambda>t. if type_is_int t \<and> i \<noteq> None then create_int vi False
        else if type_is_float t \<and> f \<noteq> None then create_float vf False
        else if type_is_float t \<and> i \<noteq> None then create_float (d_of_int vi) False
        else if t = type_string \<and> w \<noteq> None then create_string vs False
        else if t = type_string \<and> i \<noteq> None \<and> (type_is_int ty \<or> f = None) then create_string (xtos_int vi) False
        else if t = type_string \<and> f \<noteq> None then create_string (xtos_double vf) False
        else create_nil False"])
      (auto simp: dual_variable_of_def vi vf vs bindE_def nil_error_def ctx_error_def)
qed

lemma sound_dual_var:
  assumes "pure_accessor i" "pure_accessor f" "pure_accessor w"
  shows "sound_operand E R s x (DualVar ty name fb i f w)"
proof -
  obtain g where g: "\<And>t c. \<exists>es. dual_variable_of ty name i f w t x c = (Inr (g t), c\<lparr>errors := es\<rparr>)"
    using dual_variable_of_reads [OF assms] by metis
  show ?thesis
  proof (rule sound_operandI [OF _ _ tracks_dual])
    show "\<exists>c'. get_value E R (DualVar ty name fb i f w) t c = (Inr (dual_unsure_read t), c') \<and> situated None s c'"
      if "situated None s c" for t c
      using that by (auto simp: situated_def dual_variable_get_value_def catch_std_def ctx_warn_def ctx_error_def
          nil_error_def dual_unsure_read_def)
    show "\<exists>c'. get_value E R (DualVar ty name fb i f w) t c = (Inr (g t), c') \<and> situated (Some x) s c'"
      if "situated (Some x) s c" for t c
      using that g [of t c] by (auto simp: situated_def dual_variable_get_value_def catch_std_def)
  qed
qed

lemma sound_summary_int: "sound_operand E R s x (SummaryInt ty name fn)"
proof (cases "fn = None \<or> s = None")
  case True
  then show ?thesis
    by (intro sound_operandI [where f = "\<lambda>_. create_nil False" and f' = "\<lambda>_. create_nil False"])
      (auto simp: summary_int_get_value_def catch_std_def nil_error_def ctx_error_def get_summary_def situated_def
        bindE_def failed_to_evaluate_def bad_optional_access_def tracks_refl split: option.splits)
next
  case False
  then obtain f m where "fn = Some f" "s = Some m" by auto
  then show ?thesis
    by (intro sound_operandI [where f = "\<lambda>t. if t = type_int then create_int (f m) False else create_nil False"
          and f' = "\<lambda>t. if t = type_int then create_int (f m) False else create_nil False"])
      (auto simp: summary_int_get_value_def catch_std_def nil_error_def ctx_error_def get_summary_def situated_def
        bindE_def tracks_def)
qed

lemma sound_simple:
  assumes "stox_std E" "simple_operand n"
  shows "sound_operand E R s x n"
  using assms
  by (cases n) (auto intro: sound_literals sound_int_var sound_float_var sound_str_var sound_optional_var sound_dual_var
      sound_summary_int)

section \<open>Sure verdicts\<close>

text \<open>A comparison of literals and variables, and a filter built from such comparisons.\<close>

fun comparison_node :: "'o node \<Rightarrow> bool" where
  "comparison_node (BinaryOp t op l r) =
     (t = type_bool \<and> is_comparison_operator op \<and> simple_operand l \<and> simple_operand r)"
| "comparison_node _ = False"

lemma comparison_node_type: "comparison_node n \<Longrightarrow> node_get_type n = type_bool"
  by (cases n rule: comparison_node.cases) auto

lemma comparison_sound:
  assumes "stox_std E" "comparison_node n"
  shows "\<exists>t t'. answers E R (situated None s) n t \<and> answers E R (situated (Some x) s) n t' \<and> tri_le t t'"
proof -
  obtain op l r where n: "n = BinaryOp type_bool op l r" "is_comparison_operator op" "simple_operand l" "simple_operand r"
    using assms(2) by (cases n rule: comparison_node.cases) auto
  obtain f f' where f: "reads E R (situated None s) l f" "reads E R (situated (Some x) s) l f'" "tracks f f'"
    using sound_simple [OF assms(1) n(3)] unfolding sound_operand_def by blast
  obtain g g' where g: "reads E R (situated None s) r g" "reads E R (situated (Some x) s) r g'" "tracks g g'"
    using sound_simple [OF assms(1) n(4)] unfolding sound_operand_def by blast
  have "answers E R (situated None s) n (cmp_tri (comparison_of op) (node_get_type l) (node_get_type r) f g)"
    unfolding n(1) by (rule answers_comparison [OF f(1) g(1) _ n(2)]) simp
  moreover have "answers E R (situated (Some x) s) n (cmp_tri (comparison_of op) (node_get_type l) (node_get_type r) f' g')"
    unfolding n(1) by (rule answers_comparison [OF f(2) g(2) _ n(2)]) simp
  ultimately show ?thesis using cmp_tri_tracks [OF f(3) g(3)] by blast
qed

lemma formula_sound:
  assumes "stox_std E" "\<forall>n \<in> atoms \<phi>. comparison_node n"
  shows "\<exists>t t'. answers E R (situated None s) (bnode \<phi>) t \<and> answers E R (situated (Some x) s) (bnode \<phi>) t' \<and> tri_le t t'"
proof -
  let ?P = "\<lambda>n t t'. answers E R (situated None s) n t \<and> answers E R (situated (Some x) s) n t' \<and> tri_le t t'"
  have "\<forall>n \<in> atoms \<phi>. \<exists>p. ?P n (fst p) (snd p)"
    using assms(2) comparison_sound [OF assms(1), of _ R s x] by simp
  then obtain \<pi> where "\<forall>n \<in> atoms \<phi>. ?P n (fst (\<pi> n)) (snd (\<pi> n))" using bchoice by meson
  then have a: "?P n (fst (\<pi> n)) (snd (\<pi> n))" if "n \<in> atoms \<phi>" for n using that by (rule bspec)
  have b: "node_get_type n = type_bool" if "n \<in> atoms \<phi>" for n
    using assms(2) that comparison_node_type by (metis (no_types))
  have "answers E R (situated None s) (bnode \<phi>) (kleene (\<lambda>n. fst (\<pi> n)) \<phi>)"
    by (rule answers_kleene) (simp add: a b)
  moreover have "answers E R (situated (Some x) s) (bnode \<phi>) (kleene (\<lambda>n. snd (\<pi> n)) \<phi>)"
    by (rule answers_kleene) (simp add: a b)
  moreover have "tri_le (kleene (\<lambda>n. fst (\<pi> n)) \<phi>) (kleene (\<lambda>n. snd (\<pi> n)) \<phi>)"
    by (rule kleene_mono) (simp add: a)
  ultimately show ?thesis by (intro exI conjI)
qed

lemma parser_evaluate_operator:
  assumes "get_value E R (bnode \<phi>) type_int c = (Inr v, c')" and "\<forall>n \<in> atoms \<phi>. comparison_node n"
  shows "parser_evaluate E R (bnode \<phi>) c = (Inr v, c')"
proof -
  have "(\<exists>op l r. bnode \<phi> = BinaryOp type_bool op l r) \<or> (\<exists>op s. bnode \<phi> = UnaryOp type_bool op s)"
    using assms(2) by (cases \<phi>) (auto elim!: comparison_node.elims(2))
  with assms(1) show ?thesis
    by (auto simp: parser_evaluate_def leaf_item_def bindE_assoc catch_all_def)
qed

lemma formula_verdicts:
  assumes "stox_std E" "\<forall>n \<in> atoms \<phi>. comparison_node n"
    and "object c = None" "object d = Some x" "summary d = summary c"
  obtains v c' w d' where "parser_evaluate E R (bnode \<phi>) c = (Inr v, c')" "vc_bool v"
    "parser_evaluate E R (bnode \<phi>) d = (Inr w, d')" "vc_bool w" "tri_le (tri_of v) (tri_of w)"
proof -
  obtain t t' where a: "answers E R (situated None (summary c)) (bnode \<phi>) t"
      "answers E R (situated (Some x) (summary c)) (bnode \<phi>) t'" "tri_le t t'"
    using formula_sound [OF assms(1,2), of R "summary c" x] by auto
  have c: "situated None (summary c) c" and d: "situated (Some x) (summary c) d"
    using assms(3-5) by (simp_all add: situated_def)
  obtain v c' where v: "get_value E R (bnode \<phi>) type_int c = (Inr v, c')" "vc_bool v" "tri_of v = t"
    using a(1) c by (rule answersE)
  obtain w d' where w: "get_value E R (bnode \<phi>) type_int d = (Inr w, d')" "vc_bool w" "tri_of w = t'"
    using a(2) d by (rule answersE)
  show ?thesis
    using that [OF parser_evaluate_operator [OF v(1) assms(2)] v(2) parser_evaluate_operator [OF w(1) assms(2)] w(2)]
      a(3) v(3) w(3) by simp
qed

section \<open>Properties\<close>

text \<open>
  C3. The connectives of the filter language compute strong Kleene logic with unsure as the
  third value: whatever the truth values the comparisons of a formula answer with (in the
  contexts of an invariant \<open>I\<close>), the tree of the formula answers with the Kleene value of
  the formula.
\<close>

theorem connectives_are_kleene:
  assumes "\<forall>n \<in> atoms \<phi>. node_get_type n = type_bool \<and> answers E R I n (\<rho> n)" and "I c"
  shows "\<exists>v c'. get_value E R (bnode \<phi>) type_int c = (Inr v, c') \<and> I c' \<and> vc_bool v \<and>
    tri_of v = kleene \<rho> \<phi>"
  using answersE [OF answers_kleene [OF assms(1)] assms(2)] by metis

theorem connectives_are_kleene_witness:
  "\<exists>v c'. get_value plain_env no_registry
      (bnode (And (Atom (IntValue type_bool 1 False)) (Not (Atom (IntValue type_bool 0 True)))))
      type_int (initial_ctx new_summary :: nat ctx) = (Inr v, c') \<and> tri_of v = UU"
proof -
  let ?t = "IntValue type_bool 1 False :: nat node" and ?u = "IntValue type_bool 0 True :: nat node"
  let ?phi = "And (Atom ?t) (Not (Atom ?u))" and ?rho = "\<lambda>n. if n = ?t then TT else UU"
  have "\<forall>n \<in> atoms ?phi. node_get_type n = type_bool \<and> answers plain_env no_registry (\<lambda>_. True) n (?rho n)"
    by (simp add: answers_def int_value_get_value_def)
  from connectives_are_kleene [OF this, of "initial_ctx new_summary"] show ?thesis by auto
qed


definition sample_filter :: "nat bexp" where
  "sample_filter = Or (Atom (BinaryOp type_bool op_eq (SummaryInt type_int ''count'' (Some count_match)) (IntValue type_int 0 False)))
     (Atom (BinaryOp type_bool op_gt (IntVar type_int ''size'' (Some (\<lambda>x c. (Inr (int x), c)))) (IntValue type_int 5 False)))"

lemma sample_filter_sure:
  "fst (parser_evaluate plain_env no_registry (bnode sample_filter) (initial_ctx new_summary)) = Inr (create_int 1 False)"
  by (simp add: sample_filter_def parser_evaluate_def leaf_item_def binary_op_evaluate_def binary_operator_evaluate_def
      simple_int_evaluate_def operator_or_def simple_bool_evaluate_def even_simpler_bool_binary_operator_impl_def
      even_simpler_eval_def compare_with_def operator_eq_def summary_int_get_value_def int_value_get_value_def
      catch_std_def catch_all_def get_summary_def bindE_def initial_ctx_def new_summary_def vc_creates vc_reads
      create_num_def b2i_def Let_def)

lemma plain_env_std: "stox_std plain_env"
  by (auto simp: stox_std_def plain_env_def split: if_splits)

lemma sample_filter_atoms: "\<forall>n \<in> atoms sample_filter. comparison_node n"
  by (auto simp: sample_filter_def is_comparison_operator_def pure_accessor_def)


end
