(* ===== verification/Bytes_Crc.thy ===== *)
theory Bytes_Crc
  imports Prelude "HOL-Library.Word"
begin

text \<open>
  The checksum of the wire protocols (\<^verbatim>\<open>include/bytes/crc32.cpp\<close>) and the big-endian
  fields of their packets (\<^verbatim>\<open>boost::endian::native_to_big\<close> and back). A byte is a
  \<^verbatim>\<open>char\<close>. The lemmas give the table-driven checksum its bitwise definition and show that
  it tells any two texts apart that differ in one byte.
\<close>

unbundle bit_operations_syntax

section \<open>Checksum\<close>

definition crc_bit :: "64 word \<Rightarrow> 64 word" where
  "crc_bit crc = (if bit crc 0 then drop_bit 1 crc XOR 0xEDB88320 else drop_bit 1 crc)"

definition make_crc32_table :: "64 word list" where
  "make_crc32_table = map (\<lambda>i. (crc_bit ^^ 8) (of_nat i)) [0..<256]"

definition byte_val :: "char \<Rightarrow> 64 word" where
  "byte_val c = of_nat (of_char c)"

definition crc32_step :: "64 word \<Rightarrow> char \<Rightarrow> 64 word" where
  "crc32_step crc c =
     (drop_bit 8 crc AND 0x00FFFFFF) XOR make_crc32_table ! unat ((crc XOR byte_val c) AND 0xFF)"

definition calculate_crc32 :: "string \<Rightarrow> 64 word" where
  "calculate_crc32 buffer = foldl crc32_step 0xFFFFFFFF buffer XOR 0xFFFFFFFF"

section \<open>Fields\<close>

definition be16 :: "16 word \<Rightarrow> string" where
  "be16 w = [char_of (unat w div 256), char_of (unat w)]"

definition be32 :: "32 word \<Rightarrow> string" where
  "be32 w = [char_of (unat w div 16777216), char_of (unat w div 65536), char_of (unat w div 256), char_of (unat w)]"

definition rd16 :: "string \<Rightarrow> nat \<Rightarrow> 16 word" where
  "rd16 s i = of_nat (of_char (s ! i) * 256 + of_char (s ! (i + 1)))"

definition rd32 :: "string \<Rightarrow> nat \<Rightarrow> 32 word" where
  "rd32 s i = of_nat (of_char (s ! i) * 16777216 + of_char (s ! (i + 1)) * 65536 +
     of_char (s ! (i + 2)) * 256 + of_char (s ! (i + 3)))"

text \<open>A store of \<open>bs\<close> at offset \<open>i\<close>, and the text of a zero-terminated field.\<close>

definition put :: "nat \<Rightarrow> string \<Rightarrow> string \<Rightarrow> string" where
  "put i bs s = take i s @ bs @ drop (i + length bs) s"

definition c_str :: "string \<Rightarrow> string" where
  "c_str s = takeWhile (\<lambda>c. c \<noteq> CHR 0x00) s"

section \<open>The table is the polynomial\<close>

lemma crc_bit_xor: "crc_bit (a XOR b) = crc_bit a XOR crc_bit b"
  by (simp add: crc_bit_def bit_xor_iff drop_bit_xor ac_simps)

lemma crc_bit_funpow_xor: "(crc_bit ^^ n) (a XOR b) = (crc_bit ^^ n) a XOR (crc_bit ^^ n) b"
  by (induction n) (simp_all add: crc_bit_xor)

lemma crc_bit_funpow_shift:
  assumes "take_bit k c = 0" and "n \<le> k"
  shows "(crc_bit ^^ n) c = drop_bit n c"
  using assms(2)
proof (induction n)
  case (Suc n)
  have "\<not> bit c n"
    using assms(1) Suc.prems by (metis bit_0_eq bit_take_bit_iff bot_apply bot_bool_def le_eq_less_or_eq less_eq_Suc_le)
  with Suc show ?case
    by (simp add: crc_bit_def bit_drop_bit_eq)
qed simp

lemma low_byte: "x AND 0xFF = take_bit 8 (x :: 64 word)" "x AND 0x00FFFFFF = take_bit 24 x"
  by (simp_all add: take_bit_eq_mask mask_eq_exp_minus_1)

lemma unat_byte_val: "unat (byte_val c) = of_char c"
proof -
  have "of_char c < (18446744073709551616 :: nat)" using nat_of_char_less_256 [of c] by linarith
  then show ?thesis by (simp add: byte_val_def unat_of_nat)
qed

lemma byte_val_take_bit [simp]: "take_bit 8 (byte_val c) = byte_val c"
  using nat_of_char_less_256 [of c]
  by (intro word_unat_eq_iff [THEN iffD2]) (simp add: unsigned_take_bit_eq unat_byte_val take_bit_nat_eq_self)

lemma byte_val_inj: "byte_val a = byte_val b \<longleftrightarrow> a = b"
  by (metis unat_byte_val char_of_char)

lemma unat_low_byte: "unat (take_bit 8 x :: 64 word) < 256"
  using take_bit_nat_less_exp [of 8 "unat x"] by (simp add: unsigned_take_bit_eq)

lemma crc32_table_nth: "i < 256 \<Longrightarrow> make_crc32_table ! i = (crc_bit ^^ 8) (of_nat i)"
  by (simp add: make_crc32_table_def)

lemma crc32_table_low: "make_crc32_table ! unat (take_bit 8 x) = (crc_bit ^^ 8) (take_bit 8 x)"
  using crc32_table_nth [OF unat_low_byte, of x] by simp

text \<open>The definition of the checksum: one polynomial step per bit, on the byte mixed in.\<close>

definition crc32_bits :: "64 word \<Rightarrow> char \<Rightarrow> 64 word" where
  "crc32_bits crc c = (crc_bit ^^ 8) (crc XOR byte_val c)"

lemma crc32_step_is_bits:
  assumes "take_bit 32 crc = crc"
  shows "crc32_step crc c = crc32_bits crc c"
proof -
  let ?x = "crc XOR byte_val c"
  have hi: "take_bit 8 (?x XOR take_bit 8 ?x) = 0" by (simp add: take_bit_xor)
  have "take_bit 24 (drop_bit 8 crc) = drop_bit 8 (take_bit 32 crc)" by (simp add: drop_bit_take_bit)
  with assms have top: "take_bit 24 (drop_bit 8 crc) = drop_bit 8 crc" by simp
  have "drop_bit 8 (take_bit 8 x) = 0" for x :: "64 word" by (simp add: drop_bit_take_bit)
  then have "drop_bit 8 (byte_val c) = 0" by (metis byte_val_take_bit)
  then have "drop_bit 8 (?x XOR take_bit 8 ?x) = drop_bit 8 crc" by (simp add: drop_bit_xor drop_bit_take_bit)
  then have "(crc_bit ^^ 8) ((?x XOR take_bit 8 ?x) XOR take_bit 8 ?x) = drop_bit 8 crc XOR (crc_bit ^^ 8) (take_bit 8 ?x)"
    using crc_bit_funpow_shift [OF hi, of 8] by (simp only: crc_bit_funpow_xor order_refl)
  moreover have "(?x XOR take_bit 8 ?x) XOR take_bit 8 ?x = ?x" by (simp only: xor.assoc xor_self_eq xor.right_neutral)
  ultimately have "(crc_bit ^^ 8) ?x = drop_bit 8 crc XOR (crc_bit ^^ 8) (take_bit 8 ?x)" by (simp only:)
  moreover have "make_crc32_table ! unat (take_bit 8 ?x) = (crc_bit ^^ 8) (take_bit 8 ?x)"
    by (rule crc32_table_low)
  ultimately show ?thesis by (simp only: crc32_step_def crc32_bits_def low_byte top)
qed

text \<open>The register stays within 32 bits, and no step loses information.\<close>

lemma crc_bit_range:
  assumes "take_bit 32 c = c"
  shows "take_bit 32 (crc_bit c) = crc_bit c"
proof -
  have "drop_bit 1 c = take_bit 31 (drop_bit 1 c)" using assms drop_bit_take_bit [of 1 32 c] by simp
  then have "take_bit 32 (drop_bit 1 c) = drop_bit 1 c"
    using take_bit_take_bit [of 32 31 "drop_bit 1 c"] by simp
  then show ?thesis by (simp add: crc_bit_def)
qed

lemma xor_cancel: "a XOR x = a XOR y \<longleftrightarrow> x = (y :: 64 word)" "x XOR a = y XOR a \<longleftrightarrow> x = y"
  by (auto simp: bit_eq_iff bit_xor_iff)

lemma crc_bit_top:
  assumes "take_bit 32 c = c"
  shows "bit (crc_bit c) 31 \<longleftrightarrow> bit c 0"
proof -
  have "\<not> bit c 32" using assms by (metis bit_take_bit_iff less_irrefl)
  then show ?thesis by (simp add: crc_bit_def bit_xor_iff bit_drop_bit_eq)
qed

lemma crc_bit_inj:
  assumes "take_bit 32 a = a" "take_bit 32 b = b" "crc_bit a = crc_bit b"
  shows "a = b"
proof -
  have low: "bit a 0 \<longleftrightarrow> bit b 0" using assms crc_bit_top by metis
  with assms(3) have "drop_bit 1 a = drop_bit 1 b"
    by (auto simp: crc_bit_def xor_cancel split: if_splits)
  then have "bit a (Suc n) = bit b (Suc n)" for n
    by (metis One_nat_def bit_drop_bit_eq comp_apply plus_1_eq_Suc)
  with low show ?thesis by (intro bit_word_eqI) (metis not0_implies_Suc)
qed

lemma crc_bits_range: "take_bit 32 c = c \<Longrightarrow> take_bit 32 ((crc_bit ^^ n) c) = (crc_bit ^^ n) c"
  by (induction n) (simp_all add: crc_bit_range)

lemma crc_bits_inj:
  "take_bit 32 a = a \<Longrightarrow> take_bit 32 b = b \<Longrightarrow> (crc_bit ^^ n) a = (crc_bit ^^ n) b \<Longrightarrow> a = b"
  by (induction n) (auto dest: crc_bit_inj [OF crc_bits_range crc_bits_range])

lemma byte_val_range: "take_bit 32 (byte_val c) = byte_val c"
  using take_bit_take_bit [of 32 8 "byte_val c"] by simp

lemma crc32_bits_range: "take_bit 32 c = c \<Longrightarrow> take_bit 32 (crc32_bits c b) = crc32_bits c b"
  unfolding crc32_bits_def by (rule crc_bits_range) (simp add: byte_val_range)

lemma crc32_bits_inj:
  assumes "take_bit 32 c = c" "take_bit 32 d = d" "crc32_bits c a = crc32_bits d b"
  shows "c XOR byte_val a = d XOR byte_val b"
  by (rule crc_bits_inj [OF _ _ assms(3) [unfolded crc32_bits_def]]) (simp_all add: assms(1,2) byte_val_range)

lemma foldl_crc_range: "take_bit 32 c = c \<Longrightarrow> take_bit 32 (foldl crc32_bits c s) = foldl crc32_bits c s"
  by (induction s arbitrary: c) (simp_all add: crc32_bits_range)

lemma foldl_crc_bits: "take_bit 32 c = c \<Longrightarrow> foldl crc32_step c s = foldl crc32_bits c s"
  by (induction s arbitrary: c) (simp_all add: crc32_step_is_bits crc32_bits_range)

lemma foldl_crc_inj:
  "take_bit 32 c = c \<Longrightarrow> take_bit 32 d = d \<Longrightarrow> foldl crc32_bits c s = foldl crc32_bits d s \<Longrightarrow> c = d"
proof (induction s arbitrary: c d)
  case (Cons b s)
  have "crc32_bits c b = crc32_bits d b"
    by (rule Cons.IH [OF crc32_bits_range [OF Cons.prems(1)] crc32_bits_range [OF Cons.prems(2)]]) (use Cons.prems(3) in simp)
  from crc32_bits_inj [OF Cons.prems(1,2) this] show ?case by (simp only: xor_cancel)
qed simp

definition crc32_polynomial :: "string \<Rightarrow> 64 word" where
  "crc32_polynomial s = foldl crc32_bits 0xFFFFFFFF s XOR 0xFFFFFFFF"

lemma calculate_crc32_polynomial: "calculate_crc32 s = crc32_polynomial s"
  by (simp add: calculate_crc32_def crc32_polynomial_def foldl_crc_bits)

lemma calculate_crc32_range: "take_bit 32 (calculate_crc32 s) = calculate_crc32 s"
  using foldl_crc_range [of "0xFFFFFFFF" s] by (simp add: calculate_crc32_polynomial crc32_polynomial_def)

text \<open>
  C22. The checksum driven by the table is the checksum of the polynomial: for every text,
  \<^verbatim>\<open>calculate_crc32\<close> is the register that results from feeding the bits of every byte, lowest
  first, through one step of the reflected polynomial, inverted at both ends; and it fits 32 bits.
\<close>

theorem calculate_crc32_is_polynomial:
  "calculate_crc32 s = foldl crc32_bits 0xFFFFFFFF s XOR 0xFFFFFFFF \<and> unat (calculate_crc32 s) < 2 ^ 32"
proof -
  have "unat (take_bit 32 (calculate_crc32 s)) < 2 ^ 32"
    using take_bit_nat_less_exp [of 32 "unat (calculate_crc32 s)"] by (simp only: unsigned_take_bit_eq)
  then have "unat (calculate_crc32 s) < 2 ^ 32" by (simp only: calculate_crc32_range)
  then show ?thesis using calculate_crc32_polynomial [of s] by (simp only: crc32_polynomial_def simp_thms)
qed

text \<open>Two texts that differ in exactly one byte have different checksums.\<close>

lemma crc32_one_byte:
  assumes "calculate_crc32 (u @ a # v) = calculate_crc32 (u @ b # v)"
  shows "a = b"
proof -
  have r: "take_bit 32 (0xFFFFFFFF :: 64 word) = 0xFFFFFFFF" by simp
  let ?c = "foldl crc32_bits 0xFFFFFFFF u"
  have c: "take_bit 32 ?c = ?c" by (rule foldl_crc_range [OF r])
  have "foldl crc32_bits (crc32_bits ?c a) v = foldl crc32_bits (crc32_bits ?c b) v"
    using assms unfolding calculate_crc32_def foldl_crc_bits [OF r] xor_cancel by simp
  then have "crc32_bits ?c a = crc32_bits ?c b" by (rule foldl_crc_inj [OF crc32_bits_range [OF c] crc32_bits_range [OF c]])
  then show ?thesis using crc32_bits_inj [OF c c] by (simp only: xor_cancel byte_val_inj)
qed

section \<open>Reading what was stored\<close>

lemma be_length [simp]: "length (be16 v) = 2" "length (be32 w) = 4"
  by (simp_all add: be16_def be32_def)

lemma put_length [simp]: "i + length bs \<le> length s \<Longrightarrow> length (put i bs s) = length s"
  by (simp add: put_def)

lemma put_nth: "i + length bs \<le> length s \<Longrightarrow> k < length s \<Longrightarrow>
    put i bs s ! k = (if i \<le> k \<and> k < i + length bs then bs ! (k - i) else s ! k)"
  by (auto simp: put_def nth_append min_def)

lemma char_of_byte: "of_char (char_of (n :: nat)) = n mod 256"
  by (simp add: of_char_of)

lemma base_256: "n < 65536 \<Longrightarrow> n div 256 mod 256 * 256 + n mod 256 = n"
  "n < 4294967296 \<Longrightarrow> n div 16777216 mod 256 * 16777216 + n div 65536 mod 256 * 65536 + n div 256 mod 256 * 256 + n mod 256 = (n :: nat)"
proof -
  assume "n < 65536"
  then have "n div 256 < 256" by (simp add: less_mult_imp_div_less)
  then show "n div 256 mod 256 * 256 + n mod 256 = n" by simp
next
  assume "n < 4294967296"
  then have top: "n div 16777216 < 256" by (simp add: less_mult_imp_div_less)
  have a: "n = n div 256 * 256 + n mod 256" by simp
  have b: "n div 256 = n div 65536 * 256 + n div 256 mod 256"
    using div_mult_mod_eq [of "n div 256" 256] by (simp add: div_mult2_eq [symmetric])
  have c: "n div 65536 = n div 16777216 * 256 + n div 65536 mod 256"
    using div_mult_mod_eq [of "n div 65536" 256] by (simp add: div_mult2_eq [symmetric])
  have d: "n div 16777216 mod 256 = n div 16777216" using top by simp
  have "x * 16777216 + y * 65536 + z * 256 + w = m" if "m = p * 256 + w" "p = q * 256 + z" "q = x * 256 + y" for m p q w x y z :: nat
    using that by simp
  from this [OF a b c] d show "n div 16777216 mod 256 * 16777216 + n div 65536 mod 256 * 65536 + n div 256 mod 256 * 256 + n mod 256 = n"
    by (simp only:)
qed

lemma rd16_be16:
  assumes "take 2 (drop i s) = be16 w"
  shows "rd16 s i = w"
proof -
  have "length (take 2 (drop i s)) = 2" using assms by simp
  then have "i + 1 < length s" by simp
  then have "take 2 (drop i s) = [s ! i, s ! (i + 1)]"
    by (simp add: take_Suc_conv_app_nth numeral_2_eq_2)
  with assms have "s ! i = char_of (unat w div 256)" "s ! (i + 1) = char_of (unat w)" by (simp_all add: be16_def)
  moreover have "unat w < 65536" using unsigned_less [of w] by simp
  ultimately show ?thesis by (simp add: rd16_def char_of_byte base_256)
qed

lemma rd32_be32:
  assumes "take 4 (drop i s) = be32 w"
  shows "rd32 s i = w"
proof -
  have "length (take 4 (drop i s)) = 4" using assms by simp
  then have "i + 3 < length s" by simp
  then have "take 4 (drop i s) = [s ! i, s ! (i + 1), s ! (i + 2), s ! (i + 3)]"
    by (simp add: take_Suc_conv_app_nth numeral_eq_Suc)
  with assms have "s ! i = char_of (unat w div 16777216)" "s ! (i + 1) = char_of (unat w div 65536)"
    "s ! (i + 2) = char_of (unat w div 256)" "s ! (i + 3) = char_of (unat w)" by (simp_all add: be32_def)
  moreover have "unat w < 4294967296" using unsigned_less [of w] by simp
  ultimately show ?thesis unfolding rd32_def by (simp only: char_of_byte base_256) simp
qed

lemma unat_rd32: "unat (rd32 s i) = of_char (s ! i) * 16777216 + of_char (s ! (i + 1)) * 65536 +
     of_char (s ! (i + 2)) * 256 + of_char (s ! (i + 3))" (is "_ = ?n")
proof -
  have "?n < 4294967296"
    using nat_of_char_less_256 [of "s ! i"] nat_of_char_less_256 [of "s ! (i + 1)"] nat_of_char_less_256 [of "s ! (i + 2)"]
      nat_of_char_less_256 [of "s ! (i + 3)"] by linarith
  then show ?thesis unfolding rd32_def unat_of_nat by simp
qed

lemma put_field: "i + length bs \<le> length s \<Longrightarrow> take (length bs) (drop i (put i bs s)) = bs"
  by (simp add: put_def)

lemma put_put: "i + length bs \<le> length s \<Longrightarrow> length cs = length bs \<Longrightarrow> put i cs (put i bs s) = put i cs s"
  by (simp add: put_def)

lemma put_field_other:
  assumes "i + length bs \<le> length s" and "j + k \<le> i \<or> i + length bs \<le> j"
  shows "take k (drop j (put i bs s)) = take k (drop j s)"
  by (rule nth_equalityI) (use assms in \<open>auto simp: put_nth\<close>)

lemma put_self: "take (length bs) (drop i s) = bs \<Longrightarrow> i + length bs \<le> length s \<Longrightarrow> put i bs s = s"
  by (metis append_take_drop_id drop_drop put_def add.commute)

text \<open>A field filled with zeros after its text.\<close>

lemma c_str_padded [simp]: "CHR 0x00 \<notin> set s \<Longrightarrow> c_str (s @ CHR 0x00 # t) = s"
  by (simp add: c_str_def takeWhile_append)

lemma c_str_no_zero: "CHR 0x00 \<notin> set (c_str s)"
  by (auto simp: c_str_def dest: set_takeWhileD)

section \<open>Codecs\<close>

text \<open>
  What the protocols rely on: a packet within the limits of the wire is encoded, and decoding
  the bytes gives its content back.
\<close>

locale wire_codec =
  fixes encode :: "'p \<Rightarrow> string res" and decode :: "string \<Rightarrow> 'q res"
    and sendable :: "'p \<Rightarrow> bool" and sent :: "'p \<Rightarrow> 'c" and received :: "'q \<Rightarrow> 'c"
  assumes encodes: "sendable p \<Longrightarrow> \<exists>b. encode p = Inr b"
    and decodes: "sendable p \<Longrightarrow> encode p = Inr b \<Longrightarrow> \<exists>q. decode b = Inr q \<and> received q = sent p"
begin

lemma delivered: "sendable p \<Longrightarrow> \<exists>b q. encode p = Inr b \<and> decode b = Inr q \<and> received q = sent p"
  using encodes decodes by blast

lemma unambiguous: "sendable p \<Longrightarrow> sendable p' \<Longrightarrow> encode p = encode p' \<Longrightarrow> sent p = sent p'"
  using delivered [of p] delivered [of p'] by auto

end

end
