(* ===== verification/Nrpe_Packet.thy ===== *)
theory Nrpe_Packet
  imports Bytes_Crc
begin

text \<open>
  The NRPE packet (\<^verbatim>\<open>include/net/nrpe/packet.hpp\<close>): the structures with their sizes and
  offsets, encoding and decoding of the versions 2, 3 and 4, and the checksum test. The
  lemmas show that what is sent is received, that one corrupted byte is noticed and that
  bytes after the declared packet are not read.
\<close>

section \<open>Structures\<close>

definition unknownPacket :: "16 word" where "unknownPacket = 0"
definition queryPacket :: "16 word" where "queryPacket = 1"
definition responsePacket :: "16 word" where "responsePacket = 2"
definition moreResponsePacket :: "16 word" where "moreResponsePacket = 3"
definition version2 :: "16 word" where "version2 = 2"
definition version3 :: "16 word" where "version3 = 3"
definition version4 :: "16 word" where "version4 = 4"

definition buffer_offset_v2 :: nat where "buffer_offset_v2 = 10"
definition buffer_offset_v3 :: nat where "buffer_offset_v3 = 16"

text \<open>
  The sizes of the structures with their padding; the fields are at offsets 0 (version),
  2 (type), 4 (checksum), 8 (result), 10 (alignment) and 12 (payload length).
\<close>

definition sizeof_packet_header :: nat where "sizeof_packet_header = 4"
definition sizeof_packet_v2 :: nat where "sizeof_packet_v2 = 12"
definition sizeof_packet_v3 :: nat where "sizeof_packet_v3 = 20"

definition get_packet_length_v2 :: "nat \<Rightarrow> nat" where
  "get_packet_length_v2 payload_length = sizeof_packet_v2 + payload_length"

definition get_packet_length_v3 :: "nat \<Rightarrow> nat" where
  "get_packet_length_v3 payload_length = sizeof_packet_v3 + payload_length - 1"

definition get_packet_length_v4 :: "nat \<Rightarrow> nat" where
  "get_packet_length_v4 payload_length = sizeof_packet_v3 + payload_length - 4"

definition get_payload_length :: "nat \<Rightarrow> nat" where
  "get_payload_length packet_length =
     (if packet_length < sizeof_packet_v2 then 0 else packet_length - sizeof_packet_v2)"

record packet =
  pk_payload_length :: nat
  pk_type :: "16 word"
  pk_version :: "16 word"
  pk_result :: "16 word"
  pk_payload :: string
  pk_crc32 :: "32 word"
  pk_calculatedCRC32 :: "32 word"

definition new_packet :: "16 word \<Rightarrow> 16 word \<Rightarrow> 16 word \<Rightarrow> string \<Rightarrow> nat \<Rightarrow> packet" where
  "new_packet type version result payLoad len = \<lparr>pk_payload_length = len, pk_type = type, pk_version = version,
     pk_result = result, pk_payload = payLoad, pk_crc32 = 0, pk_calculatedCRC32 = 0\<rparr>"

definition unknown_response :: "string \<Rightarrow> packet" where
  "unknown_response message = new_packet responsePacket version2 3 message 0"

definition make_request :: "string \<Rightarrow> nat \<Rightarrow> 16 word \<Rightarrow> packet res" where
  "make_request payload buffer_length version =
     (if version \<noteq> 2 \<and> version \<noteq> 4
      then Inl (Std_Exception (''Invalid NRPE version: '' @ xtos_int (sint version) @ '', expected 2 or 4''))
      else Inr (new_packet queryPacket version (- 1) payload buffer_length))"

definition create_response :: "16 word \<Rightarrow> 16 word \<Rightarrow> string \<Rightarrow> nat \<Rightarrow> packet" where
  "create_response version code text buffer_length = new_packet responsePacket version code text buffer_length"

definition create_more_response :: "16 word \<Rightarrow> string \<Rightarrow> nat \<Rightarrow> packet" where
  "create_more_response code text buffer_length = new_packet moreResponsePacket version2 code text buffer_length"

section \<open>Encoding\<close>

definition zeros :: "nat \<Rightarrow> string" where "zeros n = replicate n CHR 0x00"

text \<open>\<^verbatim>\<open>strncpy\<close> of the payload and the terminating zero.\<close>

definition update_payload :: "nat \<Rightarrow> string \<Rightarrow> string \<Rightarrow> string" where
  "update_payload offset payload buffer =
     put offset (c_str payload @ zeros (length payload - length (c_str payload)) @ [CHR 0x00]) buffer"

definition crc32_of :: "string \<Rightarrow> 32 word" where
  "crc32_of buffer = ucast (calculate_crc32 buffer)"

text \<open>The checksum member keeps the value as stored, in network order.\<close>

definition swap32 :: "32 word \<Rightarrow> 32 word" where
  "swap32 w = rd32 (rev (be32 w)) 0"

definition seal :: "nat \<Rightarrow> string \<Rightarrow> packet \<Rightarrow> string \<times> packet" where
  "seal packet_length buffer p =
     (let crc = crc32_of (take packet_length (put 4 (zeros 4) buffer))
      in (take packet_length (put 4 (be32 crc) buffer), p\<lparr>pk_crc32 := swap32 crc\<rparr>))"

definition create_buffer_v2 :: "packet \<Rightarrow> (string \<times> packet) res" where
  "create_buffer_v2 p =
     (let packet_length = get_packet_length_v2 (pk_payload_length p);
          b1 = put 8 (be16 (pk_result p)) (zeros (packet_length + 1));
          b2 = put 2 (be16 (pk_type p)) b1;
          b3 = put 0 (be16 (pk_version p)) b2
      in if length (pk_payload p) \<ge> pk_payload_length p
         then Inl (Std_Exception ''To much data cant create return packet (truncate data)'')
         else Inr (seal packet_length (update_payload buffer_offset_v2 (pk_payload p) b3) p))"

definition create_buffer_v3 :: "packet \<Rightarrow> (string \<times> packet) res" where
  "create_buffer_v3 p =
     (let len = length (pk_payload p);
          packet_length = (if pk_version p = version3 then get_packet_length_v3 len else get_packet_length_v4 len);
          b1 = put 8 (be16 (pk_result p)) (zeros (packet_length + 1));
          b2 = put 2 (be16 (pk_type p)) b1;
          b3 = put 0 (be16 (pk_version p)) b2;
          b4 = put 10 (be16 0) b3;
          b5 = put 12 (be32 (of_nat len)) b4
      in Inr (seal packet_length (update_payload buffer_offset_v3 (pk_payload p) b5) p))"

definition create_buffer :: "packet \<Rightarrow> (string \<times> packet) res" where
  "create_buffer p = (if pk_version p = version2 then create_buffer_v2 p else create_buffer_v3 p)"

definition get_buffer :: "packet \<Rightarrow> string res" where
  "get_buffer p = (case create_buffer p of Inl e \<Rightarrow> Inl e | Inr (b, _) \<Rightarrow> Inr b)"

section \<open>Decoding\<close>

text \<open>\<^verbatim>\<open>strnlen\<close> of the payload within the packet.\<close>

definition fetch_payload :: "nat \<Rightarrow> string \<Rightarrow> nat \<Rightarrow> string" where
  "fetch_payload offset buffer packet_length = c_str (take (packet_length - offset) (drop offset buffer))"

definition known_type :: "16 word \<Rightarrow> bool" where
  "known_type t \<longleftrightarrow> t = queryPacket \<or> t = responsePacket \<or> t = moreResponsePacket"

definition readFromV2 :: "packet \<Rightarrow> string \<Rightarrow> packet res" where
  "readFromV2 p buffer =
     (let len = length buffer; type = rd16 buffer 2; version = rd16 buffer 0; crc32 = rd32 buffer 4;
          calculated = crc32_of (take (get_packet_length_v2 (pk_payload_length p)) (put 4 (zeros 4) buffer))
      in if len \<noteq> get_packet_length_v2 (pk_payload_length p)
         then Inl (Std_Exception (''Invalid packet length: '' @ nat_str len @ '' != '' @
                nat_str (get_packet_length_v2 (pk_payload_length p)) @ '' configured payload is: '' @ nat_str (pk_payload_length p)))
         else if \<not> known_type type then Inl (Std_Exception (''Invalid packet type: '' @ xtos_int (sint type)))
         else if version \<noteq> version2 then Inl (Std_Exception (''Invalid packet version: '' @ xtos_int (sint version)))
         else if crc32 \<noteq> calculated
         then Inl (Std_Exception (''Invalid checksum reading v2 NRPE packet: '' @ nat_str (unat crc32) @ ''!='' @
                nat_str (unat calculated) @ '' payload length: '' @ nat_str (pk_payload_length p)))
         else Inr (p\<lparr>pk_type := type, pk_version := version, pk_crc32 := crc32, pk_calculatedCRC32 := calculated,
                pk_result := rd16 buffer 8, pk_payload := fetch_payload buffer_offset_v2 buffer len\<rparr>))"

definition readFromV3 :: "packet \<Rightarrow> string \<Rightarrow> packet res" where
  "readFromV3 p buffer =
     (let len = length buffer; type = rd16 buffer 2; version = rd16 buffer 0;
          raw_payload_length = sint (rd32 buffer 12); declared = nat raw_payload_length;
          source_data_length = (if version = version4 then get_packet_length_v4 declared else get_packet_length_v3 declared);
          crc32 = rd32 buffer 4;
          calculated = crc32_of (take source_data_length (put 10 (zeros 2) (put 4 (zeros 4) buffer)))
      in if len < buffer_offset_v3
         then Inl (Std_Exception (''Invalid packet length: '' @ nat_str len @ '' < '' @ nat_str buffer_offset_v3))
         else if \<not> known_type type then Inl (Std_Exception (''Invalid packet type: '' @ xtos_int (sint type)))
         else if version \<noteq> version3 \<and> version \<noteq> version4
         then Inl (Std_Exception (''Invalid packet version: '' @ xtos_int (sint version)))
         else if raw_payload_length < 0
         then Inl (Std_Exception (''Negative payload length in NRPE v3 packet: '' @ xtos_int raw_payload_length))
         else if declared > 1024 * 1024
         then Inl (Std_Exception (''Invalid packet length specified: '' @ nat_str declared))
         else if len < source_data_length
         then Inl (Std_Exception (''Invalid packet length: '' @ nat_str len @ '' != '' @ nat_str source_data_length))
         else if crc32 \<noteq> calculated
         then Inl (Std_Exception (''Invalid checksum reading v3 NRPE packet: '' @ nat_str (unat crc32) @ ''!='' @
                nat_str (unat calculated)))
         else Inr (p\<lparr>pk_type := type, pk_version := version, pk_crc32 := crc32, pk_calculatedCRC32 := calculated,
                pk_result := rd16 buffer 8, pk_payload := fetch_payload buffer_offset_v3 buffer (buffer_offset_v3 + declared)\<rparr>))"

definition readFrom :: "packet \<Rightarrow> string \<Rightarrow> packet res" where
  "readFrom p buffer =
     (if length buffer < sizeof_packet_header
      then Inl (Std_Exception (''Packet too short to determine version: '' @ nat_str (length buffer) @ '' < '' @
             nat_str sizeof_packet_header))
      else if rd16 buffer 0 = version3 \<or> rd16 buffer 0 = version4 then readFromV3 p buffer
      else readFromV2 p buffer)"

text \<open>The two decoding constructors: with the configured and with the implied payload length.\<close>

definition packet_of :: "string \<Rightarrow> nat \<Rightarrow> packet res" where
  "packet_of buffer len = readFrom (new_packet 0 0 0 [] len) buffer"

definition packet_of_buffer :: "string \<Rightarrow> packet res" where
  "packet_of_buffer buffer =
     (if length buffer < sizeof_packet_v2
      then Inl (Std_Exception (''Packet too short: '' @ nat_str (length buffer) @ '' < '' @ nat_str sizeof_packet_v2))
      else packet_of buffer (get_payload_length (length buffer)))"

definition verifyCRC :: "packet \<Rightarrow> bool" where
  "verifyCRC p \<longleftrightarrow> pk_calculatedCRC32 p = pk_crc32 p"

section \<open>The bytes of a packet\<close>

lemma put_mid: "length xs = i \<Longrightarrow> length ys = length bs \<Longrightarrow> put i bs (xs @ ys @ zs) = xs @ bs @ zs"
  by (simp add: put_def)

lemma zeros_simps [simp]: "length (zeros n) = n" "zeros (m + n) = zeros m @ zeros n" "zeros 0 = []"
  by (simp_all add: zeros_def replicate_add)

text \<open>\<^verbatim>\<open>strncpy\<close>: the text up to its first zero, then zeros.\<close>

definition strn :: "string \<Rightarrow> string" where
  "strn s = c_str s @ zeros (length s - length (c_str s))"

lemma length_c_str: "length (c_str s) \<le> length s"
  by (simp add: c_str_def length_takeWhile_le)

lemma length_strn [simp]: "length (strn s) = length s"
  by (simp add: strn_def length_c_str)

lemma c_str_zero [simp]: "c_str (s @ CHR 0x00 # t) = c_str s"
  by (induction s) (simp_all add: c_str_def)

lemma c_str_c_str: "c_str (c_str s @ t) = c_str s @ c_str t"
  by (induction s) (simp_all add: c_str_def)

lemma c_str_zeros [simp]: "c_str (zeros n) = []"
  by (cases n) (simp_all add: c_str_def zeros_def)

lemma c_str_strn [simp]: "c_str (strn s @ zeros n) = c_str s"
  by (simp only: strn_def append_assoc c_str_c_str) (simp flip: zeros_simps(2))

definition header :: "16 word \<Rightarrow> 16 word \<Rightarrow> string \<Rightarrow> 16 word \<Rightarrow> string" where
  "header version type crc result = be16 version @ be16 type @ crc @ be16 result"

lemma header_length [simp]: "length crc = 4 \<Longrightarrow> length (header v t crc r) = 10"
  by (simp add: header_def)

lemma header_fields:
  assumes "length crc = 4"
  shows "rd16 (header v t crc r @ body) 0 = v" "rd16 (header v t crc r @ body) 2 = t"
    "rd16 (header v t crc r @ body) 8 = r" "take 4 (drop 4 (header v t crc r @ body)) = crc"
  using assms by (auto simp: header_def intro!: rd16_be16)

lemma header_seal: "length crc = 4 \<Longrightarrow> length crc' = 4 \<Longrightarrow> put 4 crc' (header v t crc r @ body) = header v t crc' r @ body"
  using put_mid [of "be16 v @ be16 t" 4 crc crc' "be16 r @ body"] by (simp add: header_def)

lemma header_checksum: "rd32 (header v t (be32 c) r @ body) 4 = c"
  by (rule rd32_be32 [OF header_fields(4)]) simp

text \<open>Storing the three header fields in a cleared buffer.\<close>

lemma header_stored:
  "put 0 (be16 v) (put 2 (be16 t) (put 8 (be16 r) (zeros (10 + n)))) = header v t (zeros 4) r @ zeros n"
proof -
  have z: "zeros (10 + n) = (zeros 2 @ zeros 2 @ zeros 4) @ zeros 2 @ zeros n"
    by (simp only: zeros_simps(2) [symmetric] append_assoc) simp
  have "put 8 (be16 r) (zeros (10 + n)) = (zeros 2 @ zeros 2 @ zeros 4) @ be16 r @ zeros n"
    unfolding z by (rule put_mid) simp_all
  moreover have "put 2 (be16 t) (zeros 2 @ zeros 2 @ (zeros 4 @ be16 r @ zeros n)) = zeros 2 @ be16 t @ (zeros 4 @ be16 r @ zeros n)"
    by (rule put_mid) simp_all
  moreover have "put 0 (be16 v) ([] @ zeros 2 @ (be16 t @ zeros 4 @ be16 r @ zeros n)) = [] @ be16 v @ (be16 t @ zeros 4 @ be16 r @ zeros n)"
    by (rule put_mid) simp_all
  ultimately show ?thesis by (simp add: header_def)
qed

lemma seal_header:
  assumes "length body \<ge> n"
  shows "fst (seal (10 + n) (header v t (zeros 4) r @ body) p) =
    header v t (be32 (crc32_of (header v t (zeros 4) r @ take n body))) r @ take n body"
  using assms by (simp add: seal_def header_seal Let_def)

lemma update_payload_stored:
  assumes "length xs = i"
  shows "update_payload i q (xs @ zeros (length q + 1) @ zs) = xs @ strn q @ [CHR 0x00] @ zs"
  using put_mid [of xs i "zeros (length q + 1)" "strn q @ [CHR 0x00]" zs] assms
  by (simp add: update_payload_def strn_def length_c_str)

lemma get_buffer_v2:
  assumes "pk_version p = version2" and "length (pk_payload p) < pk_payload_length p"
  defines "body \<equiv> strn (pk_payload p) @ zeros (pk_payload_length p + 2 - length (pk_payload p))"
  shows "get_buffer p = Inr (header (pk_version p) (pk_type p)
    (be32 (crc32_of (header (pk_version p) (pk_type p) (zeros 4) (pk_result p) @ body))) (pk_result p) @ body)"
proof -
  let ?n = "pk_payload_length p" and ?q = "pk_payload p" and ?h = "header (pk_version p) (pk_type p) (zeros 4) (pk_result p)"
  obtain k where k: "?n = Suc (length ?q + k)" using assms(2) less_imp_Suc_add by blast
  have "update_payload buffer_offset_v2 ?q (?h @ zeros (length ?q + 1) @ zeros (k + 3)) =
      ?h @ (strn ?q @ [CHR 0x00]) @ zeros (k + 3)"
    by (simp only: append_assoc) (rule update_payload_stored, simp add: buffer_offset_v2_def)
  moreover have "?h @ zeros (?n + 3) = ?h @ zeros (length ?q + 1) @ zeros (k + 3)"
    by (simp only: zeros_simps(2) [symmetric] k) simp
  moreover have "take (?n + 2) ((strn ?q @ [CHR 0x00]) @ zeros (k + 3)) = body"
    by (simp add: body_def k zeros_def min_def flip: replicate_Suc)
  ultimately show ?thesis
    using assms(1,2) header_stored [of "pk_version p" "pk_type p" "pk_result p" "?n + 3"]
      seal_header [of "?n + 2" "(strn ?q @ [CHR 0x00]) @ zeros (k + 3)" "pk_version p" "pk_type p" "pk_result p" p]
    by (simp add: get_buffer_def create_buffer_def create_buffer_v2_def get_packet_length_v2_def sizeof_packet_v2_def Let_def
        split_def k)
qed

definition v3_body :: "packet \<Rightarrow> string" where
  "v3_body p = be16 0 @ be32 (of_nat (length (pk_payload p))) @ strn (pk_payload p) @
     zeros (if pk_version p = version3 then 3 else 0)"

lemma get_buffer_v3:
  assumes "pk_version p \<noteq> version2"
  shows "get_buffer p = Inr (header (pk_version p) (pk_type p)
    (be32 (crc32_of (header (pk_version p) (pk_type p) (zeros 4) (pk_result p) @ v3_body p))) (pk_result p) @ v3_body p)"
proof -
  let ?q = "pk_payload p" and ?h = "header (pk_version p) (pk_type p) (zeros 4) (pk_result p)"
  define k :: nat where "k = (if pk_version p = version3 then 3 else 0)"
  define L where "L = 16 + length ?q + k"
  have L: "(if pk_version p = version3 then get_packet_length_v3 (length ?q) else get_packet_length_v4 (length ?q)) = L"
    by (simp add: L_def k_def get_packet_length_v3_def get_packet_length_v4_def sizeof_packet_v3_def)
  have z: "zeros (length ?q + k + 7) = zeros 2 @ zeros 4 @ zeros (length ?q + 1) @ zeros k"
    by (simp only: zeros_simps(2) [symmetric]) (simp add: ac_simps)
  have a: "put 10 (be16 0) (?h @ zeros 2 @ zs) = ?h @ be16 0 @ zs" for zs by (rule put_mid) simp_all
  have b: "put 12 (be32 w) ((?h @ be16 0) @ zeros 4 @ zs) = (?h @ be16 0) @ be32 w @ zs" for zs w by (rule put_mid) simp_all
  have c: "update_payload 16 ?q ((?h @ be16 0 @ be32 w) @ zeros (length ?q + 1) @ zs) =
      (?h @ be16 0 @ be32 w) @ strn ?q @ [CHR 0x00] @ zs" for w zs
    by (rule update_payload_stored) simp
  let ?w = "of_nat (length ?q) :: 32 word"
  have upd: "update_payload buffer_offset_v3 ?q (put 12 (be32 ?w) (put 10 (be16 0) (?h @ zeros (length ?q + k + 7)))) =
      ?h @ be16 0 @ be32 ?w @ strn ?q @ [CHR 0x00] @ zeros k"
    unfolding z buffer_offset_v3_def a using b [of ?w "zeros (length ?q + 1) @ zeros k"] c [of ?w "zeros k"] by simp
  have body: "take (length ?q + k + 6) (be16 0 @ be32 ?w @ strn ?q @ [CHR 0x00] @ zeros k) = v3_body p"
    by (simp add: v3_body_def k_def [symmetric] zeros_def min_def flip: replicate_Suc)
  have len: "L + 1 = 10 + (length ?q + k + 7)" "L = 10 + (length ?q + k + 6)" by (simp_all add: L_def)
  have raw: "put 0 (be16 (pk_version p)) (put 2 (be16 (pk_type p)) (put 8 (be16 (pk_result p)) (zeros (L + 1)))) =
      ?h @ zeros (length ?q + k + 7)"
    unfolding len(1) by (rule header_stored)
  have sealed: "fst (seal L (?h @ be16 0 @ be32 ?w @ strn ?q @ [CHR 0x00] @ zeros k) p) =
      header (pk_version p) (pk_type p) (be32 (crc32_of (?h @ v3_body p))) (pk_result p) @ v3_body p"
    unfolding len(2) using seal_header [of "length ?q + k + 6" "be16 0 @ be32 ?w @ strn ?q @ [CHR 0x00] @ zeros k"]
    by (simp only: body) simp
  have "create_buffer p = Inr (seal L (?h @ be16 0 @ be32 ?w @ strn ?q @ [CHR 0x00] @ zeros k) p)"
    using assms unfolding create_buffer_def create_buffer_v3_def Let_def L raw upd by (simp only: if_False)
  then show ?thesis using sealed by (simp only: get_buffer_def sum.case split_def)
qed

section \<open>Round trip\<close>

definition sendable :: "packet \<Rightarrow> bool" where
  "sendable p \<longleftrightarrow> known_type (pk_type p) \<and> CHR 0x00 \<notin> set (pk_payload p) \<and>
     (pk_version p = version2 \<and> length (pk_payload p) < pk_payload_length p \<or>
      (pk_version p = version3 \<or> pk_version p = version4) \<and> length (pk_payload p) \<le> 1024 * 1024)"

type_synonym message = "16 word \<times> 16 word \<times> 16 word \<times> string"

definition message_of :: "packet \<Rightarrow> message" where
  "message_of p = (pk_type p, pk_version p, pk_result p, pk_payload p)"

lemma c_str_id: "CHR 0x00 \<notin> set s \<Longrightarrow> c_str s = s"
  by (auto simp: c_str_def takeWhile_eq_all_conv)

lemma readFromV2_header:
  assumes "known_type t" and "12 + pk_payload_length p = 10 + length body"
  shows "readFromV2 p (header version2 t (be32 (crc32_of (header version2 t (zeros 4) r @ body))) r @ body) =
    Inr (p\<lparr>pk_type := t, pk_version := version2, pk_crc32 := crc32_of (header version2 t (zeros 4) r @ body),
      pk_calculatedCRC32 := crc32_of (header version2 t (zeros 4) r @ body), pk_result := r, pk_payload := c_str body\<rparr>)"
  using assms
  by (simp add: readFromV2_def Let_def header_fields header_checksum header_seal get_packet_length_v2_def sizeof_packet_v2_def
      fetch_payload_def buffer_offset_v2_def)

lemma packet_of_v2:
  assumes "sendable p" "pk_version p = version2" "get_buffer p = Inr b"
  shows "\<exists>q. packet_of b (pk_payload_length p) = Inr q \<and> message_of q = message_of p \<and> verifyCRC q"
proof -
  have len: "length (pk_payload p) < pk_payload_length p" and t: "known_type (pk_type p)" and z: "CHR 0x00 \<notin> set (pk_payload p)"
    using assms(1,2) by (auto simp: sendable_def version2_def version3_def version4_def)
  let ?body = "strn (pk_payload p) @ zeros (pk_payload_length p + 2 - length (pk_payload p))"
  let ?b = "header version2 (pk_type p) (be32 (crc32_of (header version2 (pk_type p) (zeros 4) (pk_result p) @ ?body))) (pk_result p) @ ?body"
  have b: "b = ?b" using assms(3) get_buffer_v2 [OF assms(2) len] by (simp only: assms(2) sum.inject)
  have "rd16 ?b 0 = version2" "\<not> length ?b < 4" by (simp_all add: header_fields)
  then have "packet_of b (pk_payload_length p) = readFromV2 (new_packet 0 0 0 [] (pk_payload_length p)) ?b"
    by (simp add: b packet_of_def readFrom_def sizeof_packet_header_def version2_def version3_def version4_def)
  moreover have "12 + pk_payload_length (new_packet 0 0 0 [] (pk_payload_length p)) = 10 + length ?body"
    using len by (simp add: new_packet_def)
  ultimately show ?thesis
    using readFromV2_header [OF t] z by (simp add: message_of_def verifyCRC_def assms(2) c_str_id)
qed

text \<open>What the decoder of version 3 and 4 sees in a buffer with that layout.\<close>

lemma sint_of_nat32: "n \<le> 1024 * 1024 \<Longrightarrow> sint (of_nat n :: 32 word) = int n"
  by (simp add: signed_of_nat signed_take_bit_int_eq_self)

lemma readFromV3_header:
  assumes "known_type t" and "v = version3 \<or> v = version4" and "length q \<le> 1024 * 1024"
  defines "body \<equiv> be16 0 @ be32 (of_nat (length q)) @ strn q @ zeros (if v = version3 then 3 else 0)"
  shows "readFromV3 p (header v t (be32 (crc32_of (header v t (zeros 4) r @ body))) r @ body) =
    Inr (p\<lparr>pk_type := t, pk_version := v, pk_crc32 := crc32_of (header v t (zeros 4) r @ body),
      pk_calculatedCRC32 := crc32_of (header v t (zeros 4) r @ body), pk_result := r, pk_payload := c_str q\<rparr>)"
proof -
  let ?h = "\<lambda>c. header v t c r" and ?c = "crc32_of (header v t (zeros 4) r @ body)"
  let ?src = "if v = version4 then get_packet_length_v4 (length q) else get_packet_length_v3 (length q)"
  have l: "rd32 (?h (be32 ?c) @ body) 12 = of_nat (length q)"
    by (rule rd32_be32) (simp add: body_def)
  have al: "put 10 (zeros 2) (?h (zeros 4) @ body) = ?h (zeros 4) @ body"
  proof -
    have "be16 0 = zeros 2" by (simp add: be16_def zeros_def numeral_2_eq_2 char_of_def)
    then show ?thesis unfolding body_def by (simp only:) (rule put_mid, simp_all)
  qed
  have len: "length body = ?src - 10" "10 \<le> ?src" "16 \<le> length (?h (be32 ?c) @ body)"
    using assms(2) by (auto simp: body_def get_packet_length_v3_def get_packet_length_v4_def sizeof_packet_v3_def version3_def version4_def)
  then have cov: "take ?src (?h (zeros 4) @ body) = ?h (zeros 4) @ body" "\<not> length (?h (be32 ?c) @ body) < ?src" by simp_all
  have pay: "fetch_payload buffer_offset_v3 (?h (be32 ?c) @ body) (buffer_offset_v3 + length q) = c_str q"
    using c_str_strn [of q 0] by (simp add: fetch_payload_def buffer_offset_v3_def body_def)
  have sl: "sint (of_nat (length q) :: 32 word) = int (length q)" by (rule sint_of_nat32 [OF assms(3)])
  have seal: "put 4 (zeros 4) (?h (be32 ?c) @ body) = ?h (zeros 4) @ body" by (rule header_seal) simp_all
  show ?thesis
    unfolding readFromV3_def Let_def l sl header_fields(1-3) [OF be_length(2)] header_checksum seal al nat_int cov(1) pay
    using assms(1-3) len(3) cov(2) by (auto simp: buffer_offset_v3_def)
qed

lemma packet_of_v3:
  assumes "sendable p" "pk_version p \<noteq> version2" "get_buffer p = Inr b"
  shows "\<exists>q. packet_of b n = Inr q \<and> message_of q = message_of p \<and> verifyCRC q"
proof -
  have len: "length (pk_payload p) \<le> 1024 * 1024" and t: "known_type (pk_type p)" and z: "CHR 0x00 \<notin> set (pk_payload p)"
    and v: "pk_version p = version3 \<or> pk_version p = version4"
    using assms(1,2) by (auto simp: sendable_def)
  let ?b = "header (pk_version p) (pk_type p) (be32 (crc32_of (header (pk_version p) (pk_type p) (zeros 4) (pk_result p) @ v3_body p)))
    (pk_result p) @ v3_body p"
  have b: "b = ?b" using assms(3) get_buffer_v3 [OF assms(2)] by (simp only: sum.inject)
  have "rd16 ?b 0 = pk_version p" "\<not> length ?b < 4" by (simp_all add: header_fields)
  with v have "packet_of b n = readFromV3 (new_packet 0 0 0 [] n) ?b"
    by (simp add: b packet_of_def readFrom_def sizeof_packet_header_def)
  then show ?thesis
    using readFromV3_header [OF t v len, folded v3_body_def] z by (simp add: message_of_def verifyCRC_def c_str_id)
qed

lemma get_buffer_length:
  assumes "sendable p" "get_buffer p = Inr b"
  shows "12 \<le> length b" "pk_version p = version2 \<Longrightarrow> length b = 12 + pk_payload_length p"
proof -
  have "length b = 12 + pk_payload_length p" if "pk_version p = version2"
    using that assms get_buffer_v2 [OF that] by (auto simp: sendable_def version2_def version3_def version4_def)
  moreover have "12 \<le> length b" if "pk_version p \<noteq> version2"
    using assms(2) get_buffer_v3 [OF that] by (auto simp: v3_body_def)
  ultimately show "12 \<le> length b" "pk_version p = version2 \<Longrightarrow> length b = 12 + pk_payload_length p"
    by (metis le_add1, blast)
qed

interpretation nrpe: wire_codec get_buffer packet_of_buffer sendable message_of message_of
proof
  show "\<exists>b. get_buffer p = Inr b" if "sendable p" for p
    using that get_buffer_v2 [of p] get_buffer_v3 [of p]
    by (cases "pk_version p = version2") (auto simp: sendable_def version2_def version3_def version4_def)
  show "\<exists>q. packet_of_buffer b = Inr q \<and> message_of q = message_of p" if "sendable p" "get_buffer p = Inr b" for p b
    using packet_of_v2 [OF that(1) _ that(2)] packet_of_v3 [OF that(1) _ that(2)] get_buffer_length [OF that]
    by (cases "pk_version p = version2") (auto simp: packet_of_buffer_def get_payload_length_def sizeof_packet_v2_def)
qed

text \<open>
  C16. What is sent is received: a packet of version 2, 3 or 4 of a known type, with a payload
  free of zero bytes that is shorter than the configured payload (version 2) or at most one
  mebibyte (version 3 and 4), is encoded; a peer with the same payload length decodes the
  bytes without an error to the same type, version, result and payload, and the checksum holds.
\<close>

theorem nrpe_roundtrip:
  assumes "sendable p"
  shows "\<exists>b q. get_buffer p = Inr b \<and> packet_of b (pk_payload_length p) = Inr q \<and>
    (pk_type q, pk_version q, pk_result q, pk_payload q) = (pk_type p, pk_version p, pk_result p, pk_payload p) \<and> verifyCRC q"
proof -
  obtain b where "get_buffer p = Inr b" using nrpe.encodes [OF assms] by blast
  then show ?thesis
    using packet_of_v2 [OF assms] packet_of_v3 [OF assms, of b "pk_payload_length p"]
    unfolding message_of_def by (cases "pk_version p = version2") blast+
qed

theorem nrpe_roundtrip_witness:
  "\<exists>b q. get_buffer (new_packet queryPacket version2 0 ''check_cpu'' 1024) = Inr b \<and> packet_of b 1024 = Inr q \<and>
     pk_payload q = ''check_cpu''"
proof -
  have "sendable (new_packet queryPacket version2 0 ''check_cpu'' 1024)"
    by (simp add: sendable_def new_packet_def known_type_def)
  from nrpe_roundtrip [OF this] show ?thesis by (auto simp: new_packet_def)
qed

section \<open>Corruption and trailing bytes\<close>

lemma crc32_of_inj: "crc32_of s = crc32_of t \<longleftrightarrow> calculate_crc32 s = calculate_crc32 t"
proof
  assume eq: "crc32_of s = crc32_of t"
  have r: "take_bit 32 (calculate_crc32 u) = calculate_crc32 u" for u by (rule calculate_crc32_range)
  have "(ucast (crc32_of u) :: 64 word) = take_bit 32 (calculate_crc32 u)" for u
    by (rule bit_word_eqI) (auto simp: crc32_of_def bit_simps)
  with eq r show "calculate_crc32 s = calculate_crc32 t" by metis
qed (simp add: crc32_of_def)

lemma crc32_of_update:
  assumes "i < length s" "c \<noteq> s ! i"
  shows "crc32_of (s[i := c]) \<noteq> crc32_of s"
proof
  assume "crc32_of (s[i := c]) = crc32_of s"
  then have "calculate_crc32 (take i s @ c # drop (Suc i) s) = calculate_crc32 (take i s @ s ! i # drop (Suc i) s)"
    using assms(1) by (simp add: crc32_of_inj upd_conv_take_nth_drop id_take_nth_drop [symmetric])
  with assms(2) show False by (auto dest: crc32_one_byte)
qed

lemma rd16_append: "i + 1 < length b \<Longrightarrow> rd16 (b @ t) i = rd16 b i"
  by (simp add: rd16_def nth_append)

lemma rd32_append: "i + 3 < length b \<Longrightarrow> rd32 (b @ t) i = rd32 b i"
  by (simp add: rd32_def nth_append)

lemma put_append: "i + length bs \<le> length b \<Longrightarrow> put i bs (b @ t) = put i bs b @ t"
  by (simp add: put_def)

lemma rd32_update_in:
  assumes "4 \<le> i" "i < 8" "i < length b" "8 \<le> length b" "c \<noteq> b ! i"
  shows "rd32 (b[i := c]) 4 \<noteq> rd32 b 4"
proof
  assume eq: "rd32 (b[i := c]) 4 = rd32 b 4"
  have ne: "of_char c \<noteq> (of_char (b ! i) :: nat)" using assms(5) by simp
  have "i = 4 \<or> i = 5 \<or> i = 6 \<or> i = 7" using assms(1,2) by linarith
  then show False
    using arg_cong [OF eq, of unat] ne assms(3,4) by (elim disjE) (simp_all add: unat_rd32)
qed

text \<open>
  C21. A corrupted packet is rejected: change any one byte of a version 2 packet the decoder
  accepts, from the packet type on, and the decoder throws - whether the byte belongs to the
  type, the checksum, the result code, the payload or the padding after it.
\<close>

theorem corrupted_byte_rejected:
  assumes "packet_of b n = Inr q" and "pk_version q = version2" and "2 \<le> i" and "i < length b" and "c \<noteq> b ! i"
  shows "\<exists>e. packet_of (b[i := c]) n = Inl e"
proof -
  let ?b = "b[i := c]" and ?p = "new_packet 0 0 0 [] n"
  have v2: "readFromV2 ?p b = Inr q" and len: "length b = 12 + n" and v: "rd16 b 0 = version2"
    using assms(1,2)
    by (auto simp: packet_of_def readFrom_def readFromV3_def readFromV2_def Let_def new_packet_def get_packet_length_v2_def
        sizeof_packet_v2_def version2_def version3_def version4_def split: if_splits)
  then have crc: "rd32 b 4 = crc32_of (put 4 (zeros 4) b)"
    by (auto simp: readFromV2_def Let_def new_packet_def get_packet_length_v2_def sizeof_packet_v2_def split: if_splits)
  have "rd16 ?b 0 = rd16 b 0" using assms(3) by (simp add: rd16_def)
  with v len have "packet_of ?b n = readFromV2 ?p ?b"
    by (simp add: packet_of_def readFrom_def sizeof_packet_header_def version2_def version3_def version4_def)
  moreover have "rd32 ?b 4 \<noteq> crc32_of (put 4 (zeros 4) ?b)"
  proof (cases "4 \<le> i \<and> i < 8")
    case True
    then have "put 4 (zeros 4) ?b = put 4 (zeros 4) b" by (simp add: put_def)
    with True crc rd32_update_in [of i b c] assms(4,5) len show ?thesis by simp
  next
    case False
    then have "rd32 ?b 4 = rd32 b 4" using assms(3) by (auto simp: rd32_def)
    moreover have "put 4 (zeros 4) ?b = (put 4 (zeros 4) b)[i := c]"
      by (rule nth_equalityI) (use False len assms(4) in \<open>auto simp: put_nth nth_list_update\<close>)
    moreover have "c \<noteq> put 4 (zeros 4) b ! i" using False len assms(4,5) by (auto simp: put_nth)
    ultimately show ?thesis using crc crc32_of_update [of i "put 4 (zeros 4) b" c] len assms(4) by simp
  qed
  ultimately show ?thesis
    using len by (auto simp: readFromV2_def Let_def new_packet_def get_packet_length_v2_def sizeof_packet_v2_def)
qed

theorem corrupted_byte_rejected_witness:
  "\<exists>b e. get_buffer (new_packet queryPacket version2 0 ''ok'' 4) = Inr b \<and> packet_of (b[10 := CHR ''k'']) 4 = Inl e"
proof -
  let ?p = "new_packet queryPacket version2 0 ''ok'' 4"
  have s: "sendable ?p" by (simp add: sendable_def new_packet_def known_type_def)
  obtain b where b: "get_buffer ?p = Inr b" using nrpe.encodes [OF s] by blast
  obtain q where q: "packet_of b 4 = Inr q" "message_of q = message_of ?p"
    using packet_of_v2 [OF s _ b] by (auto simp: new_packet_def)
  have "length b = 16" "b ! 10 = CHR ''o''"
    using b get_buffer_v2 [of ?p] by (auto simp: new_packet_def nth_append strn_def c_str_def)
  with corrupted_byte_rejected [OF q(1), of 10 "CHR ''k''"] q(2) b show ?thesis
    by (auto simp: message_of_def new_packet_def)
qed

text \<open>
  Bytes after the declared packet are never read: once the decoder accepts a version 3 or 4
  packet, any bytes that follow it in the buffer change nothing - neither the payload that is
  dispatched nor whether the checksum holds.
\<close>

theorem trailing_bytes_ignored:
  assumes "packet_of b n = Inr q" and "pk_version q \<noteq> version2"
  shows "packet_of (b @ t) n = Inr q"
proof -
  let ?p = "new_packet 0 0 0 [] n" and ?d = "nat (sint (rd32 b 12))" and ?v = "rd16 b 0"
  let ?src = "if ?v = version4 then get_packet_length_v4 ?d else get_packet_length_v3 ?d"
  have v: "?v = version3 \<or> ?v = version4"
    using assms by (auto simp: packet_of_def readFrom_def readFromV2_def Let_def split: if_splits)
  with assms(1) have r: "readFromV3 ?p b = Inr q" by (auto simp: packet_of_def readFrom_def split: if_splits)
  then have len: "16 \<le> length b" "?src \<le> length b"
    by (auto simp: readFromV3_def Let_def buffer_offset_v3_def split: if_splits)
  have src: "16 + ?d \<le> ?src" by (simp add: get_packet_length_v3_def get_packet_length_v4_def sizeof_packet_v3_def)
  have reads: "rd16 (b @ t) 0 = ?v" "rd16 (b @ t) 2 = rd16 b 2" "rd16 (b @ t) 8 = rd16 b 8" "rd32 (b @ t) 4 = rd32 b 4"
      "rd32 (b @ t) 12 = rd32 b 12"
    using len(1) by (simp_all add: rd16_append rd32_append)
  have calc: "take ?src (put 10 (zeros 2) (put 4 (zeros 4) (b @ t))) = take ?src (put 10 (zeros 2) (put 4 (zeros 4) b))"
    using len by (simp add: put_append)
  have pay: "fetch_payload buffer_offset_v3 (b @ t) (buffer_offset_v3 + ?d) = fetch_payload buffer_offset_v3 b (buffer_offset_v3 + ?d)"
    using len src by (simp add: fetch_payload_def buffer_offset_v3_def)
  have long: "\<not> length b < buffer_offset_v3" "\<not> length (b @ t) < buffer_offset_v3" "\<not> length b < ?src" "\<not> length (b @ t) < ?src"
    using len by (simp_all add: buffer_offset_v3_def)
  have "readFromV3 ?p (b @ t) = readFromV3 ?p b"
    unfolding readFromV3_def Let_def reads calc pay by (simp only: long if_False)
  with r v reads(1) len(1) show ?thesis by (auto simp: packet_of_def readFrom_def sizeof_packet_header_def)
qed

theorem trailing_bytes_ignored_witness:
  "\<exists>b q. get_buffer (new_packet queryPacket version4 0 ''check_ok'' 1024) = Inr b \<and>
     packet_of (b @ ''!bad'') 1024 = Inr q \<and> pk_payload q = ''check_ok''"
proof -
  let ?p = "new_packet queryPacket version4 0 ''check_ok'' 1024"
  have s: "sendable ?p" by (simp add: sendable_def new_packet_def known_type_def)
  obtain b where b: "get_buffer ?p = Inr b" using nrpe.encodes [OF s] by blast
  obtain q where "packet_of b 1024 = Inr q" "message_of q = message_of ?p"
    using packet_of_v3 [OF s _ b, of 1024] by (auto simp: new_packet_def version2_def version4_def)
  with trailing_bytes_ignored [of b 1024 q "''!bad''"] b show ?thesis
    by (auto simp: message_of_def new_packet_def version2_def version4_def)
qed

end
