(* ===== verification/Nrpe_Server.thy ===== *)
theory Nrpe_Server
  imports Nrpe_Packet
begin

text \<open>
  The NRPE server and client around the packet: the parser that collects a packet from the
  bytes as they arrive (\<^verbatim>\<open>include/net/nrpe/server/parser.hpp\<close>), the connection
  (\<^verbatim>\<open>server/protocol.hpp\<close>), the request handler (\<^verbatim>\<open>modules/NRPEServer/NRPEServer.cpp\<close>)
  and the client (\<^verbatim>\<open>client/nrpe_client_protocol.hpp\<close>). Logging has no effect on any of
  them and is left out; the core, the character conversions and the handler are parameters.
\<close>

section \<open>Parser\<close>

record parser =
  ps_payload_length :: nat
  ps_buffer :: string

definition new_parser :: "nat \<Rightarrow> parser" where
  "new_parser len = \<lparr>ps_payload_length = len, ps_buffer = []\<rparr>"

definition ps_size :: "parser \<Rightarrow> nat" where "ps_size p = length (ps_buffer p)"

definition read_version :: "parser \<Rightarrow> int" where
  "read_version p = (if ps_size p < sizeof_packet_header then - 1 else sint (rd16 (ps_buffer p) 0))"

definition read_len :: "parser \<Rightarrow> int" where
  "read_len p = (if ps_size p < buffer_offset_v3 then - 1 else sint (rd32 (ps_buffer p) 12))"

definition ps_packet_length_v2 :: "parser \<Rightarrow> nat" where
  "ps_packet_length_v2 p = get_packet_length_v2 (ps_payload_length p)"

definition has_v3_header :: "parser \<Rightarrow> bool" where
  "has_v3_header p \<longleftrightarrow> ps_size p \<ge> buffer_offset_v3"

text \<open>The advertised length is converted to \<^verbatim>\<open>size_t\<close>, so a negative one wraps.\<close>

definition size_t_of :: "int \<Rightarrow> nat" where "size_t_of i = nat (i mod 2 ^ 64)"

definition ps_packet_length_v3 :: "parser \<Rightarrow> nat" where
  "ps_packet_length_v3 p =
     (if has_v3_header p
      then if read_version p = 3 then size_t_of (int sizeof_packet_v3 + read_len p - 1)
           else size_t_of (int sizeof_packet_v3 + read_len p - 4)
      else get_packet_length_v3 (ps_payload_length p))"

definition kMaxPayloadBytes :: nat where "kMaxPayloadBytes = 1024 * 1024"
definition kMaxBufferBytes :: nat where "kMaxBufferBytes = sizeof_packet_v3 + kMaxPayloadBytes"

definition push_back :: "char \<Rightarrow> parser \<Rightarrow> parser" where
  "push_back c p = p\<lparr>ps_buffer := ps_buffer p @ [c]\<rparr>"

text \<open>
  The loops of \<^verbatim>\<open>digest\<close>. A result is whether the loop left the function with
  \<^verbatim>\<open>true\<close>, the parser and the bytes that were not consumed.
\<close>

fun fill_v2 :: "nat \<Rightarrow> parser \<Rightarrow> string \<Rightarrow> parser \<times> string" where
  "fill_v2 target p [] = (p, [])"
| "fill_v2 target p (c # cs) = (if ps_size p < target then fill_v2 target (push_back c p) cs else (p, c # cs))"

fun fill_v3 :: "nat \<Rightarrow> parser \<Rightarrow> string \<Rightarrow> bool \<times> parser \<times> string" where
  "fill_v3 target p [] = (False, p, [])"
| "fill_v3 target p (c # cs) =
     (if ps_size p < target
      then if ps_size p \<ge> kMaxBufferBytes then (True, p, c # cs) else fill_v3 target (push_back c p) cs
      else (False, p, c # cs))"

lemma fill_v3_length: "length (snd (snd (fill_v3 target p cs))) \<le> length cs"
  by (induction target p cs rule: fill_v3.induct) (auto split: if_splits)

lemma fill_v3_consumes:
  "fill_v3 target p cs = (False, p', rest) \<Longrightarrow> ps_size p < target \<Longrightarrow> cs \<noteq> [] \<Longrightarrow> length rest < length cs"
  using fill_v3_length [of target "push_back (hd cs) p" "tl cs"]
  by (cases cs) (auto simp: less_Suc_eq_le split: if_splits)

definition v3_target :: "parser \<Rightarrow> nat" where
  "v3_target p = (if has_v3_header p then ps_packet_length_v3 p else buffer_offset_v3)"

function digest_v3 :: "parser \<Rightarrow> string \<Rightarrow> bool \<times> parser \<times> string" where
  "digest_v3 p cs =
     (if cs = [] then (False, p, cs)
      else if has_v3_header p \<and> read_len p < 0 then (True, p, cs)
      else if has_v3_header p \<and> v3_target p > kMaxBufferBytes then (True, p, cs)
      else if ps_size p \<ge> v3_target p then (False, p, cs)
      else case fill_v3 (v3_target p) p cs of (stop, p', rest) \<Rightarrow> if stop then (True, p', rest) else digest_v3 p' rest)"
  by pat_completeness auto
termination
  by (relation "measure (\<lambda>(p, cs). length cs)") (auto dest!: fill_v3_consumes [OF sym])

declare digest_v3.simps [simp del]

definition is_complete :: "parser \<Rightarrow> bool" where
  "is_complete p =
     (let v = read_version p
      in if v = 3 \<or> v = 4 then
           has_v3_header p \<and>
             (let n = ps_packet_length_v3 p in n < buffer_offset_v3 \<or> n > kMaxBufferBytes \<or> ps_size p \<ge> n)
         else if v = 2 then ps_packet_length_v2 p > kMaxBufferBytes \<or> ps_size p \<ge> ps_packet_length_v2 p
         else v \<noteq> - 1)"

definition digest :: "parser \<Rightarrow> string \<Rightarrow> bool \<times> parser \<times> string" where
  "digest p cs =
     (let v = read_version p
      in if v = - 1 \<or> v = 2 then (case fill_v2 (ps_packet_length_v2 p) p cs of (p', rest) \<Rightarrow> (is_complete p', p', rest))
         else if v = 3 \<or> v = 4
         then (case digest_v3 p cs of (stop, p', rest) \<Rightarrow> (stop \<or> is_complete p', p', rest))
         else (is_complete p, p, cs))"

definition ps_reset :: "parser \<Rightarrow> parser" where "ps_reset p = p\<lparr>ps_buffer := []\<rparr>"

text \<open>A packet that does not decode leaves the buffer as it is.\<close>

definition ps_parse :: "parser \<Rightarrow> packet res \<times> parser" where
  "ps_parse p = (case packet_of (ps_buffer p) (ps_payload_length p) of
     Inl e \<Rightarrow> (Inl e, p) | Inr q \<Rightarrow> (Inr q, ps_reset p))"

section \<open>Connection\<close>

datatype protocol_state = proto_none | proto_connected | proto_has_more | proto_last_packet | proto_done

record read_protocol =
  rp_parser :: parser
  rp_state :: protocol_state
  rp_data :: string
  rp_responses :: "packet list"
  rp_version :: "16 word"
  rp_peer_identity :: string

record handler =
  h_handle :: "packet \<Rightarrow> string \<Rightarrow> packet list res"
  h_create_error :: "string \<Rightarrow> packet"
  h_payload_length :: nat
  h_from_native :: "string \<Rightarrow> string"

definition new_protocol :: "handler \<Rightarrow> read_protocol" where
  "new_protocol H = \<lparr>rp_parser = new_parser (h_payload_length H), rp_state = proto_none, rp_data = [], rp_responses = [],
     rp_version = version2, rp_peer_identity = []\<rparr>"

definition set_peer_identity :: "string \<Rightarrow> read_protocol \<Rightarrow> read_protocol" where
  "set_peer_identity identity s = s\<lparr>rp_peer_identity := identity\<rparr>"

text \<open>\<open>allowed\<close> is the answer of the allowed hosts for the peer.\<close>

definition on_accept :: "bool \<Rightarrow> read_protocol \<Rightarrow> bool \<times> read_protocol" where
  "on_accept allowed s = (allowed, s\<lparr>rp_parser := ps_reset (rp_parser s)\<rparr>)"

definition on_connect :: "read_protocol \<Rightarrow> bool \<times> read_protocol" where
  "on_connect s = (True, s\<lparr>rp_state := proto_connected\<rparr>)"

definition wants_data :: "read_protocol \<Rightarrow> bool" where
  "wants_data s \<longleftrightarrow> rp_state s = proto_connected"

definition has_data :: "read_protocol \<Rightarrow> bool" where
  "has_data s \<longleftrightarrow> rp_state s = proto_has_more \<or> rp_state s = proto_last_packet"

function queue_loop :: "handler \<Rightarrow> bool \<Rightarrow> read_protocol \<Rightarrow> read_protocol" where
  "queue_loop H reported s =
     (case rp_responses s of
        [] \<Rightarrow> s\<lparr>rp_data := [], rp_state := proto_done\<rparr>
      | r # rs \<Rightarrow> (case get_buffer r of
            Inr b \<Rightarrow> s\<lparr>rp_responses := rs, rp_data := b,
                 rp_state := if rs \<noteq> [] then proto_has_more else proto_last_packet\<rparr>
          | Inl e \<Rightarrow> if reported then queue_loop H True (s\<lparr>rp_responses := rs\<rparr>)
                else queue_loop H True (s\<lparr>rp_responses := h_create_error H ''Failed to create return package'' # rs\<rparr>)))"
  by pat_completeness auto
termination
  by (relation "measures [\<lambda>(H, reported, s). if reported then 0 else 1, \<lambda>(H, reported, s). length (rp_responses s)]") auto

declare queue_loop.simps [simp del]

definition queue_next :: "handler \<Rightarrow> read_protocol \<Rightarrow> read_protocol" where
  "queue_next H s = queue_loop H False s"

definition process_failed :: "handler \<Rightarrow> exn \<Rightarrow> read_protocol \<Rightarrow> read_protocol" where
  "process_failed H e s = s\<lparr>rp_responses := rp_responses s @ [h_create_error H
     (if is_std_exception e then ''Exception processing request: '' @ h_from_native H (exn_what e)
      else ''Exception processing request'')]\<rparr>"

definition process_request :: "handler \<Rightarrow> packet \<Rightarrow> read_protocol \<Rightarrow> read_protocol" where
  "process_request H request s =
     (let s' = s\<lparr>rp_version := pk_version request\<rparr>
      in case h_handle H request (rp_peer_identity s') of
           Inl e \<Rightarrow> process_failed H e s' | Inr rs \<Rightarrow> s'\<lparr>rp_responses := rs\<rparr>)"

definition answer :: "handler \<Rightarrow> read_protocol \<Rightarrow> read_protocol" where
  "answer H s = (case ps_parse (rp_parser s) of
     (Inl e, p') \<Rightarrow> queue_next H (process_failed H e (s\<lparr>rp_parser := p'\<rparr>))
   | (Inr request, p') \<Rightarrow> queue_next H (process_request H request (s\<lparr>rp_parser := p'\<rparr>)))"

text \<open>Reading moves bytes from the input to the buffer and changes nothing else.\<close>

definition took :: "parser \<Rightarrow> string \<Rightarrow> parser \<Rightarrow> string \<Rightarrow> bool" where
  "took p cs p' rest \<longleftrightarrow> (\<exists>u. cs = u @ rest \<and> p' = p\<lparr>ps_buffer := ps_buffer p @ u\<rparr>)"

lemma took_refl [simp]: "took p cs p cs"
  by (simp add: took_def)

lemma took_push: "took (push_back c p) cs p' rest \<Longrightarrow> took p (c # cs) p' rest"
  by (auto simp: took_def push_back_def)

lemma took_trans: "took p cs p' ds \<Longrightarrow> took p' ds p'' rest \<Longrightarrow> took p cs p'' rest"
  by (auto simp: took_def)

lemma took_length: "took p cs p' rest \<Longrightarrow> length rest \<le> length cs"
  by (auto simp: took_def)

lemma fill_v2_took: "fill_v2 target p cs = (p', rest) \<Longrightarrow> took p cs p' rest"
  by (induction target p cs rule: fill_v2.induct) (auto split: if_splits intro: took_push)

lemma fill_v3_took: "fill_v3 target p cs = (r, p', rest) \<Longrightarrow> took p cs p' rest"
  by (induction target p cs rule: fill_v3.induct) (auto split: if_splits intro: took_push)

lemma digest_v3_took: "digest_v3 p cs = (r, p', rest) \<Longrightarrow> took p cs p' rest"
proof (induction p cs arbitrary: r p' rest rule: digest_v3.induct)
  case (1 p cs)
  obtain stop q ds where f: "fill_v3 (v3_target p) p cs = (stop, q, ds)" by (cases "fill_v3 (v3_target p) p cs") auto
  consider "p' = p" "rest = cs" | "stop" "p' = q" "rest = ds"
    | "cs \<noteq> []" "\<not> (has_v3_header p \<and> read_len p < 0)" "\<not> (has_v3_header p \<and> v3_target p > kMaxBufferBytes)"
      "\<not> ps_size p \<ge> v3_target p" "\<not> stop" "digest_v3 q ds = (r, p', rest)"
    using 1(2) unfolding digest_v3.simps [of p cs] f prod.case by (auto split: if_splits)
  then show ?case
  proof cases
    case 3
    from 1(1) [OF 3(1-4) f [symmetric] refl 3(5,6)] show ?thesis by (rule took_trans [OF fill_v3_took [OF f]])
  qed (use fill_v3_took [OF f] in auto)
qed

lemma digest_took: "digest p cs = (r, p', rest) \<Longrightarrow> took p cs p' rest"
  by (auto simp: digest_def Let_def split: prod.splits if_splits dest: fill_v2_took digest_v3_took)

lemma digest_length: "digest p cs = (r, p', rest) \<Longrightarrow> length rest \<le> length cs"
  by (rule took_length [OF digest_took])

function on_read :: "handler \<Rightarrow> string \<Rightarrow> read_protocol \<Rightarrow> bool \<times> read_protocol" where
  "on_read H cs s =
     (if cs = [] then (True, s)
      else case digest (rp_parser s) cs of (result, p', rest) \<Rightarrow>
        let s' = s\<lparr>rp_parser := p'\<rparr>
        in if result then (True, answer H s')
           else if length rest = length cs then (False, s')
           else on_read H rest s')"
  by pat_completeness auto
termination
  by (relation "measure (\<lambda>(H, cs, s). length cs)") (auto dest!: digest_length [OF sym])

declare on_read.simps [simp del]

definition on_write :: "handler \<Rightarrow> read_protocol \<Rightarrow> read_protocol" where
  "on_write H s = (if rp_state s = proto_last_packet then s\<lparr>rp_state := proto_done\<rparr> else queue_next H s)"

section \<open>Progress and bounds of the parser\<close>

lemma ps_size_push [simp]: "ps_size (push_back c p) = Suc (ps_size p)"
  by (simp add: ps_size_def push_back_def)

lemma took_size: "took p cs p' rest \<Longrightarrow> ps_size p' + length rest = ps_size p + length cs"
  by (auto simp: took_def ps_size_def)

lemma took_config: "took p cs p' rest \<Longrightarrow> ps_payload_length p' = ps_payload_length p"
  by (auto simp: took_def)

lemma fill_v2_size: "fill_v2 target p cs = (p', rest) \<Longrightarrow> ps_size p' \<le> max target (ps_size p)"
  by (induction target p cs rule: fill_v2.induct) (auto split: if_splits)

lemma fill_v3_size: "fill_v3 target p cs = (r, p', rest) \<Longrightarrow> ps_size p' \<le> max target (ps_size p)"
  by (induction target p cs rule: fill_v3.induct) (auto split: if_splits)

lemma digest_v3_cases:
  assumes "digest_v3 p cs = (r, p', rest)"
  obtains "p' = p" "rest = cs" "r = (cs \<noteq> [] \<and> has_v3_header p \<and> (read_len p < 0 \<or> v3_target p > kMaxBufferBytes))"
      "\<not> r \<Longrightarrow> cs = [] \<or> ps_size p \<ge> v3_target p"
  | q ds where "cs \<noteq> []" "\<not> (has_v3_header p \<and> read_len p < 0)" "\<not> (has_v3_header p \<and> v3_target p > kMaxBufferBytes)"
      "ps_size p < v3_target p" "fill_v3 (v3_target p) p cs = (r, q, ds)" "r" "p' = q" "rest = ds"
  | q ds where "cs \<noteq> []" "\<not> (has_v3_header p \<and> read_len p < 0)" "\<not> (has_v3_header p \<and> v3_target p > kMaxBufferBytes)"
      "ps_size p < v3_target p" "fill_v3 (v3_target p) p cs = (False, q, ds)" "digest_v3 q ds = (r, p', rest)"
proof -
  obtain stop q ds where f: "fill_v3 (v3_target p) p cs = (stop, q, ds)" by (cases "fill_v3 (v3_target p) p cs") auto
  from assms show ?thesis
    unfolding digest_v3.simps [of p cs] f prod.case
    by (auto split: if_splits intro: that(1) that(2) [of q ds] that(3) [of q ds] simp: f not_le)
qed

lemma v3_target_limit: "\<not> (has_v3_header p \<and> v3_target p > kMaxBufferBytes) \<Longrightarrow> v3_target p \<le> kMaxBufferBytes"
  by (auto simp: v3_target_def kMaxBufferBytes_def buffer_offset_v3_def kMaxPayloadBytes_def)

lemma digest_v3_size: "digest_v3 p cs = (r, p', rest) \<Longrightarrow> ps_size p' \<le> max kMaxBufferBytes (ps_size p)"
proof (induction p cs arbitrary: r p' rest rule: digest_v3.induct)
  case (1 p cs)
  from 1(2) show ?case
  proof (cases rule: digest_v3_cases)
    case (2 q ds)
    with v3_target_limit [of p] fill_v3_size [of "v3_target p" p cs r q ds] show ?thesis by auto
  next
    case (3 q ds)
    have "ps_size p' \<le> max kMaxBufferBytes (ps_size q)"
      using 1(1) [OF 3(1-3) _ 3(5) [symmetric] refl _ 3(6)] 3(4) by simp
    with v3_target_limit [OF 3(3)] fill_v3_size [OF 3(5)] show ?thesis by linarith
  qed simp
qed

text \<open>
  C18. The bytes of a connection are kept in order and bounded: what a call of \<^verbatim>\<open>digest\<close> does not
  leave in the input is appended to the buffer unchanged, and a buffer that starts within the
  limit - a version 2 packet of the configured payload, or the hard cap of one mebibyte and the
  header - stays within it whatever lengths the peer announces.
\<close>

theorem digest_bounded:
  assumes "digest p cs = (r, p', rest)" and "ps_size p \<le> max (ps_packet_length_v2 p) kMaxBufferBytes"
  shows "ps_buffer p' @ rest = ps_buffer p @ cs \<and> ps_size p' \<le> max (ps_packet_length_v2 p') kMaxBufferBytes"
proof
  have t: "took p cs p' rest" by (rule digest_took [OF assms(1)])
  then show "ps_buffer p' @ rest = ps_buffer p @ cs" by (auto simp: took_def)
  have "ps_size p' \<le> max (max (ps_packet_length_v2 p) kMaxBufferBytes) (ps_size p)"
    using assms(1) by (auto simp: digest_def Let_def split: prod.splits if_splits dest!: fill_v2_size digest_v3_size)
  with assms(2) took_config [OF t] show "ps_size p' \<le> max (ps_packet_length_v2 p') kMaxBufferBytes"
    by (simp add: ps_packet_length_v2_def)
qed

theorem digest_bounded_witness:
  "\<exists>r p' rest. digest (new_parser 4) ''abcdefghijklmnopqrst'' = (r, p', rest) \<and> ps_buffer p' @ rest = ''abcdefghijklmnopqrst''"
proof -
  obtain r p' rest where d: "digest (new_parser 4) ''abcdefghijklmnopqrst'' = (r, p', rest)"
    by (cases "digest (new_parser 4) ''abcdefghijklmnopqrst''") auto
  from digest_bounded [OF d] d show ?thesis by (auto simp: new_parser_def ps_size_def)
qed

lemma digest_result: "digest p cs = (False, p', rest) \<Longrightarrow> \<not> is_complete p'"
  by (auto simp: digest_def Let_def split: prod.splits if_splits)

text \<open>A parser that waits for more takes at least one byte, or has an answer.\<close>

lemma fill_v2_progress: "fill_v2 target p cs = (p', rest) \<Longrightarrow> ps_size p < target \<Longrightarrow> cs \<noteq> [] \<Longrightarrow> length rest < length cs"
  using took_length [OF fill_v2_took, of target "push_back (hd cs) p" "tl cs"]
  by (cases cs) (auto simp: less_Suc_eq_le split: if_splits)

lemma digest_v3_progress:
  assumes "digest_v3 p cs = (False, p', rest)" "ps_size p < v3_target p" "cs \<noteq> []"
  shows "length rest < length cs"
  using assms(1)
proof (cases rule: digest_v3_cases)
  case (3 q ds)
  have "length ds < length cs" using fill_v3_consumes [OF 3(5)] assms(2,3) by simp
  moreover have "length rest \<le> length ds" using took_length [OF digest_v3_took [OF 3(6)]] .
  ultimately show ?thesis by simp
qed (use assms in auto)

definition announces_no_version :: "string \<Rightarrow> bool" where
  "announces_no_version b \<longleftrightarrow> length b \<ge> 4 \<and> rd16 b 0 = - 1"

lemma digest_progress:
  assumes "digest p cs = (r, p', rest)" and "\<not> is_complete p" and "\<not> announces_no_version (ps_buffer p)" and "cs \<noteq> []"
  shows "r \<or> length rest < length cs"
proof (cases "read_version p = - 1 \<or> read_version p = 2")
  case True
  have "ps_size p < ps_packet_length_v2 p"
  proof (cases "ps_size p < 4")
    case True
    then show ?thesis by (simp add: ps_packet_length_v2_def get_packet_length_v2_def sizeof_packet_v2_def)
  next
    case False
    have "sint (rd16 (ps_buffer p) 0) \<noteq> - 1"
      using False assms(3) by (metis announces_no_version_def ps_size_def not_less signed_minus_1 signed_word_eqI)
    with False True have "read_version p = 2" by (auto simp: read_version_def sizeof_packet_header_def)
    with assms(2) show ?thesis by (simp add: is_complete_def Let_def)
  qed
  with True assms(1,4) show ?thesis
    by (auto simp: digest_def Let_def split: prod.splits dest: fill_v2_progress)
next
  case False
  with assms(2) have v: "read_version p = 3 \<or> read_version p = 4" by (auto simp: is_complete_def Let_def split: if_splits)
  have "ps_size p < v3_target p"
    using assms(2) v by (auto simp: is_complete_def Let_def v3_target_def has_v3_header_def not_le split: if_splits)
  with False v assms(1,4) show ?thesis
    by (auto simp: digest_def Let_def split: prod.splits dest: digest_v3_progress)
qed

text \<open>
  C20. The server never gives up on a peer that keeps sending: with a parser that waits for more,
  reading any bytes succeeds - the branch that drops the connection because \<^verbatim>\<open>digest\<close> consumed
  nothing is only reached when the bytes announce the version \<open>-1\<close>, which the parser cannot
  tell from no version at all.
\<close>

theorem on_read_never_gives_up:
  assumes "on_read H cs s = (False, s')" and "\<not> is_complete (rp_parser s)"
  shows "announces_no_version (ps_buffer (rp_parser s'))"
  using assms
proof (induction H cs s arbitrary: s' rule: on_read.induct)
  case (1 H cs s)
  obtain r p' rest where d: "digest (rp_parser s) cs = (r, p', rest)" by (cases "digest (rp_parser s) cs") auto
  from 1(2) have cs: "cs \<noteq> []" and r: "\<not> r"
    and step: "(if length rest = length cs then (False, s\<lparr>rp_parser := p'\<rparr>) else on_read H rest (s\<lparr>rp_parser := p'\<rparr>)) = (False, s')"
    unfolding on_read.simps [of H cs s] d by (auto simp: Let_def split: if_splits)
  show ?case
  proof (cases "length rest = length cs")
    case True
    with digest_took [OF d] have "p' = rp_parser s" by (auto simp: took_def)
    with True step digest_progress [OF d 1(3)] cs r show ?thesis by auto
  next
    case False
    have "\<not> is_complete (rp_parser (s\<lparr>rp_parser := p'\<rparr>))" using digest_result d r by auto
    with 1(1) [OF cs d [symmetric] refl refl r False] step False show ?thesis by simp
  qed
qed

definition echo_handler :: handler where
  "echo_handler = \<lparr>h_handle = \<lambda>p _. Inr [create_response (pk_version p) 0 (pk_payload p) (pk_payload_length p)],
     h_create_error = \<lambda>msg. create_response version2 3 msg 0, h_payload_length = 0, h_from_native = id\<rparr>"

lemma fill_v2_take:
  "fill_v2 target p cs = (p\<lparr>ps_buffer := ps_buffer p @ take (target - ps_size p) cs\<rparr>, drop (target - ps_size p) cs)"
proof (induction target p cs rule: fill_v2.induct)
  case (2 target p c cs)
  show ?case
  proof (cases "ps_size p < target")
    case True
    then obtain k where "target = Suc (ps_size p + k)" using less_imp_Suc_add by blast
    with 2 True show ?thesis by (simp add: push_back_def ps_size_def)
  qed simp
qed simp

lemma no_version_stalls: "fst (on_read echo_handler (replicate 13 (CHR 0xFF)) (new_protocol echo_handler)) = False"
proof -
  let ?f = "\<lambda>n. replicate n (CHR 0xFF)" and ?s = "new_protocol echo_handler"
  define p where "p = \<lparr>ps_payload_length = 0, ps_buffer = ?f 12\<rparr>"
  have "rd16 (?f 12) 0 = - 1" by (simp add: rd16_def)
  then have v: "read_version p = - 1" "read_version (new_parser 0) = - 1"
    by (simp_all add: p_def new_parser_def read_version_def ps_size_def sizeof_packet_header_def)
  have "fill_v2 12 (new_parser 0) (?f 13) = (p, [CHR 0xFF])" "fill_v2 12 p ([CHR 0xFF]) = (p, [CHR 0xFF])"
    by (simp_all add: fill_v2_take new_parser_def p_def ps_size_def)
  moreover have "ps_packet_length_v2 p = 12" "ps_packet_length_v2 (new_parser 0) = 12"
    by (simp_all add: p_def new_parser_def ps_packet_length_v2_def get_packet_length_v2_def sizeof_packet_v2_def)
  ultimately have d: "digest (new_parser 0) (?f 13) = (False, p, [CHR 0xFF])" "digest p ([CHR 0xFF]) = (False, p, [CHR 0xFF])"
    using v by (simp_all add: digest_def is_complete_def)
  have s: "rp_parser ?s = new_parser 0" by (simp add: new_protocol_def echo_handler_def)
  show ?thesis
    by (subst on_read.simps, subst on_read.simps) (simp add: s d Let_def)
qed

theorem on_read_never_gives_up_witness:
  "\<exists>s'. on_read echo_handler (replicate 13 (CHR 0xFF)) (new_protocol echo_handler) = (False, s') \<and>
     announces_no_version (ps_buffer (rp_parser s'))"
proof -
  have c: "\<not> is_complete (rp_parser (new_protocol echo_handler))"
    by (simp add: new_protocol_def new_parser_def is_complete_def read_version_def ps_size_def sizeof_packet_header_def)
  obtain s' where "on_read echo_handler (replicate 13 (CHR 0xFF)) (new_protocol echo_handler) = (False, s')"
    using no_version_stalls by (metis prod.collapse)
  with on_read_never_gives_up [OF this c] show ?thesis by blast
qed

section \<open>Delivery\<close>

text \<open>The bytes of a packet as the parser of a server with the same configuration sees them.\<close>

definition expected :: "packet \<Rightarrow> parser \<Rightarrow> bool" where
  "expected q p \<longleftrightarrow> sendable q \<and> ps_packet_length_v2 p \<le> kMaxBufferBytes \<and>
     (pk_version q = version2 \<longrightarrow> pk_payload_length q = ps_payload_length p)"

lemma packet_bytes:
  assumes "sendable q" "get_buffer q = Inr b"
  shows "rd16 b 0 = pk_version q"
    and "pk_version q \<noteq> version2 \<Longrightarrow> rd32 b 12 = of_nat (length (pk_payload q))"
    and "pk_version q \<noteq> version2 \<Longrightarrow> length b = 16 + length (pk_payload q) + (if pk_version q = version3 then 3 else 0)"
proof -
  let ?h = "\<lambda>c body. header (pk_version q) (pk_type q) (be32 c) (pk_result q) @ body"
  have "\<exists>c body. b = ?h c body"
  proof (cases "pk_version q = version2")
    case True
    with assms get_buffer_v2 [of q] show ?thesis by (auto simp: sendable_def version2_def version3_def version4_def)
  next
    case False
    with assms(2) get_buffer_v3 [of q] show ?thesis by auto
  qed
  then show "rd16 b 0 = pk_version q" by (auto simp: header_fields)
  assume v: "pk_version q \<noteq> version2"
  then obtain c where b: "b = ?h c (v3_body q)" using assms(2) get_buffer_v3 [of q] by auto
  show "rd32 b 12 = of_nat (length (pk_payload q))" unfolding b by (rule rd32_be32) (simp add: v3_body_def)
  show "length b = 16 + length (pk_payload q) + (if pk_version q = version3 then 3 else 0)" by (simp add: b v3_body_def)
qed

lemma version_sint [simp]: "sint version2 = 2" "sint version3 = 3" "sint version4 = 4"
  by (simp_all add: version2_def version3_def version4_def)

lemma prefix_version:
  assumes "sendable q" "get_buffer q = Inr (ps_buffer p @ w)"
  shows "read_version p = (if ps_size p < 4 then - 1 else sint (pk_version q))"
  using packet_bytes(1) [OF assms] rd16_append [of 0 "ps_buffer p" w]
  by (simp add: read_version_def ps_size_def sizeof_packet_header_def)

lemma prefix_length:
  assumes "sendable q" "pk_version q \<noteq> version2" "get_buffer q = Inr (ps_buffer p @ w)" "has_v3_header p"
  shows "read_len p = int (length (pk_payload q))" "ps_packet_length_v3 p = length (ps_buffer p @ w)"
proof -
  have q: "length (pk_payload q) \<le> 1024 * 1024" and v: "pk_version q = version3 \<or> pk_version q = version4"
    using assms(1,2) by (auto simp: sendable_def)
  have s: "16 \<le> ps_size p" using assms(4) by (simp add: has_v3_header_def buffer_offset_v3_def)
  have "rd32 (ps_buffer p) 12 = of_nat (length (pk_payload q))"
    using packet_bytes(2) [OF assms(1,3,2)] rd32_append [of 12 "ps_buffer p" w] s by (simp add: ps_size_def)
  with s sint_of_nat32 [OF q] show l: "read_len p = int (length (pk_payload q))"
    by (simp add: read_len_def buffer_offset_v3_def)
  have "size_t_of (int n) = n" if "n \<le> 1024 * 1024 + 20" for n using that by (simp add: size_t_of_def)
  from this [of "length (pk_payload q) + 19"] this [of "length (pk_payload q) + 16"] q
  show "ps_packet_length_v3 p = length (ps_buffer p @ w)"
    using v l packet_bytes(3) [OF assms(1,3,2)] assms(4) prefix_version [OF assms(1,3)] s
    by (auto simp: ps_packet_length_v3_def sizeof_packet_v3_def algebra_simps version3_def version4_def)
qed

lemma prefix_complete:
  assumes "expected q p" "get_buffer q = Inr (ps_buffer p @ w)"
  shows "is_complete p \<longleftrightarrow> w = []"
proof -
  have q: "sendable q" using assms(1) by (simp add: expected_def)
  let ?b = "ps_buffer p @ w"
  have l12: "12 \<le> length ?b" using get_buffer_length(1) [OF q assms(2)] .
  show ?thesis
  proof (cases "ps_size p < 4")
    case True
    with l12 have "w \<noteq> []" by (auto simp: ps_size_def)
    with True prefix_version [OF q assms(2)] show ?thesis by (simp add: is_complete_def)
  next
    case big: False
    show ?thesis
    proof (cases "pk_version q = version2")
      case True
      with get_buffer_length(2) [OF q assms(2)] assms(1) have "ps_packet_length_v2 p = length ?b"
        by (simp add: expected_def ps_packet_length_v2_def get_packet_length_v2_def sizeof_packet_v2_def)
      with big True prefix_version [OF q assms(2)] assms(1) show ?thesis
        by (auto simp: is_complete_def ps_size_def expected_def)
    next
      case False
      with q have v: "pk_version q = version3 \<or> pk_version q = version4" and pl: "length (pk_payload q) \<le> 1024 * 1024"
        by (auto simp: sendable_def)
      have lb: "16 \<le> length ?b" "length ?b \<le> kMaxBufferBytes"
        using packet_bytes(3) [OF q assms(2) False] pl by (auto simp: kMaxBufferBytes_def kMaxPayloadBytes_def sizeof_packet_v3_def)
      have rv: "read_version p = 3 \<or> read_version p = 4" using v big prefix_version [OF q assms(2)] by auto
      show ?thesis
        using prefix_length(2) [OF q False assms(2)] lb rv
        by (cases "has_v3_header p") (auto simp: is_complete_def Let_def buffer_offset_v3_def ps_size_def has_v3_header_def)
    qed
  qed
qed

lemma fill_v3_stop: "fill_v3 target p cs = (True, p', rest) \<Longrightarrow> kMaxBufferBytes < target"
  by (induction target p cs rule: fill_v3.induct) (auto split: if_splits)

lemma digest_v3_stop:
  "digest_v3 p cs = (True, p', rest) \<Longrightarrow> has_v3_header p' \<and> (read_len p' < 0 \<or> v3_target p' > kMaxBufferBytes)"
proof (induction p cs arbitrary: p' rest rule: digest_v3.induct)
  case (1 p cs)
  from 1(2) show ?case
  proof (cases rule: digest_v3_cases)
    case (2 q ds)
    with fill_v3_stop [of "v3_target p" p cs] v3_target_limit [of p] show ?thesis by auto
  next
    case (3 q ds)
    show ?thesis using 1(1) [OF 3(1-3) _ 3(5) [symmetric] refl _ 3(6)] 3(4) by simp
  qed auto
qed

lemma took_prefix:
  assumes "took p cs p' rest" "expected q p" "get_buffer q = Inr (ps_buffer p @ cs @ w)"
  shows "expected q p'" "get_buffer q = Inr (ps_buffer p' @ rest @ w)"
  using assms by (auto simp: took_def expected_def ps_packet_length_v2_def)

text \<open>Whatever part of the packet arrives, \<^verbatim>\<open>digest\<close> reports exactly whether it is all there.\<close>

lemma digest_prefix:
  assumes "expected q p" "get_buffer q = Inr (ps_buffer p @ cs @ w)" "digest p cs = (r, p', rest)"
  shows "r \<longleftrightarrow> rest @ w = []"
proof -
  note t = took_prefix [OF digest_took [OF assms(3)] assms(1,2)]
  have q: "sendable q" using assms(1) by (simp add: expected_def)
  have c: "is_complete p' \<longleftrightarrow> rest @ w = []" by (rule prefix_complete [OF t])
  show ?thesis
  proof (cases "read_version p = 3 \<or> read_version p = 4")
    case True
    obtain stop where d: "digest_v3 p cs = (stop, p', rest)" and r: "r = (stop \<or> is_complete p')"
      using assms(3) True by (auto simp: digest_def Let_def split: prod.splits)
    have v: "pk_version q \<noteq> version2" using True prefix_version [OF q, of p "cs @ w"] assms(2) by (auto split: if_splits)
    have "\<not> stop"
    proof
      assume stop
      with digest_v3_stop d have h: "has_v3_header p'" "read_len p' < 0 \<or> v3_target p' > kMaxBufferBytes" by auto
      have pl: "length (pk_payload q) \<le> 1024 * 1024" using q v by (auto simp: sendable_def)
      show False
        using h prefix_length [OF q v t(2) h(1)] packet_bytes(3) [OF q t(2) v] pl
        by (auto simp: v3_target_def kMaxBufferBytes_def kMaxPayloadBytes_def sizeof_packet_v3_def split: if_splits)
    qed
    with r c show ?thesis by simp
  next
    case False
    with assms(3) c show ?thesis by (auto simp: digest_def Let_def split: prod.splits if_splits)
  qed
qed

lemma expected_version: "expected q p \<Longrightarrow> get_buffer q = Inr (ps_buffer p @ w) \<Longrightarrow> \<not> announces_no_version (ps_buffer p)"
  using packet_bytes(1) [of q "ps_buffer p @ w"] rd16_append [of 0 "ps_buffer p" w]
  by (auto simp: expected_def announces_no_version_def sendable_def version2_def version3_def version4_def)

definition with_buffer :: "string \<Rightarrow> read_protocol \<Rightarrow> read_protocol" where
  "with_buffer b s = s\<lparr>rp_parser := (rp_parser s)\<lparr>ps_buffer := b\<rparr>\<rparr>"

lemma on_read_prefix:
  assumes "expected q (rp_parser s)" "get_buffer q = Inr (ps_buffer (rp_parser s) @ cs @ w)" "cs @ w \<noteq> []"
  shows "on_read H cs s = (True, if w = [] then answer H (with_buffer (ps_buffer (rp_parser s) @ cs) s)
     else with_buffer (ps_buffer (rp_parser s) @ cs) s)"
  using assms
proof (induction H cs s rule: on_read.induct)
  case (1 H cs s)
  let ?p = "rp_parser s"
  show ?case
  proof (cases "cs = []")
    case True
    with 1(4) show ?thesis by (simp add: on_read.simps [of H "[]"] with_buffer_def)
  next
    case cs: False
    obtain r p' rest where d: "digest ?p cs = (r, p', rest)" by (cases "digest ?p cs") auto
    note t = digest_took [OF d] and e = took_prefix [OF digest_took [OF d] 1(2,3)]
    have r: "r \<longleftrightarrow> rest @ w = []" by (rule digest_prefix [OF 1(2,3) d])
    have p': "ps_buffer p' @ rest = ps_buffer ?p @ cs" "p' = ?p\<lparr>ps_buffer := ps_buffer p'\<rparr>" using t by (auto simp: took_def)
    have s': "s\<lparr>rp_parser := p'\<rparr> = with_buffer (ps_buffer p') s" by (subst p'(2)) (simp add: with_buffer_def)
    show ?thesis
    proof (cases r)
      case True
      with r p'(1) s' cs show ?thesis by (simp add: on_read.simps [of H cs] d)
    next
      case False
      have "\<not> is_complete ?p" using prefix_complete [OF 1(2), of "cs @ w"] 1(3,4) by simp
      with digest_progress [OF d] expected_version [OF 1(2), of "cs @ w"] 1(3) cs False have "length rest \<noteq> length cs" by auto
      with False d cs have on: "on_read H cs s = on_read H rest (s\<lparr>rp_parser := p'\<rparr>)" by (simp add: on_read.simps [of H cs])
      have "on_read H rest (s\<lparr>rp_parser := p'\<rparr>) = (True, if w = [] then answer H (with_buffer (ps_buffer p' @ rest) (s\<lparr>rp_parser := p'\<rparr>))
           else with_buffer (ps_buffer p' @ rest) (s\<lparr>rp_parser := p'\<rparr>))"
        using 1(1) [OF cs d [symmetric] refl refl False \<open>length rest \<noteq> length cs\<close>] e r False by simp
      then show ?thesis using p'(1) s' on by (simp add: with_buffer_def)
    qed
  qed
qed

text \<open>The reads of a connection, one chunk at a time.\<close>

definition feed :: "handler \<Rightarrow> string list \<Rightarrow> read_protocol \<Rightarrow> read_protocol" where
  "feed H chunks s = foldl (\<lambda>s cs. snd (on_read H cs s)) s chunks"

lemma with_buffer_parser [simp]:
  "rp_parser (with_buffer b s) = (rp_parser s)\<lparr>ps_buffer := b\<rparr>" "with_buffer c (with_buffer b s) = with_buffer c s"
  by (simp_all add: with_buffer_def)

lemma expected_buffer [simp]: "expected q (p\<lparr>ps_buffer := b\<rparr>) = expected q p"
  by (simp add: expected_def ps_packet_length_v2_def)

lemma feed_prefix:
  assumes "expected q (rp_parser s)" "get_buffer q = Inr (ps_buffer (rp_parser s) @ concat chunks)" "chunks \<noteq> []" "[] \<notin> set chunks"
  shows "feed H chunks s = answer H (with_buffer (ps_buffer (rp_parser s) @ concat chunks) s)"
  using assms
proof (induction chunks arbitrary: s)
  case (Cons c chunks)
  let ?u = "ps_buffer (rp_parser s)"
  have r: "on_read H c s = (True, if concat chunks = [] then answer H (with_buffer (?u @ c) s) else with_buffer (?u @ c) s)"
    by (rule on_read_prefix [OF Cons.prems(1)]) (use Cons.prems(2,4) in auto)
  show ?case
  proof (cases "chunks = []")
    case True
    with r show ?thesis by (simp add: feed_def)
  next
    case False
    with Cons.prems(4) have "concat chunks \<noteq> []" by (cases chunks) auto
    with r have "on_read H c s = (True, with_buffer (?u @ c) s)" by (simp only: if_False)
    then have "feed H (c # chunks) s = feed H chunks (with_buffer (?u @ c) s)" by (simp add: feed_def)
    with Cons.IH [of "with_buffer (?u @ c) s"] Cons.prems False show ?thesis by simp
  qed
qed simp

lemma request_processed:
  assumes "expected q (rp_parser s)" and "ps_buffer (rp_parser s) = []" and "get_buffer q = Inr (concat chunks)" and "[] \<notin> set chunks"
  shows "\<exists>request. message_of request = message_of q \<and> verifyCRC request \<and> feed H chunks s = queue_next H (process_request H request s)"
proof -
  have q: "sendable q" using assms(1) by (simp add: expected_def)
  have "chunks \<noteq> []" using get_buffer_length(1) [OF q assms(3)] by auto
  with feed_prefix [OF assms(1), of chunks H] assms(2-4) have f: "feed H chunks s = answer H (with_buffer (concat chunks) s)" by simp
  obtain request where r: "packet_of (concat chunks) (ps_payload_length (rp_parser s)) = Inr request"
      "message_of request = message_of q" "verifyCRC request"
    using packet_of_v2 [OF q _ assms(3)] packet_of_v3 [OF q _ assms(3)] assms(1) by (cases "pk_version q = version2") (auto simp: expected_def)
  have "with_buffer [] s = s" using assms(2) by (simp add: with_buffer_def)
  then have "answer H (with_buffer (concat chunks) s) = queue_next H (process_request H request s)"
    using r(1) by (simp add: answer_def ps_parse_def ps_reset_def with_buffer_def)
  with f r show ?thesis by auto
qed

text \<open>
  C17. A request arrives however the network cuts it up: the bytes of a sendable packet, split
  into any non-empty chunks, make the server process exactly one request - once the last chunk
  is read, and not before - whose type, version, result and payload are those of the packet.
\<close>

theorem request_delivered:
  assumes "expected q (rp_parser s)" and "ps_buffer (rp_parser s) = []" and "get_buffer q = Inr (concat chunks)" and "[] \<notin> set chunks"
  shows "\<exists>request. message_of request = message_of q \<and> verifyCRC request \<and> feed H chunks s = queue_next H (process_request H request s)"
  using assms by (rule request_processed)

theorem request_delivered_witness:
  "\<exists>b request. get_buffer (new_packet queryPacket version2 0 ''hi'' 4) = Inr b \<and> pk_payload request = ''hi'' \<and>
     feed (echo_handler\<lparr>h_payload_length := 4\<rparr>) [take 3 b, drop 3 b] (new_protocol (echo_handler\<lparr>h_payload_length := 4\<rparr>)) =
     queue_next (echo_handler\<lparr>h_payload_length := 4\<rparr>)
       (process_request (echo_handler\<lparr>h_payload_length := 4\<rparr>) request (new_protocol (echo_handler\<lparr>h_payload_length := 4\<rparr>)))"
proof -
  let ?q = "new_packet queryPacket version2 0 ''hi'' 4" and ?H = "echo_handler\<lparr>h_payload_length := 4\<rparr>"
  have q: "sendable ?q" by (simp add: sendable_def new_packet_def known_type_def)
  obtain b where b: "get_buffer ?q = Inr b" using nrpe.encodes [OF q] by blast
  have e: "expected ?q (rp_parser (new_protocol ?H))"
    using q by (simp add: expected_def new_protocol_def new_parser_def new_packet_def ps_packet_length_v2_def get_packet_length_v2_def
        sizeof_packet_v2_def kMaxBufferBytes_def kMaxPayloadBytes_def)
  have "12 \<le> length b" using get_buffer_length(1) [OF q b] .
  then have c: "concat [take 3 b, drop 3 b] = b" "[] \<notin> set [take 3 b, drop 3 b]" by auto
  have "ps_buffer (rp_parser (new_protocol ?H)) = []" by (simp add: new_protocol_def new_parser_def)
  from request_delivered [OF e this, of "[take 3 b, drop 3 b]" ?H] b c show ?thesis
    by (auto simp: message_of_def new_packet_def)
qed

section \<open>The queue drains\<close>

text \<open>What \<^verbatim>\<open>queue_next\<close> leaves: nothing to send, or one response taken off the queue.\<close>

definition settled :: "read_protocol \<Rightarrow> bool" where
  "settled s \<longleftrightarrow> (rp_state s = proto_done \<and> rp_responses s = []) \<or>
     (rp_state s = proto_last_packet \<and> rp_responses s = []) \<or> (rp_state s = proto_has_more \<and> rp_responses s \<noteq> [])"

lemma queue_loop_settled:
  "settled (queue_loop H reported s) \<and>
   (rp_state (queue_loop H reported s) = proto_done \<or> length (rp_responses (queue_loop H reported s)) < length (rp_responses s))"
proof (induction H reported s rule: queue_loop.induct)
  case (1 H reported s)
  show ?case
  proof (cases "rp_responses s")
    case Nil
    then show ?thesis by (simp add: queue_loop.simps [of H reported s] settled_def)
  next
    case (Cons r rs)
    show ?thesis
    proof (cases "get_buffer r")
      case (Inl e)
      with Cons 1 show ?thesis
        by (cases reported) (auto simp: queue_loop.simps [of H _ s] less_Suc_eq)
    next
      case (Inr b)
      with Cons show ?thesis by (simp add: queue_loop.simps [of H reported s] settled_def)
    qed
  qed
qed

lemma drained:
  assumes "settled s" "length (rp_responses s) \<le> n"
  shows "rp_state ((on_write H ^^ Suc n) s) = proto_done"
  using assms
proof (induction n arbitrary: s)
  case 0
  then show ?case using queue_loop_settled [of H False s] by (auto simp: settled_def on_write_def queue_next_def)
next
  case (Suc n)
  let ?s = "on_write H s"
  have "settled ?s" "length (rp_responses ?s) \<le> n"
    using Suc.prems queue_loop_settled [of H False s] by (auto simp: settled_def on_write_def queue_next_def)
  then show ?case using Suc.IH [of ?s] by (simp only: funpow_Suc_right comp_apply)
qed

text \<open>
  C19. Every response queue drains: after a request has been processed, as many completed writes
  as there are responses, and one more, end the connection in the state done - also when
  responses cannot be serialised and are replaced by an error once.
\<close>

theorem responses_drain:
  "rp_state ((on_write H ^^ Suc (length (rp_responses s))) (queue_next H s)) = proto_done"
proof -
  have "settled (queue_next H s)" "length (rp_responses (queue_next H s)) \<le> length (rp_responses s)"
    using queue_loop_settled [of H False s] by (auto simp: queue_next_def settled_def)
  then show ?thesis by (rule drained)
qed

end
