(* ===== verification/Nrpe_Handler.thy ===== *)
theory Nrpe_Handler
  imports Nrpe_Server Nagios_Status
begin

text \<open>
  What the NRPE server does with a request (\<^verbatim>\<open>NRPEServer::handle\<close> of
  \<^verbatim>\<open>modules/NRPEServer/NRPEServer.cpp\<close>) and the client end of a connection
  (\<^verbatim>\<open>include/net/nrpe/client/nrpe_client_protocol.hpp\<close>). The core and the conversions of
  the text are parameters.
\<close>

section \<open>Requests\<close>

definition getToken :: "string \<Rightarrow> char \<Rightarrow> string \<times> string" where
  "getToken buffer split =
     (let a = takeWhile (\<lambda>c. c \<noteq> split) buffer
      in if a = buffer then (buffer, [])
         else if length a = length buffer - 1 then (a, []) else (a, drop (length a + 1) buffer))"

definition NASTY_METACHARS :: string where
  "NASTY_METACHARS = ''|`&><'' @ [CHR 0x27, CHR 0x22, CHR 0x5C] @ ''[]{}''"

definition is_nasty :: "string \<Rightarrow> bool" where
  "is_nasty s \<longleftrightarrow> (\<exists>c \<in> set s. c \<in> set NASTY_METACHARS)"

record nrpe_server =
  allowArgs :: bool
  allowNasty :: bool
  multiple_packets :: bool
  noPerfData :: bool
  expose_version :: bool
  client_identity_source :: string
  server_payload_length :: nat

text \<open>
  \<open>core_query\<close> is \<^verbatim>\<open>simple_query_from_nrpe\<close>, with the principal when there is one;
  \<open>from_wire\<close> and \<open>to_wire\<close> convert with the configured encoding.
\<close>

record nrpe_core =
  core_version :: string
  from_wire :: "string \<Rightarrow> string res"
  to_wire :: "string \<Rightarrow> string res"
  core_query :: "string option \<Rightarrow> string \<Rightarrow> string \<Rightarrow> nat \<Rightarrow> (nagiosReturn \<times> string \<times> string) res"

definition code16 :: "nagiosReturn \<Rightarrow> 16 word" where "code16 code = of_int code"

text \<open>
  The packets of a long answer. The loop advances by \<open>max_len\<close>; if that is zero it does not end.
\<close>

partial_function (option) split_response :: "packet \<Rightarrow> nagiosReturn \<Rightarrow> nat \<Rightarrow> string \<Rightarrow> nat \<Rightarrow> packet list option" where
  "split_response p code max_len data i =
     (if i < length data
      then Option.bind (split_response p code max_len data (i + max_len)) (\<lambda>rest.
        Some ((if length data - i \<le> max_len
               then create_response (pk_version p) (code16 code) (take max_len (drop i data)) (pk_payload_length p)
               else create_more_response (code16 code) (take max_len (drop i data)) (pk_payload_length p)) # rest))
      else Some [])"

definition response_text :: "nrpe_server \<Rightarrow> string \<Rightarrow> string \<Rightarrow> string" where
  "response_text C msg perf = (if perf = [] \<or> noPerfData C then msg else msg @ ''|'' @ perf)"

definition response_packets :: "nrpe_server \<Rightarrow> packet \<Rightarrow> nagiosReturn \<Rightarrow> string \<Rightarrow> packet list option" where
  "response_packets C p code data =
     (let max_len = size_t_of (int (pk_payload_length p) - 1)
      in if multiple_packets C \<and> pk_version p = version2 then split_response p code max_len data 0
         else let d = (if pk_version p = version2 \<and> length data \<ge> max_len then take max_len data else data)
              in Some [create_response (pk_version p) (code16 code) d (pk_payload_length p)])"

definition internal_exception :: "packet \<Rightarrow> packet list" where
  "internal_exception p =
     [create_response (pk_version p) (code16 returnUNKNOWN) ''UNKNOWN: Internal exception'' (pk_payload_length p)]"

definition query_reply :: "nrpe_server \<Rightarrow> nrpe_core \<Rightarrow> packet \<Rightarrow> string \<Rightarrow> string \<Rightarrow> string \<Rightarrow> (nagiosReturn \<times> string) res" where
  "query_reply C K p peer cmd args =
     (let max_len = (if multiple_packets C then size_t_of (- 1) else size_t_of (int (pk_payload_length p) - 1));
          principal = (if client_identity_source C = ''cn'' \<and> peer \<noteq> [] then Some peer else None)
      in bind_res (from_wire K cmd) (\<lambda>wcmd. bind_res (from_wire K args) (\<lambda>wargs.
           if \<not> allowNasty C \<and> (is_nasty wcmd \<or> is_nasty wargs)
           then Inl (Std_Exception ''Request contained illegal metachars after decoding!'')
           else bind_res (core_query K principal wcmd wargs max_len) (\<lambda>(code, wmsg, wperf).
             if \<not> isNagiosReturnCode code then Inl (Std_Exception ''UNKNOWN: Internal error.'')
             else bind_res (to_wire K wmsg) (\<lambda>msg. bind_res (to_wire K wperf) (\<lambda>perf. Inr (code, response_text C msg perf)))))))"

definition run_query :: "nrpe_server \<Rightarrow> nrpe_core \<Rightarrow> packet \<Rightarrow> string \<Rightarrow> string \<Rightarrow> string \<Rightarrow> packet list res option" where
  "run_query C K p peer cmd args =
     (case query_reply C K p peer cmd args of
        Inl _ \<Rightarrow> Some (Inr (internal_exception p))
      | Inr (code, data) \<Rightarrow> map_option Inr (response_packets C p code data))"

definition handle :: "nrpe_server \<Rightarrow> nrpe_core \<Rightarrow> packet \<Rightarrow> string \<Rightarrow> packet list res option" where
  "handle C K p peer =
     (case getToken (pk_payload p) (CHR ''!'') of (cmd, args) \<Rightarrow>
        if cmd = ''_NRPE_CHECK'' then
          Some (Inr [create_response (pk_version p) (code16 returnOK)
            (if expose_version C then ''I ('' @ core_version K @ '') seem to be doing fine...'' else ''I seem to be doing fine...'')
            (pk_payload_length p)])
        else if \<not> allowArgs C \<and> args \<noteq> []
        then Some (Inl (Std_Exception ''Request contained arguments (not currently allowed, check the allow arguments option).''))
        else if \<not> allowNasty C \<and> is_nasty cmd then Some (Inl (Std_Exception ''Request command contained illegal metachars!''))
        else if \<not> allowNasty C \<and> is_nasty args then Some (Inl (Std_Exception ''Request arguments contained illegal metachars!''))
        else run_query C K p peer cmd args)"

definition create_error :: "nrpe_server \<Rightarrow> string \<Rightarrow> packet" where
  "create_error C msg = create_response version2 3 msg (server_payload_length C)"

section \<open>Client\<close>

datatype client_state = cl_none | cl_connected | cl_has_request | cl_sent_response | cl_has_more | cl_done

record nrpe_client =
  cl_buffer :: string
  cl_payload_length :: nat
  cl_responses :: "packet list"
  cl_state :: client_state

definition new_client :: nrpe_client where
  "new_client = \<lparr>cl_buffer = [], cl_payload_length = 0, cl_responses = [], cl_state = cl_none\<rparr>"

definition cl_on_connect :: "nrpe_client \<Rightarrow> nrpe_client" where
  "cl_on_connect c = c\<lparr>cl_state := cl_connected\<rparr>"

definition prepare_request :: "packet \<Rightarrow> nrpe_client \<Rightarrow> nrpe_client res" where
  "prepare_request p c =
     (case get_buffer p of Inl e \<Rightarrow> Inl e
      | Inr b \<Rightarrow> Inr (c\<lparr>cl_state := cl_has_request, cl_payload_length := pk_payload_length p, cl_buffer := b\<rparr>))"

definition get_timeout_response :: "packet list" where
  "get_timeout_response = [unknown_response ''Failed to read data'']"

definition cl_has_data :: "nrpe_client \<Rightarrow> bool" where "cl_has_data c \<longleftrightarrow> cl_state c = cl_has_request"

definition cl_wants_data :: "nrpe_client \<Rightarrow> bool" where
  "cl_wants_data c \<longleftrightarrow> cl_state c = cl_sent_response \<or> cl_state c = cl_has_more"

text \<open>The transport has stored \<open>n\<close> bytes at the start of the buffer.\<close>

definition cl_on_read :: "(string \<Rightarrow> string) \<Rightarrow> nat \<Rightarrow> nrpe_client \<Rightarrow> bool \<times> nrpe_client" where
  "cl_on_read from_native n c =
     (if n = 0 \<or> n > length (cl_buffer c)
      then (False, c\<lparr>cl_responses := cl_responses c @ [unknown_response ''Truncated response from NRPE server''], cl_state := cl_connected\<rparr>)
      else case packet_of_buffer (take n (cl_buffer c)) of
             Inl e \<Rightarrow> (False, c\<lparr>cl_responses := cl_responses c @ [unknown_response (''Failed to read response: '' @ from_native (exn_what e))],
                          cl_state := cl_connected\<rparr>)
           | Inr p \<Rightarrow> (True, c\<lparr>cl_responses := cl_responses c @ [p],
                          cl_state := if pk_type p = moreResponsePacket then cl_has_more else cl_connected\<rparr>))"

definition cl_on_write :: "nrpe_client \<Rightarrow> bool \<times> nrpe_client" where
  "cl_on_write c = (True, c\<lparr>cl_state := cl_sent_response\<rparr>)"

definition on_read_error :: "nrpe_client \<Rightarrow> bool" where
  "on_read_error c \<longleftrightarrow> cl_state c = cl_connected"

section \<open>Answers\<close>

text \<open>What the packets of one answer look like, from position \<open>i\<close> of the text.\<close>

definition answer_packets :: "packet \<Rightarrow> nagiosReturn \<Rightarrow> string \<Rightarrow> packet list \<Rightarrow> bool" where
  "answer_packets p code text ps \<longleftrightarrow> ps \<noteq> [] \<and> concat (map pk_payload ps) = text \<and>
     pk_type (last ps) = responsePacket \<and> (\<forall>q \<in> set (butlast ps). pk_type q = moreResponsePacket) \<and>
     (\<forall>q \<in> set ps. pk_version q = version2 \<and> pk_result q = code16 code \<and> pk_payload_length q = pk_payload_length p \<and>
        length (pk_payload q) < pk_payload_length p)"

lemma answer_packets_Cons:
  assumes "answer_packets p code text ps" "length s < pk_payload_length p"
  shows "answer_packets p code (s @ text) (create_more_response (code16 code) s (pk_payload_length p) # ps)"
  using assms by (auto simp: answer_packets_def create_more_response_def new_packet_def)

lemma split_response_packets:
  assumes "pk_version p = version2" "0 < m" "m < pk_payload_length p" "i < length data"
  shows "\<exists>ps. split_response p code m data i = Some ps \<and> answer_packets p code (drop i data) ps"
  using assms(4)
proof (induction "length data - i" arbitrary: i rule: less_induct)
  case less
  show ?case
  proof (cases "length data - i \<le> m")
    case True
    then have "\<not> i + m < length data" by linarith
    then have "split_response p code m data (i + m) = Some []" by (simp add: split_response.simps [of p code m data "i + m"])
    with True less.prems assms(1,3) show ?thesis
      by (subst split_response.simps) (simp add: answer_packets_def create_response_def new_packet_def)
  next
    case False
    then have "length data - (i + m) < length data - i" "i + m < length data" using assms(2) by linarith+
    then obtain ps where ps: "split_response p code m data (i + m) = Some ps" "answer_packets p code (drop (i + m) data) ps"
      using less.hyps [of "i + m"] by blast
    have "drop i data = take m (drop i data) @ drop (i + m) data" by (metis append_take_drop_id drop_drop add.commute)
    moreover have "length (take m (drop i data)) < pk_payload_length p" using assms(3) by simp
    ultimately have "answer_packets p code (drop i data) (create_more_response (code16 code) (take m (drop i data)) (pk_payload_length p) # ps)"
      using answer_packets_Cons [OF ps(2)] by metis
    with ps False less.prems show ?thesis by (subst split_response.simps) simp
  qed
qed

lemma short_payload_serialises:
  "pk_version q = version2 \<Longrightarrow> length (pk_payload q) < pk_payload_length q \<Longrightarrow> \<exists>b. get_buffer q = Inr b"
  using get_buffer_v2 [of q] by blast

text \<open>
  C23. A long answer arrives whole: with multiple packets enabled and a payload length of at least
  two, a non-empty answer to a version 2 request is cut into packets that all serialise, whose
  payloads concatenate to the answer, and of which the last, and only the last, ends it.
\<close>

theorem long_answer_arrives:
  assumes "multiple_packets C" and "pk_version p = version2" and "2 \<le> pk_payload_length p" and "pk_payload_length p < 2 ^ 64"
    and "data \<noteq> []"
  shows "\<exists>ps. response_packets C p code data = Some ps \<and> concat (map pk_payload ps) = data \<and> ps \<noteq> [] \<and>
     pk_type (last ps) = responsePacket \<and> (\<forall>q \<in> set (butlast ps). pk_type q = moreResponsePacket) \<and>
     (\<forall>q \<in> set ps. \<exists>b. get_buffer q = Inr b)"
proof -
  let ?m = "pk_payload_length p - 1"
  have m: "size_t_of (int (pk_payload_length p) - 1) = ?m" using assms(3,4) by (simp add: size_t_of_def nat_diff_distrib)
  obtain ps where "split_response p code ?m data 0 = Some ps" "answer_packets p code data ps"
    using split_response_packets [OF assms(2), of ?m 0 data code] assms(3,5) by auto
  then show ?thesis
    using assms(1,2) short_payload_serialises unfolding answer_packets_def
    by (auto simp: response_packets_def m)
qed

definition sample_server :: nrpe_server where
  "sample_server = \<lparr>allowArgs = False, allowNasty = False, multiple_packets = True, noPerfData = False, expose_version = False,
     client_identity_source = ''none'', server_payload_length = 1024\<rparr>"

theorem long_answer_arrives_witness:
  "\<exists>ps. response_packets sample_server (new_packet queryPacket version2 0 ''check'' 4) 0 ''all is well'' = Some ps \<and>
     concat (map pk_payload ps) = ''all is well''"
  using long_answer_arrives [of sample_server "new_packet queryPacket version2 0 ''check'' 4" "''all is well''" 0]
  by (auto simp: sample_server_def new_packet_def)



text \<open>
  C24. The metacharacter guard cannot be bypassed: with nasty characters disallowed, the core is
  never asked to run a command or arguments that contain one after decoding - replacing what the
  core does with such input by anything whatsoever changes no answer.
\<close>

theorem metachars_never_dispatched:
  assumes "\<not> allowNasty C"
    and "\<forall>principal cmd args len. \<not> is_nasty cmd \<and> \<not> is_nasty args \<longrightarrow> query principal cmd args len = core_query K principal cmd args len"
  shows "handle C (K\<lparr>core_query := query\<rparr>) p peer = handle C K p peer"
proof -
  let ?K = "K\<lparr>core_query := query\<rparr>"
  have K: "from_wire ?K = from_wire K" "to_wire ?K = to_wire K" "core_query ?K = query" "core_version ?K = core_version K" by simp_all
  have "query_reply C ?K p peer cmd args = query_reply C K p peer cmd args" for cmd args
    unfolding query_reply_def Let_def K using assms
    by (cases "from_wire K cmd"; cases "from_wire K args") (auto simp only: bind_res_simps simp_thms split: if_split)
  then show ?thesis by (simp add: handle_def run_query_def split_def)
qed

definition sample_core :: nrpe_core where
  "sample_core = \<lparr>core_version = ''0.6'', from_wire = Inr, to_wire = Inr,
     core_query = \<lambda>_ cmd args _. Inr (0, cmd @ '' ok'', args)\<rparr>"

theorem metachars_never_dispatched_witness:
  "handle sample_server (sample_core\<lparr>core_query := \<lambda>_ cmd args _. if is_nasty cmd \<or> is_nasty args then Inl Unspecific
      else Inr (0, cmd @ '' ok'', args)\<rparr>) (new_packet queryPacket version2 0 ''a|b'' 1024) [] =
   handle sample_server sample_core (new_packet queryPacket version2 0 ''a|b'' 1024) []"
  by (rule metachars_never_dispatched) (simp_all add: sample_server_def sample_core_def)

section \<open>A request and its answer\<close>

text \<open>
  The client reads what the server sent: \<open>data\<close> arrives at the start of its buffer.
\<close>

lemma client_reads:
  assumes "sendable r" "get_buffer r = Inr b" "take (length b) (cl_buffer c) = b" "length b \<le> length (cl_buffer c)"
  shows "\<exists>q. message_of q = message_of r \<and> cl_on_read f (length b) c =
    (True, c\<lparr>cl_responses := cl_responses c @ [q], cl_state := if pk_type r = moreResponsePacket then cl_has_more else cl_connected\<rparr>)"
proof -
  obtain q where q: "packet_of_buffer b = Inr q" "message_of q = message_of r"
    using nrpe.decodes [OF assms(1,2)] by blast
  then have "pk_type q = pk_type r" by (simp add: message_of_def)
  moreover have "0 < length b" using get_buffer_length(1) [OF assms(1,2)] by linarith
  ultimately show ?thesis using q assms(3,4) by (auto simp: cl_on_read_def)
qed

end
