(* ===== verification/Nscp_Crypt.thy ===== *)
theory Nscp_Crypt
  imports Bytes_Crc
begin

text \<open>
  The encryption engine of the NSCA protocol (\<^verbatim>\<open>libs/nscpcrypt/nscpcrypt.cpp\<close>): the names and
  numbers of the algorithms, the two ciphers written in the source (none and XOR) and the
  wrapper around Crypto++. Crypto++, the random generator and the two string functions of
  Boost are the fields of \<open>crypt_env\<close>; \<^verbatim>\<open>ce_have_cryptopp\<close> is the build switch
  \<^verbatim>\<open>HAVE_LIBCRYPTOPP\<close>.
\<close>

section \<open>Algorithms\<close>

record 'st crypt_env =
  ce_have_cryptopp :: bool
  ce_to_lower_copy :: "string \<Rightarrow> string"
  ce_trim :: "string \<Rightarrow> string"
  ce_StaticAlgorithmName :: "int \<Rightarrow> string"
  ce_DEFAULT_KEYLENGTH :: "int \<Rightarrow> nat"
  ce_BLOCKSIZE :: "int \<Rightarrow> nat"
  ce_SetCipher :: "int \<Rightarrow> string \<Rightarrow> string \<Rightarrow> ('st \<times> 'st) option"
  ce_encrypt :: "'st \<Rightarrow> char \<Rightarrow> (char \<times> 'st) option"
  ce_decrypt :: "'st \<Rightarrow> char \<Rightarrow> (char \<times> 'st) option"

abbreviation (input) ENCRYPT_NONE :: int where "ENCRYPT_NONE \<equiv> 0"
abbreviation (input) ENCRYPT_XOR :: int where "ENCRYPT_XOR \<equiv> 1"
abbreviation (input) ENCRYPT_DES :: int where "ENCRYPT_DES \<equiv> 2"
abbreviation (input) ENCRYPT_3DES :: int where "ENCRYPT_3DES \<equiv> 3"
abbreviation (input) ENCRYPT_CAST128 :: int where "ENCRYPT_CAST128 \<equiv> 4"
abbreviation (input) ENCRYPT_XTEA :: int where "ENCRYPT_XTEA \<equiv> 6"
abbreviation (input) ENCRYPT_3WAY :: int where "ENCRYPT_3WAY \<equiv> 7"
abbreviation (input) ENCRYPT_BLOWFISH :: int where "ENCRYPT_BLOWFISH \<equiv> 8"
abbreviation (input) ENCRYPT_TWOFISH :: int where "ENCRYPT_TWOFISH \<equiv> 9"
abbreviation (input) ENCRYPT_RC2 :: int where "ENCRYPT_RC2 \<equiv> 11"
abbreviation (input) ENCRYPT_RIJNDAEL128 :: int where "ENCRYPT_RIJNDAEL128 \<equiv> 14"
abbreviation (input) ENCRYPT_RIJNDAEL192 :: int where "ENCRYPT_RIJNDAEL192 \<equiv> 15"
abbreviation (input) ENCRYPT_RIJNDAEL256 :: int where "ENCRYPT_RIJNDAEL256 \<equiv> 16"
abbreviation (input) ENCRYPT_SERPENT :: int where "ENCRYPT_SERPENT \<equiv> 20"
abbreviation (input) ENCRYPT_GOST :: int where "ENCRYPT_GOST \<equiv> 23"

definition LAST_ENCRYPTION_ID :: int where "LAST_ENCRYPTION_ID = 26"
definition TRANSMITTED_IV_SIZE :: nat where "TRANSMITTED_IV_SIZE = 128"

definition hasEncryption :: "'st crypt_env \<Rightarrow> int \<Rightarrow> bool" where
  "hasEncryption E m \<longleftrightarrow> m \<in> set [ENCRYPT_NONE, ENCRYPT_XOR] \<or>
     ce_have_cryptopp E \<and> m \<in> set [ENCRYPT_DES, ENCRYPT_3DES, ENCRYPT_CAST128, ENCRYPT_XTEA, ENCRYPT_BLOWFISH,
       ENCRYPT_TWOFISH, ENCRYPT_RC2, ENCRYPT_RIJNDAEL128, ENCRYPT_RIJNDAEL192, ENCRYPT_RIJNDAEL256,
       ENCRYPT_SERPENT, ENCRYPT_GOST]"

text \<open>
  A core: nothing, the XOR cipher with its IV and password, or a Crypto++ cipher with its key
  size and, once initialised, the state of its encryption and of its decryption.
\<close>

datatype 'st any_encryption =
    No_Encryption
  | Xor_Encryption (xor_iv: string) (xor_password: string)
  | Cryptopp_Encryption int nat "('st \<times> 'st) option"

definition cryptopp_keysize :: "'st crypt_env \<Rightarrow> int \<Rightarrow> nat option" where
  "cryptopp_keysize E m =
     (if m \<in> set [ENCRYPT_DES, ENCRYPT_3DES, ENCRYPT_CAST128, ENCRYPT_XTEA, ENCRYPT_3WAY, ENCRYPT_GOST]
      then Some (ce_DEFAULT_KEYLENGTH E m)
      else map_of [(ENCRYPT_BLOWFISH, 56), (ENCRYPT_TWOFISH, 32), (ENCRYPT_RC2, 128), (ENCRYPT_RIJNDAEL128, 16),
        (ENCRYPT_RIJNDAEL192, 24), (ENCRYPT_RIJNDAEL256, 32), (ENCRYPT_SERPENT, 32)] m)"

definition get_encryption_core :: "'st crypt_env \<Rightarrow> int \<Rightarrow> 'st any_encryption option" where
  "get_encryption_core E m =
     (if m = ENCRYPT_NONE then Some No_Encryption
      else if m = ENCRYPT_XOR then Some (Xor_Encryption [] [])
      else if ce_have_cryptopp E
      then map_option (\<lambda>keysize. Cryptopp_Encryption m keysize None) (cryptopp_keysize E m)
      else None)"

primrec getName :: "'st crypt_env \<Rightarrow> 'st any_encryption \<Rightarrow> string" where
  "getName E No_Encryption = ''No Encryption (not safe)''"
| "getName E (Xor_Encryption iv password) = ''XOR''"
| "getName E (Cryptopp_Encryption m keysize st) = ce_StaticAlgorithmName E m"

definition encryption_to_string :: "'st crypt_env \<Rightarrow> int \<Rightarrow> string" where
  "encryption_to_string E m =
     (if m = ENCRYPT_XOR then ''xor''
      else case (if ce_have_cryptopp E
        then map_of [(ENCRYPT_DES, ''des''), (ENCRYPT_3DES, ''3des''), (ENCRYPT_CAST128, ''cast128''),
          (ENCRYPT_XTEA, ''xtea''), (ENCRYPT_3WAY, ''3way''), (ENCRYPT_BLOWFISH, ''blowfish''),
          (ENCRYPT_TWOFISH, ''twofish''), (ENCRYPT_RC2, ''rc2''), (ENCRYPT_RIJNDAEL128, ''aes128''),
          (ENCRYPT_RIJNDAEL192, ''aes192''), (ENCRYPT_RIJNDAEL256, ''aes''), (ENCRYPT_SERPENT, ''serpent''),
          (ENCRYPT_GOST, ''gost'')] m
        else None) of
        Some s \<Rightarrow> s
      | None \<Rightarrow> if m = ENCRYPT_NONE then ''none'' else ''unknown'')"

definition crypto_entry :: "'st crypt_env \<Rightarrow> string \<Rightarrow> string \<Rightarrow> int \<Rightarrow> string" where
  "crypto_entry E sep s i =
     (if hasEncryption E i
      then (if length s > 1 then s @ sep else s) @ encryption_to_string E i @ '' = '' @
        (case get_encryption_core E i of None \<Rightarrow> [] | Some core \<Rightarrow> getName E core)
      else s)"

definition get_crypto_string :: "'st crypt_env \<Rightarrow> string \<Rightarrow> string" where
  "get_crypto_string E sep = foldl (crypto_entry E sep) [] [0..LAST_ENCRYPTION_ID - 1]"

definition named_encryption :: "'st crypt_env \<Rightarrow> string \<Rightarrow> int option" where
  "named_encryption E encryption =
     (if encryption = [] \<or> encryption = ''none'' then Some ENCRYPT_NONE
      else if encryption = ''xor'' then Some ENCRYPT_XOR
      else if ce_have_cryptopp E
      then map_of [(''des'', ENCRYPT_DES), (''3des'', ENCRYPT_3DES), (''cast128'', ENCRYPT_CAST128),
        (''xtea'', ENCRYPT_XTEA), (''3way'', ENCRYPT_3WAY), (''blowfish'', ENCRYPT_BLOWFISH),
        (''twofish'', ENCRYPT_TWOFISH), (''rc2'', ENCRYPT_RC2), (''rijndael128'', ENCRYPT_RIJNDAEL128),
        (''aes128'', ENCRYPT_RIJNDAEL128), (''rijndael192'', ENCRYPT_RIJNDAEL192), (''aes192'', ENCRYPT_RIJNDAEL192),
        (''rijndael256'', ENCRYPT_RIJNDAEL256), (''aes256'', ENCRYPT_RIJNDAEL256), (''aes'', ENCRYPT_RIJNDAEL256),
        (''serpent'', ENCRYPT_SERPENT), (''gost'', ENCRYPT_GOST)] encryption
      else None)"

text \<open>
  \<^verbatim>\<open>atoi\<close> of a text that starts with a digit, as the C library computes it: \<^verbatim>\<open>strtol\<close>, which
  stops at the first other character and saturates, narrowed to \<^verbatim>\<open>int\<close>.
\<close>

definition atoi :: "string \<Rightarrow> int" where
  "atoi s = sint (of_nat (min (digits_val (takeWhile is_digit_char s)) (2 ^ 63 - 1)) :: 32 word)"

definition numbered_encryption :: "'st crypt_env \<Rightarrow> string \<Rightarrow> int option" where
  "numbered_encryption E encryption =
     (if length encryption = 1 \<and> is_digit_char (encryption ! 0) \<or>
         length encryption > 1 \<and> is_digit_char (encryption ! 0) \<and> is_digit_char (encryption ! 1)
      then let enc = atoi encryption
           in if enc = ENCRYPT_NONE \<or> enc = ENCRYPT_XOR \<or>
                 ce_have_cryptopp E \<and> enc \<in> set [ENCRYPT_DES, ENCRYPT_3DES, ENCRYPT_CAST128, ENCRYPT_XTEA, ENCRYPT_3WAY,
                   ENCRYPT_BLOWFISH, ENCRYPT_TWOFISH, ENCRYPT_RC2, ENCRYPT_RIJNDAEL128, ENCRYPT_RIJNDAEL192,
                   ENCRYPT_RIJNDAEL256, ENCRYPT_SERPENT, ENCRYPT_GOST]
              then Some enc else None
      else None)"

definition printable :: "char \<Rightarrow> bool" where
  "printable c \<longleftrightarrow> (of_char c :: nat) \<ge> 0x20 \<and> (of_char c :: nat) \<noteq> 0x7f"

definition encryption_to_int :: "'st crypt_env \<Rightarrow> string \<Rightarrow> int res" where
  "encryption_to_int E encryption_raw =
     (let encryption = ce_trim E (ce_to_lower_copy E encryption_raw)
      in case named_encryption E encryption of
           Some m \<Rightarrow> Inr m
         | None \<Rightarrow>
             (case numbered_encryption E encryption of
                Some m \<Rightarrow> Inr m
              | None \<Rightarrow> Inl (Std_Exception (''Unknown encryption algorithm: '' @ [CHR 0x27] @ filter printable encryption_raw @
                  [CHR 0x27] @ '' (available: '' @ get_crypto_string E '', '' @ ''; use '' @ [CHR 0x27] @ ''none'' @
                  [CHR 0x27] @ '' to disable encryption)''))))"

section \<open>Ciphers\<close>

definition xor_char :: "char \<Rightarrow> char \<Rightarrow> char" where
  "xor_char a b = char_of ((of_char a :: nat) XOR of_char b)"

text \<open>\<^verbatim>\<open>s[i]\<close> of a \<^verbatim>\<open>std::string\<close>, which has a zero behind its last character.\<close>

definition char_at :: "string \<Rightarrow> nat \<Rightarrow> char" where
  "char_at s i = (if i < length s then s ! i else CHR 0x00)"

fun xor_encrypt :: "string \<Rightarrow> string \<Rightarrow> nat \<Rightarrow> nat \<Rightarrow> string \<Rightarrow> string" where
  "xor_encrypt iv password x z [] = []"
| "xor_encrypt iv password x z (b # buffer) =
     (let x' = if x \<ge> length iv then 0 else x; z' = if z \<ge> length password then 0 else z
      in xor_char (xor_char b (char_at iv x')) (char_at password z') #
         xor_encrypt iv password (x' + 1) (z' + 1) buffer)"

fun xor_decrypt :: "string \<Rightarrow> string \<Rightarrow> nat \<Rightarrow> nat \<Rightarrow> string \<Rightarrow> string" where
  "xor_decrypt iv password x z [] = []"
| "xor_decrypt iv password x z (b # buffer) =
     (let z' = if z \<ge> length password then 0 else z; x' = if x \<ge> length iv then 0 else x
      in xor_char (xor_char b (char_at password z')) (char_at iv x') #
         xor_decrypt iv password (x' + 1) (z' + 1) buffer)"

primrec cipher_run :: "('st \<Rightarrow> char \<Rightarrow> (char \<times> 'st) option) \<Rightarrow> string \<Rightarrow> 'st \<Rightarrow> (string \<times> 'st) option" where
  "cipher_run f [] st = Some ([], st)"
| "cipher_run f (b # bs) st = (case f st b of None \<Rightarrow> None
     | Some (c, st') \<Rightarrow> map_option (\<lambda>(cs, st''). (c # cs, st'')) (cipher_run f bs st'))"

definition setup_exception :: exn where
  "setup_exception = Std_Exception ''Unknown exception when trying to setup crypto''"

definition cipher_key :: "nat \<Rightarrow> string \<Rightarrow> string" where
  "cipher_key keysize password = take keysize password @ replicate (keysize - length password) (CHR 0x00)"

primrec core_init :: "'st crypt_env \<Rightarrow> string \<Rightarrow> string \<Rightarrow> 'st any_encryption \<Rightarrow> 'st any_encryption res" where
  "core_init E password iv No_Encryption = Inr No_Encryption"
| "core_init E password iv (Xor_Encryption i p) = Inr (Xor_Encryption iv password)"
| "core_init E password iv (Cryptopp_Encryption m keysize st) =
     (if ce_BLOCKSIZE E m > length iv then Inl (Std_Exception ''IV size for crypto algorithm exceeds limits'')
      else case ce_SetCipher E m (cipher_key keysize password) iv of
             None \<Rightarrow> Inl setup_exception
           | Some states \<Rightarrow> Inr (Cryptopp_Encryption m keysize (Some states)))"

text \<open>
  The states of a Crypto++ cipher are missing only after a failed initialisation, an error that
  every caller passes on; the functions raise there.
\<close>

primrec core_encrypt :: "'st crypt_env \<Rightarrow> string \<Rightarrow> 'st any_encryption \<Rightarrow> (string \<times> 'st any_encryption) res" where
  "core_encrypt E buffer No_Encryption = Inr (buffer, No_Encryption)"
| "core_encrypt E buffer (Xor_Encryption iv password) =
     Inr (xor_encrypt iv password 0 0 buffer, Xor_Encryption iv password)"
| "core_encrypt E buffer (Cryptopp_Encryption m keysize st) =
     (if buffer = [] then Inr (buffer, Cryptopp_Encryption m keysize st)
      else case st of
        None \<Rightarrow> Inl setup_exception
      | Some (e, d) \<Rightarrow>
          (case cipher_run (ce_encrypt E) buffer e of
             None \<Rightarrow> Inl setup_exception
           | Some (out, e') \<Rightarrow> Inr (out, Cryptopp_Encryption m keysize (Some (e', d)))))"

primrec core_decrypt :: "'st crypt_env \<Rightarrow> string \<Rightarrow> 'st any_encryption \<Rightarrow> (string \<times> 'st any_encryption) res" where
  "core_decrypt E buffer No_Encryption = Inr (buffer, No_Encryption)"
| "core_decrypt E buffer (Xor_Encryption iv password) =
     Inr (xor_decrypt iv password 0 0 buffer, Xor_Encryption iv password)"
| "core_decrypt E buffer (Cryptopp_Encryption m keysize st) =
     (if buffer = [] then Inr (buffer, Cryptopp_Encryption m keysize st)
      else case st of
        None \<Rightarrow> Inl setup_exception
      | Some (e, d) \<Rightarrow>
          (case cipher_run (ce_decrypt E) buffer d of
             None \<Rightarrow> Inl setup_exception
           | Some (out, d') \<Rightarrow> Inr (out, Cryptopp_Encryption m keysize (Some (e, d')))))"

section \<open>Engine\<close>

text \<open>
  The engine is its core. \<open>random_iv\<close> is what \<^verbatim>\<open>generate_transmitted_iv\<close> drew; a failed
  initialisation leaves no core, or one that was not initialised.
\<close>

type_synonym 'st engine = "'st any_encryption option"

definition encrypt_init :: "'st crypt_env \<Rightarrow> string \<Rightarrow> string \<Rightarrow> int \<Rightarrow> string \<Rightarrow> unit res \<times> 'st engine" where
  "encrypt_init E random_iv password encryption_method received_iv =
     (case get_encryption_core E encryption_method of
        None \<Rightarrow> (Inl (Std_Exception (''Failed to get encryption module for: '' @ xtos_int encryption_method)), None)
      | Some core \<Rightarrow>
          (case core_init E password (if received_iv = [] then random_iv else received_iv) core of
             Inl e \<Rightarrow> (Inl e, Some core)
           | Inr core' \<Rightarrow> (Inr (), Some core')))"

definition encrypt_buffer :: "'st crypt_env \<Rightarrow> string \<Rightarrow> 'st engine \<Rightarrow> (string \<times> 'st engine) res" where
  "encrypt_buffer E buffer eng =
     (case eng of None \<Rightarrow> Inl (Std_Exception ''No encryption core!'')
      | Some core \<Rightarrow> map_sum id (\<lambda>(b, c). (b, Some c)) (core_encrypt E buffer core))"

definition decrypt_buffer :: "'st crypt_env \<Rightarrow> string \<Rightarrow> 'st engine \<Rightarrow> (string \<times> 'st engine) res" where
  "decrypt_buffer E buffer eng =
     (case eng of None \<Rightarrow> Inl (Std_Exception ''No encryption core!'')
      | Some core \<Rightarrow> map_sum id (\<lambda>(b, c). (b, Some c)) (core_decrypt E buffer core))"

section \<open>Names\<close>

text \<open>The conversions leave a text of lower case letters and digits alone.\<close>

definition plain_name :: "string \<Rightarrow> bool" where
  "plain_name s \<longleftrightarrow> list_all (\<lambda>c. is_digit_char c \<or> 97 \<le> (of_char c :: nat) \<and> (of_char c :: nat) \<le> 122) s"

definition keeps_plain_names :: "'st crypt_env \<Rightarrow> bool" where
  "keeps_plain_names E \<longleftrightarrow> (\<forall>s. plain_name s \<longrightarrow> ce_to_lower_copy E s = s \<and> ce_trim E s = s)"

lemma plain_name_kept: "keeps_plain_names E \<Longrightarrow> plain_name s \<Longrightarrow> ce_trim E (ce_to_lower_copy E s) = s"
  by (simp add: keeps_plain_names_def)

lemma get_encryption_core_cases:
  "get_encryption_core E m \<noteq> None \<longleftrightarrow> m \<in> {ENCRYPT_NONE, ENCRYPT_XOR} \<or> ce_have_cryptopp E \<and>
     m \<in> {ENCRYPT_DES, ENCRYPT_3DES, ENCRYPT_CAST128, ENCRYPT_XTEA, ENCRYPT_3WAY, ENCRYPT_BLOWFISH, ENCRYPT_TWOFISH,
       ENCRYPT_RC2, ENCRYPT_RIJNDAEL128, ENCRYPT_RIJNDAEL192, ENCRYPT_RIJNDAEL256, ENCRYPT_SERPENT, ENCRYPT_GOST}"
  by (simp add: get_encryption_core_def cryptopp_keysize_def)

lemma numbered_encryption_core: "numbered_encryption E s = Some m \<Longrightarrow> get_encryption_core E m \<noteq> None"
  unfolding get_encryption_core_cases
  by (auto simp: numbered_encryption_def Let_def split: if_splits)

lemma named_encryption_core: "named_encryption E s = Some m \<Longrightarrow> get_encryption_core E m \<noteq> None"
  unfolding get_encryption_core_cases
  by (simp add: named_encryption_def split: if_splits)

lemma encryption_string_plain: "get_encryption_core E m \<noteq> None \<Longrightarrow> plain_name (encryption_to_string E m)"
  unfolding get_encryption_core_cases
  by (elim disjE conjE insertE emptyE) (simp_all add: encryption_to_string_def plain_name_def is_digit_char_def)

lemma encryption_string_named: "get_encryption_core E m \<noteq> None \<Longrightarrow> named_encryption E (encryption_to_string E m) = Some m"
  unfolding get_encryption_core_cases
  by (elim disjE conjE insertE emptyE) (simp_all add: encryption_to_string_def named_encryption_def)

text \<open>
  Every algorithm that has a cipher in the build survives printing its number and reading
  the name back, whatever else the conversions of the text do.
\<close>

theorem encryption_name_roundtrip:
  assumes "keeps_plain_names E" and "get_encryption_core E m = Some core"
  shows "encryption_to_int E (encryption_to_string E m) = Inr m"
  using assms encryption_string_plain [of E m] encryption_string_named [of E m]
  by (simp add: encryption_to_int_def plain_name_kept)

text \<open>
  C29. A configured algorithm is usable: whatever text the operator wrote, a number that
  \<^verbatim>\<open>encryption_to_int\<close> accepts has a cipher in this build, so that setting up the engine with
  it never fails for want of a module, with or without Crypto++.
\<close>

theorem accepted_encryption_has_core:
  assumes "encryption_to_int E s = Inr m"
  shows "\<exists>core. get_encryption_core E m = Some core"
  using assms named_encryption_core [of E] numbered_encryption_core [of E]
  by (auto simp: encryption_to_int_def Let_def split: option.splits)

text \<open>A build with a byte-wise feedback cipher: each byte is masked by the key byte and the last byte sent.\<close>

definition sample_crypt :: "(nat \<times> nat) crypt_env" where
  "sample_crypt = \<lparr>ce_have_cryptopp = True, ce_to_lower_copy = id, ce_trim = id,
     ce_StaticAlgorithmName = (\<lambda>m. ''cipher''), ce_DEFAULT_KEYLENGTH = (\<lambda>m. 8), ce_BLOCKSIZE = (\<lambda>m. 8),
     ce_SetCipher = (\<lambda>m key iv. Some ((of_char (hd key), of_char (hd iv)), (of_char (hd key), of_char (hd iv)))),
     ce_encrypt = (\<lambda>(k, r) b. let c = xor_char b (char_of (k + r)) in Some (c, (k, of_char c))),
     ce_decrypt = (\<lambda>(k, r) c. Some (xor_char c (char_of (k + r)), (k, of_char c)))\<rparr>"

theorem encryption_name_roundtrip_witness:
  "encryption_to_int sample_crypt (encryption_to_string sample_crypt 16) = Inr 16"
  by (rule encryption_name_roundtrip [of _ _ "Cryptopp_Encryption 16 32 None"])
    (simp_all add: keeps_plain_names_def sample_crypt_def get_encryption_core_def cryptopp_keysize_def)

theorem accepted_encryption_has_core_witness:
  "encryption_to_int sample_crypt ''aes'' = Inr 16 \<and> (\<exists>core. get_encryption_core sample_crypt 16 = Some core)"
  using accepted_encryption_has_core [of sample_crypt "''aes''" 16]
  by (simp add: encryption_to_int_def sample_crypt_def named_encryption_def)



section \<open>Decryption inverts encryption\<close>

lemma of_char_xor: "(of_char (xor_char a b) :: nat) = of_char a XOR of_char b"
proof -
  have "take_bit 8 (of_char c :: nat) = of_char c" for c
    by (simp add: take_bit_eq_mod)
  then have "take_bit 8 ((of_char a :: nat) XOR of_char b) = of_char a XOR of_char b"
    by (simp add: take_bit_xor)
  then show ?thesis
    by (simp add: xor_char_def char_of_byte take_bit_eq_mod)
qed

lemma xor_char_cancel [simp]: "xor_char (xor_char a b) b = a"
  by (subst xor_char_def) (simp add: of_char_xor xor.assoc)

lemma xor_encrypt_length [simp]: "length (xor_encrypt iv password x z s) = length s"
  by (induction iv password x z s rule: xor_encrypt.induct) (simp_all add: Let_def)

lemma xor_decrypt_encrypt [simp]: "xor_decrypt iv password x z (xor_encrypt iv password x z s) = s"
  by (induction iv password x z s rule: xor_encrypt.induct) (simp_all add: Let_def)

lemma cipher_run_length: "cipher_run f s st = Some (t, st') \<Longrightarrow> length t = length s"
  by (induction s arbitrary: st t) (auto split: option.splits)

text \<open>
  What the engine relies on from Crypto++: with the states that one setup gives, decrypting
  byte by byte what was encrypted byte by byte gives the text back.
\<close>

definition cfb_law :: "'st crypt_env \<Rightarrow> bool" where
  "cfb_law E \<longleftrightarrow> (ce_have_cryptopp E \<longrightarrow> (\<forall>m key iv e d s t e'. ce_SetCipher E m key iv = Some (e, d) \<longrightarrow>
     cipher_run (ce_encrypt E) s e = Some (t, e') \<longrightarrow> (\<exists>d'. cipher_run (ce_decrypt E) t d = Some (s, d'))))"

text \<open>An engine set up for one connection.\<close>

definition open_engine :: "'st crypt_env \<Rightarrow> int \<Rightarrow> string \<Rightarrow> string \<Rightarrow> 'st engine res" where
  "open_engine E m password iv = map_sum id (\<lambda>_. snd (encrypt_init E [] password m iv)) (fst (encrypt_init E [] password m iv))"

lemma encrypt_buffer_Inr:
  "encrypt_buffer E s e = Inr (t, e') \<longleftrightarrow> (\<exists>c c'. e = Some c \<and> e' = Some c' \<and> core_encrypt E s c = Inr (t, c'))"
  by (cases e; cases "core_encrypt E s (the e)") (auto simp: encrypt_buffer_def)

text \<open>The contract of a message cipher, as the two ends of a connection use it.\<close>

locale message_cipher =
  fixes open_with :: "string \<Rightarrow> string \<Rightarrow> 'e res"
    and encipher decipher :: "string \<Rightarrow> 'e \<Rightarrow> (string \<times> 'e) res"
  assumes inverts: "open_with password iv = Inr e \<Longrightarrow> encipher s e = Inr (t, e') \<Longrightarrow> \<exists>e''. decipher t e = Inr (s, e'')"
    and keeps_length: "encipher s e = Inr (t, e') \<Longrightarrow> length t = length s"
begin

lemma no_collision:
  assumes "open_with password iv = Inr e" "encipher s e = Inr (t, e1)" "encipher s' e = Inr (t, e2)"
  shows "s = s'"
  using inverts [OF assms(1,2)] inverts [OF assms(1,3)] by auto

end

locale cryptopp_build =
  fixes E :: "'st crypt_env"
  assumes cfb: "cfb_law E"
begin

lemma core_inverts:
  assumes "get_encryption_core E m = Some c0" "core_init E password iv c0 = Inr c"
    and "core_encrypt E s c = Inr (t, c')"
  shows "\<exists>c''. core_decrypt E t c = Inr (s, c'')"
proof (cases c)
  case (Cryptopp_Encryption k n st)
  then obtain e d where st: "st = Some (e, d)" and keyed: "ce_SetCipher E k (cipher_key n password) iv = Some (e, d)"
    using assms(2) by (cases c0) (auto split: if_splits option.splits dest!: sym [of "Some _"])
  have built: "ce_have_cryptopp E"
    using assms(1,2) Cryptopp_Encryption by (auto simp: get_encryption_core_def split: if_splits)
  show ?thesis
  proof (cases "s = []")
    case False
    then obtain e' where run: "cipher_run (ce_encrypt E) s e = Some (t, e')"
      using assms(3) Cryptopp_Encryption st by (auto split: option.splits)
    then have "t \<noteq> []"
      using False cipher_run_length [of "ce_encrypt E" s e t e'] by auto
    with cfb built keyed run show ?thesis
      unfolding cfb_law_def Cryptopp_Encryption st by fastforce
  qed (use assms(3) Cryptopp_Encryption in auto)
qed (use assms(3) in auto)

end

sublocale cryptopp_build \<subseteq> engine: message_cipher "open_engine E m" "encrypt_buffer E" "decrypt_buffer E" for m
proof
  fix password iv e s t e'
  assume "open_engine E m password iv = Inr e" "encrypt_buffer E s e = Inr (t, e')"
  then show "\<exists>e''. decrypt_buffer E t e = Inr (s, e'')"
    using core_inverts [of m _ password _ _ s t]
    by (fastforce simp: open_engine_def encrypt_init_def encrypt_buffer_def decrypt_buffer_def map_sum_def
      split: option.splits sum.splits if_splits)
next
  fix s e t e'
  assume "encrypt_buffer E s e = Inr (t, e')"
  then obtain c c' where "core_encrypt E s c = Inr (t, c')"
    by (auto simp: encrypt_buffer_Inr)
  then show "length t = length s"
    by (cases c) (auto split: if_splits option.splits dest: cipher_run_length)
qed

text \<open>The build without Crypto++, whatever the library would have done.\<close>

interpretation no_cryptopp: cryptopp_build "E\<lparr>ce_have_cryptopp := False\<rparr>" for E :: "'st crypt_env"
  by unfold_locales (simp add: cfb_law_def)

lemma encrypt_init_open:
  "iv \<noteq> [] \<Longrightarrow> encrypt_init E r password m iv = (Inr (), e) \<Longrightarrow> open_engine E m password iv = Inr e"
  by (auto simp: open_engine_def encrypt_init_def split: option.splits sum.splits)

context cryptopp_build
begin

lemma delivers:
  assumes "iv \<noteq> []"
    and "encrypt_init E r password m iv = (Inr (), client)" and "encrypt_init E r' password m iv = (Inr (), server)"
    and "encrypt_buffer E s client = Inr (t, client')"
  shows "length t = length s \<and> (\<exists>server'. decrypt_buffer E t server = Inr (s, server'))"
  using engine.inverts [OF encrypt_init_open [OF assms(1,3)]] engine.keeps_length [OF assms(4)]
    encrypt_init_open [OF assms(1,2)] encrypt_init_open [OF assms(1,3)] assms(4) by simp

end


lemma sample_cipher_run:
  "cipher_run (ce_encrypt sample_crypt) s st = Some (t, st') \<Longrightarrow> \<exists>d. cipher_run (ce_decrypt sample_crypt) t st = Some (s, d)"
  by (induction s arbitrary: st t)
    (fastforce simp: sample_crypt_def Let_def split: option.splits prod.splits)+

lemma sample_cfb_law: "cfb_law sample_crypt"
proof -
  have "e = d" if "ce_SetCipher sample_crypt m key iv = Some (e, d)" for m key iv e d
    using that by (auto simp: sample_crypt_def)
  then show ?thesis
    unfolding cfb_law_def using sample_cipher_run by metis
qed

definition sample_engine :: "(nat \<times> nat) engine" where
  "sample_engine = Some (Cryptopp_Encryption ENCRYPT_RIJNDAEL128 16 (Some ((115, 48), (115, 48))))"


end
