(* ===== verification/Nsca.thy ===== *)
theory Nsca
  imports Nscp_Crypt Nagios_Status
begin

text \<open>
  NSCA submissions: the packets (\<^verbatim>\<open>include/net/nsca/nsca_packet.hpp\<close>), the parser and the
  connection of the server (\<^verbatim>\<open>server/parser.hpp\<close>, \<^verbatim>\<open>server/protocol.hpp\<close>), the client
  (\<^verbatim>\<open>client/nsca_client_protocol.hpp\<close>) and the handler
  (\<^verbatim>\<open>modules/NSCAServer/NSCAServer.cpp\<close>). The clock and the random bytes are arguments,
  the encryption engine is the one of \<^verbatim>\<open>libs/nscpcrypt\<close>; the structures have the layout of the compiler, with two bytes of padding after
  the version and at the end.
\<close>

section \<open>Packets\<close>

definition nsca_version3 :: "16 word" where "nsca_version3 = 3"
definition transmitted_iuv_size :: nat where "transmitted_iuv_size = 128"
definition sizeof_data_packet :: nat where "sizeof_data_packet = 16"
definition data_offset :: nat where "data_offset = 14"
definition sizeof_iv_packet :: nat where "sizeof_iv_packet = 132"
definition host_length :: nat where "host_length = 64"
definition desc_length :: nat where "desc_length = 128"

definition nsca_packet_length :: "nat \<Rightarrow> nat" where
  "nsca_packet_length output_length = (sizeof_data_packet + output_length + host_length + desc_length) mod 2 ^ 32"

record nsca_packet =
  ns_service :: string
  ns_result :: string
  ns_host :: string
  ns_code :: "32 word"
  ns_time :: "32 word"
  ns_payload_length :: nat

definition sanitize_identity :: "string \<Rightarrow> string" where
  "sanitize_identity field = filter printable field"

definition nsca_crc :: "string \<Rightarrow> 32 word" where
  "nsca_crc buffer = ucast (calculate_crc32 buffer)"

definition parse_data :: "string \<Rightarrow> nsca_packet \<Rightarrow> nsca_packet res" where
  "parse_data buffer p =
     (let len = length buffer; min_size = sizeof_data_packet + host_length + desc_length; version = rd16 buffer 0;
          crc32 = rd32 buffer 4; calculated = nsca_crc (put 4 (replicate 4 (CHR 0x00)) buffer)
      in if len < min_size
         then Inl (Std_Exception (''Packet too short to parse fields: '' @ nat_str len @ '' < '' @ nat_str min_size))
         else if version \<noteq> nsca_version3
         then Inl (Std_Exception (''Unsupported NSCA packet version: '' @ xtos_int (sint version)))
         else if crc32 \<noteq> calculated
         then Inl (Std_Exception (''Invalid crc: '' @ nat_str (unat crc32) @ '' != '' @ nat_str (unat calculated)))
         else Inr (p\<lparr>ns_time := rd32 buffer 8, ns_code := scast (rd16 buffer 12),
                ns_host := c_str (take host_length (drop data_offset buffer)),
                ns_service := c_str (take desc_length (drop (data_offset + host_length) buffer)),
                ns_result := c_str (take (len - min_size) (drop (data_offset + host_length + desc_length) buffer))\<rparr>))"

definition validate_lengths :: "nsca_packet \<Rightarrow> unit res" where
  "validate_lengths p =
     (if length (ns_service p) \<ge> desc_length
      then Inl (Std_Exception (''Description field to long: '' @ nat_str (length (ns_service p)) @ '' > '' @ nat_str desc_length))
      else if length (ns_host p) \<ge> host_length
      then Inl (Std_Exception (''Host field to long: '' @ nat_str (length (ns_host p)) @ '' > '' @ nat_str host_length))
      else if length (ns_result p) \<ge> ns_payload_length p
      then Inl (Std_Exception (''Result field to long: '' @ nat_str (length (ns_result p)) @ '' > '' @ nat_str (ns_payload_length p)))
      else Inr ())"

text \<open>\<^verbatim>\<open>copy_string\<close>: a field of \<open>n\<close> bytes, cleared and filled from the text, which is cut off.\<close>

definition copy_string :: "nat \<Rightarrow> string \<Rightarrow> string" where
  "copy_string n s = take n s @ replicate (n - length s) (CHR 0x00)"

definition fill_buffer :: "nsca_packet \<Rightarrow> string \<Rightarrow> 32 word \<Rightarrow> string res" where
  "fill_buffer p buffer servertime =
     (if length buffer < nsca_packet_length (ns_payload_length p)
      then Inl (Std_Exception (''Buffer is to short: '' @ nat_str (length buffer) @ '' > '' @ nat_str (nsca_packet_length (ns_payload_length p))))
      else let b1 = put 0 (be16 nsca_version3) buffer;
               b2 = put 8 (be32 (if servertime \<noteq> 0 then servertime else ns_time p)) b1;
               b3 = put 12 (be16 (ucast (ns_code p))) b2;
               b4 = put 4 (replicate 4 (CHR 0x00)) b3;
               b5 = put data_offset (copy_string host_length (ns_host p)) b4;
               b6 = put (data_offset + host_length) (copy_string desc_length (ns_service p)) b5;
               b7 = put (data_offset + host_length + desc_length) (copy_string (ns_payload_length p) (ns_result p)) b6
           in Inr (put 4 (be32 (nsca_crc b7)) b7))"

definition nsca_get_buffer :: "nsca_packet \<Rightarrow> string res" where
  "nsca_get_buffer p = fill_buffer p (replicate (nsca_packet_length (ns_payload_length p)) (CHR 0x00)) 0"

record iv_packet =
  iv_iv :: string
  iv_time :: "32 word"

definition iv_get_buffer :: "iv_packet \<Rightarrow> string res" where
  "iv_get_buffer p =
     (if length (iv_iv p) \<noteq> transmitted_iuv_size
      then Inl (Std_Exception (''Invalid IV size: '' @ nat_str (length (iv_iv p)) @ '' != '' @ nat_str transmitted_iuv_size))
      else Inr (iv_iv p @ be32 (iv_time p)))"

definition iv_parse :: "string \<Rightarrow> iv_packet res" where
  "iv_parse buffer =
     (if length buffer < sizeof_iv_packet
      then Inl (Std_Exception (''Buffer is to short: '' @ nat_str (length buffer) @ '' > '' @ nat_str sizeof_iv_packet))
      else Inr \<lparr>iv_iv = take transmitted_iuv_size buffer, iv_time = rd32 buffer transmitted_iuv_size\<rparr>)"

section \<open>Server\<close>

record nsca_parser =
  na_payload_length :: nat
  na_packet_length :: nat
  na_buffer :: string

definition new_nsca_parser :: "nat \<Rightarrow> nsca_parser" where
  "new_nsca_parser n = \<lparr>na_payload_length = n, na_packet_length = nsca_packet_length n, na_buffer = []\<rparr>"

text \<open>The number of bytes that are missing is computed in \<^verbatim>\<open>std::size_t\<close>.\<close>

definition nsca_digest :: "nsca_parser \<Rightarrow> string \<Rightarrow> bool \<times> nsca_parser \<times> string" where
  "nsca_digest p cs =
     (let count = nat ((int (na_packet_length p) - int (length (na_buffer p))) mod 2 ^ 64);
          p' = p\<lparr>na_buffer := na_buffer p @ take count cs\<rparr>
      in (length (na_buffer p') \<ge> na_packet_length p, p', drop count cs))"

definition nsca_decrypt :: "'st crypt_env \<Rightarrow> 'st engine \<Rightarrow> nsca_parser \<Rightarrow> (nsca_parser \<times> 'st engine) res" where
  "nsca_decrypt E eng p = map_sum id (\<lambda>(b, eng'). (p\<lparr>na_buffer := b\<rparr>, eng')) (decrypt_buffer E (na_buffer p) eng)"

definition blank_packet :: "nat \<Rightarrow> 32 word \<Rightarrow> nsca_packet" where
  "blank_packet payload_length now =
     \<lparr>ns_service = [], ns_result = [], ns_host = [], ns_code = 0, ns_time = now, ns_payload_length = payload_length\<rparr>"

definition nsca_parse :: "32 word \<Rightarrow> nsca_parser \<Rightarrow> (nsca_packet \<times> nsca_parser) res" where
  "nsca_parse now p =
     map_sum id (\<lambda>packet. (packet, p\<lparr>na_buffer := []\<rparr>)) (parse_data (na_buffer p) (blank_packet (na_payload_length p) now))"

definition nsca_reset :: "nsca_parser \<Rightarrow> nsca_parser" where "nsca_reset p = p\<lparr>na_buffer := []\<rparr>"

subsection \<open>Handler\<close>

record submission =
  sub_channel :: string
  sub_host :: string
  sub_service :: string
  sub_code :: nagiosReturn
  sub_message :: string
  sub_perf :: string

record 'st nsca_server =
  sv_crypt :: "'st crypt_env"
  sv_password :: string
  sv_encryption :: int
  sv_payload_length :: nat
  sv_channel :: string
  sv_noPerfData :: bool

definition nsca_handle :: "'st nsca_server \<Rightarrow> nsca_packet \<Rightarrow> submission" where
  "nsca_handle S p =
     (let host = sanitize_identity (ns_host p);
          service = sanitize_identity (ns_service p);
          code = (if ns_code p > of_int returnUNKNOWN then returnUNKNOWN else uint (ns_code p));
          head = takeWhile (\<lambda>c. c \<noteq> CHR ''|'') (ns_result p);
          (msg, perf) = (if head = ns_result p then (ns_result p, [])
                         else (head, if sv_noPerfData S then [] else drop (length head + 1) (ns_result p)))
      in \<lparr>sub_channel = sv_channel S, sub_host = host, sub_service = service, sub_code = code,
          sub_message = msg, sub_perf = perf\<rparr>)"

subsection \<open>Connection\<close>

definition kMaxClockSkewSeconds :: int where "kMaxClockSkewSeconds = 5 * 60"

datatype nsca_state = nsca_none | nsca_connected | nsca_sent_iv | nsca_done

text \<open>\<open>nr_submitted\<close> records what the handler was given, in order.\<close>

record 'st nsca_protocol =
  nr_parser :: nsca_parser
  nr_state :: nsca_state
  nr_data :: string
  nr_engine :: "'st engine"
  nr_submitted :: "submission list"

definition new_nsca_protocol :: "'st nsca_server \<Rightarrow> 'st nsca_protocol" where
  "new_nsca_protocol S = \<lparr>nr_parser = new_nsca_parser (sv_payload_length S), nr_state = nsca_none, nr_data = [],
     nr_engine = None, nr_submitted = []\<rparr>"

definition nsca_on_accept :: "bool \<Rightarrow> 'st nsca_protocol \<Rightarrow> bool \<times> 'st nsca_protocol" where
  "nsca_on_accept allowed s = (allowed, s\<lparr>nr_parser := nsca_reset (nr_parser s)\<rparr>)"

text \<open>\<open>iv\<close> is what \<^verbatim>\<open>generate_transmitted_iv\<close> drew; an exception of the setup leaves \<^verbatim>\<open>data_\<close> alone.\<close>

definition nsca_on_connect :: "'st nsca_server \<Rightarrow> string \<Rightarrow> 32 word \<Rightarrow> 'st nsca_protocol \<Rightarrow> bool res \<times> 'st nsca_protocol" where
  "nsca_on_connect S iv now s =
     (case encrypt_init (sv_crypt S) iv (sv_password S) (sv_encryption S) iv of
        (result, eng) \<Rightarrow>
          (let s' = s\<lparr>nr_state := nsca_connected, nr_engine := eng\<rparr>
           in case result of
                Inl e \<Rightarrow> (Inl e, s')
              | Inr _ \<Rightarrow>
                  (case iv_get_buffer \<lparr>iv_iv = iv, iv_time = now\<rparr> of
                     Inl e \<Rightarrow> (Inl e, s')
                   | Inr b \<Rightarrow> (Inr True, s'\<lparr>nr_data := b\<rparr>))))"

definition nsca_wants_data :: "'st nsca_protocol \<Rightarrow> bool" where "nsca_wants_data s \<longleftrightarrow> nr_state s = nsca_sent_iv"

definition nsca_has_data :: "'st nsca_protocol \<Rightarrow> bool" where "nsca_has_data s \<longleftrightarrow> nr_state s = nsca_connected"

definition nsca_on_write :: "'st nsca_protocol \<Rightarrow> bool \<times> 'st nsca_protocol" where
  "nsca_on_write s = (True, s\<lparr>nr_state := nsca_sent_iv\<rparr>)"

text \<open>
  A complete packet: decrypted, decoded, checked against the replay window and handled. Every
  exception is logged and ends the request; a failed decryption ends the use of the buffer.
\<close>

definition nsca_in_window :: "32 word \<Rightarrow> nsca_packet \<Rightarrow> bool" where
  "nsca_in_window now request =
     (let skew = uint now - uint (ns_time request)
      in \<not> (skew > kMaxClockSkewSeconds \<or> skew < - kMaxClockSkewSeconds))"

definition nsca_process :: "'st nsca_server \<Rightarrow> 32 word \<Rightarrow> 'st nsca_protocol \<Rightarrow> 'st nsca_protocol" where
  "nsca_process S now s =
     (let s' = s\<lparr>nr_state := nsca_done\<rparr>
      in case nsca_decrypt (sv_crypt S) (nr_engine s') (nr_parser s') of
           Inl _ \<Rightarrow> s'
         | Inr (p, eng) \<Rightarrow>
             (case nsca_parse now p of
                Inl _ \<Rightarrow> s'\<lparr>nr_parser := p, nr_engine := eng\<rparr>
              | Inr (request, p') \<Rightarrow>
                  (let s'' = s'\<lparr>nr_parser := p', nr_engine := eng\<rparr>
                   in if nsca_in_window now request
                      then s''\<lparr>nr_submitted := nr_submitted s'' @ [nsca_handle S request]\<rparr>
                      else s'')))"

function nsca_on_read :: "'st nsca_server \<Rightarrow> 32 word \<Rightarrow> string \<Rightarrow> 'st nsca_protocol \<Rightarrow> bool \<times> 'st nsca_protocol" where
  "nsca_on_read S now cs s =
     (if cs = [] then (True, s)
      else case nsca_digest (nr_parser s) cs of
             (result, p', rest) \<Rightarrow>
               (let s' = s\<lparr>nr_parser := p'\<rparr>
                in if length rest = length cs then (False, s')
                   else if result then (False, nsca_process S now s')
                   else nsca_on_read S now rest s'))"
  by pat_completeness auto
termination
  by (relation "measure (\<lambda>(S, now, cs, s). length cs)") (auto simp: nsca_digest_def Let_def)

declare nsca_on_read.simps [simp del]

section \<open>Client\<close>

datatype nsca_client_state = nc_none | nc_connected | nc_got_iv | nc_sent_request | nc_has_request | nc_done

record 'st nsca_client =
  nc_iv_buffer :: string
  nc_packet_buffer :: string
  nc_engine :: "'st engine"
  nc_time :: "32 word"
  nc_packet :: nsca_packet
  nc_state :: nsca_client_state

definition nc_on_connect :: "'st nsca_client \<Rightarrow> 'st nsca_client" where
  "nc_on_connect c = c\<lparr>nc_state := nc_connected\<rparr>"

definition nc_prepare_request :: "nsca_packet \<Rightarrow> 'st nsca_client \<Rightarrow> 'st nsca_client" where
  "nc_prepare_request p c =
     c\<lparr>nc_state := if nc_state c = nc_sent_request then nc_has_request else nc_connected, nc_packet := p\<rparr>"

text \<open>\<open>rand\<close> is the buffer that \<^verbatim>\<open>get_rand_buffer\<close> gave.\<close>

definition nc_get_outbound :: "'st crypt_env \<Rightarrow> string \<Rightarrow> 'st nsca_client \<Rightarrow> 'st nsca_client res" where
  "nc_get_outbound E rand c =
     bind_res (fill_buffer (nc_packet c) rand (nc_time c)) (\<lambda>str.
     map_sum id (\<lambda>(b, eng). c\<lparr>nc_engine := eng, nc_packet_buffer := b\<rparr>) (encrypt_buffer E str (nc_engine c)))"

definition nc_get_inbound :: "'st nsca_client \<Rightarrow> 'st nsca_client" where
  "nc_get_inbound c = c\<lparr>nc_iv_buffer := replicate sizeof_iv_packet (CHR 0x00)\<rparr>"

definition nc_has_data :: "'st nsca_client \<Rightarrow> bool" where
  "nc_has_data c \<longleftrightarrow> nc_state c = nc_has_request \<or> nc_state c = nc_got_iv"

definition nc_wants_data :: "'st nsca_client \<Rightarrow> bool" where "nc_wants_data c \<longleftrightarrow> nc_state c = nc_connected"

definition nc_on_read :: "'st crypt_env \<Rightarrow> string \<Rightarrow> int \<Rightarrow> 'st nsca_client \<Rightarrow> bool res \<times> 'st nsca_client" where
  "nc_on_read E password encryption c =
     (case iv_parse (nc_iv_buffer c) of
        Inl e \<Rightarrow> (Inl e, c)
      | Inr p \<Rightarrow>
          (case encrypt_init E [] password encryption (iv_iv p) of
             (Inl e, eng) \<Rightarrow> (Inl e, c\<lparr>nc_time := iv_time p, nc_engine := eng\<rparr>)
           | (Inr _, eng) \<Rightarrow> (Inr True, c\<lparr>nc_time := iv_time p, nc_engine := eng, nc_state := nc_got_iv\<rparr>)))"

definition nc_on_write :: "'st nsca_client \<Rightarrow> bool \<times> 'st nsca_client" where
  "nc_on_write c = (True, c\<lparr>nc_state := nc_sent_request\<rparr>)"

section \<open>The bytes of a data packet\<close>

lemmas layout_defs = sizeof_data_packet_def data_offset_def host_length_def desc_length_def sizeof_iv_packet_def
  transmitted_iuv_size_def

lemma copy_string_length [simp]: "length (copy_string n s) = n"
  by (simp add: copy_string_def)

lemma c_str_copy_string [simp]: "CHR 0x00 \<notin> set s \<Longrightarrow> length s \<le> n \<Longrightarrow> c_str (copy_string n s) = s"
  by (cases "n - length s") (auto simp: copy_string_def c_str_def takeWhile_eq_all_conv takeWhile_append)

definition wide_enough :: "nat \<Rightarrow> bool" where
  "wide_enough n \<longleftrightarrow> n + 208 < 2 ^ 32"

lemma nsca_packet_length_wide: "wide_enough n \<Longrightarrow> nsca_packet_length n = n + 208"
  by (simp add: wide_enough_def nsca_packet_length_def layout_defs)

lemma field_put: "length bs = k \<Longrightarrow> i + k \<le> length s \<Longrightarrow> take k (drop i (put i bs s)) = bs"
  using put_field [of i bs s] by simp

text \<open>The buffer before the checksum is stored.\<close>

definition unsealed :: "nsca_packet \<Rightarrow> string \<Rightarrow> 32 word \<Rightarrow> string" where
  "unsealed p buffer t =
     put 206 (copy_string (ns_payload_length p) (ns_result p)) (put 78 (copy_string 128 (ns_service p))
     (put 14 (copy_string 64 (ns_host p)) (put 4 (replicate 4 (CHR 0x00)) (put 12 (be16 (ucast (ns_code p)))
     (put 8 (be32 (if t \<noteq> 0 then t else ns_time p)) (put 0 (be16 nsca_version3) buffer))))))"

lemma fill_buffer_unsealed:
  "wide_enough (ns_payload_length p) \<Longrightarrow> length buffer \<ge> ns_payload_length p + 208 \<Longrightarrow>
   fill_buffer p buffer t = Inr (put 4 (be32 (nsca_crc (unsealed p buffer t))) (unsealed p buffer t))"
  by (simp add: fill_buffer_def nsca_packet_length_wide Let_def unsealed_def layout_defs)

lemma unsealed_length [simp]: "length buffer \<ge> ns_payload_length p + 208 \<Longrightarrow> length (unsealed p buffer t) = length buffer"
  by (simp add: unsealed_def)

lemma unsealed_fields:
  assumes "length buffer \<ge> ns_payload_length p + 208"
  shows "take 2 (unsealed p buffer t) = be16 nsca_version3"
    "take 4 (drop 4 (unsealed p buffer t)) = replicate 4 (CHR 0x00)"
    "take 4 (drop 8 (unsealed p buffer t)) = be32 (if t \<noteq> 0 then t else ns_time p)"
    "take 2 (drop 12 (unsealed p buffer t)) = be16 (ucast (ns_code p))"
    "take 64 (drop 14 (unsealed p buffer t)) = copy_string 64 (ns_host p)"
    "take 128 (drop 78 (unsealed p buffer t)) = copy_string 128 (ns_service p)"
    "take (ns_payload_length p) (drop 206 (unsealed p buffer t)) = copy_string (ns_payload_length p) (ns_result p)"
  using assms unfolding unsealed_def
  by (simp_all add: field_put field_put [where i = 0, simplified] put_field_other put_field_other [where j = 0, simplified]
    split del: if_split)

definition sealed :: "string \<Rightarrow> string" where
  "sealed b = put 4 (be32 (nsca_crc b)) b"

lemma sealed_checksum:
  assumes "length b \<ge> 208" and "take 4 (drop 4 b) = replicate 4 (CHR 0x00)"
  shows "rd32 (sealed b) 4 = nsca_crc (put 4 (replicate 4 (CHR 0x00)) (sealed b))"
proof -
  have "put 4 (replicate 4 (CHR 0x00)) (sealed b) = put 4 (replicate 4 (CHR 0x00)) b"
    unfolding sealed_def by (rule put_put) (use assms(1) in simp_all)
  also have "\<dots> = b"
    by (rule put_self) (use assms in simp_all)
  finally show ?thesis
    using assms(1) by (simp add: sealed_def rd32_be32 field_put)
qed

lemma sealed_fields: "length b \<ge> 208 \<Longrightarrow> j \<ge> 8 \<Longrightarrow> take k (drop j (sealed b)) = take k (drop j b)"
  "length b \<ge> 208 \<Longrightarrow> length (sealed b) = length b" "length b \<ge> 208 \<Longrightarrow> take 2 (sealed b) = take 2 b"
  by (simp_all add: sealed_def put_field_other put_field_other [where j = 0, simplified])

text \<open>What a receiver gets to see of a packet.\<close>

definition received_as :: "nsca_packet \<Rightarrow> 32 word \<Rightarrow> nsca_packet \<Rightarrow> nsca_packet" where
  "received_as p t q = q\<lparr>ns_time := if t \<noteq> 0 then t else ns_time p, ns_code := scast (ucast (ns_code p) :: 16 word),
     ns_host := c_str (copy_string 64 (ns_host p)), ns_service := c_str (copy_string 128 (ns_service p)),
     ns_result := c_str (copy_string (ns_payload_length p) (ns_result p))\<rparr>"

lemma parse_sealed:
  assumes "length buffer = ns_payload_length p + 208"
  shows "parse_data (sealed (unsealed p buffer t)) q = Inr (received_as p t q)"
proof -
  let ?u = "unsealed p buffer t"
  have len: "length ?u \<ge> 208" "length ?u = ns_payload_length p + 208" "length buffer \<ge> ns_payload_length p + 208"
    using assms by simp_all
  note f = unsealed_fields [OF len(3), of t]
  have "rd16 (sealed ?u) 0 = nsca_version3" "rd16 (sealed ?u) 12 = ucast (ns_code p)"
    "rd32 (sealed ?u) 8 = (if t \<noteq> 0 then t else ns_time p)"
    using f(1,3,4) len by (simp_all add: rd16_be16 rd32_be32 sealed_fields split del: if_split)
  moreover have "rd32 (sealed ?u) 4 = nsca_crc (put 4 (replicate 4 (CHR 0x00)) (sealed ?u))"
    using sealed_checksum [OF len(1) f(2)] .
  ultimately show ?thesis
    using f(5-7) len by (simp add: parse_data_def received_as_def layout_defs sealed_fields split del: if_split)
qed

lemma fill_buffer_parsed:
  assumes "wide_enough (ns_payload_length p)" and "length buffer = nsca_packet_length (ns_payload_length p)"
  shows "fill_buffer p buffer t = Inr (sealed (unsealed p buffer t))"
    "parse_data (sealed (unsealed p buffer t)) q = Inr (received_as p t q)"
    "length (sealed (unsealed p buffer t)) = nsca_packet_length (ns_payload_length p)"
  using assms parse_sealed [of buffer p t q] fill_buffer_unsealed [of p buffer t]
  by (simp_all add: nsca_packet_length_wide sealed_def)

section \<open>Codecs of the two packets\<close>

definition nsca_sendable :: "nsca_packet \<Rightarrow> bool" where
  "nsca_sendable p \<longleftrightarrow> validate_lengths p = Inr () \<and> wide_enough (ns_payload_length p) \<and> ns_code p < 2 ^ 15 \<and>
     CHR 0x00 \<notin> set (ns_host p) \<and> CHR 0x00 \<notin> set (ns_service p) \<and> CHR 0x00 \<notin> set (ns_result p)"

definition nsca_content :: "nsca_packet \<Rightarrow> string \<times> string \<times> 32 word \<times> string" where
  "nsca_content p = (ns_host p, ns_service p, ns_code p, ns_result p)"

lemma code_kept:
  fixes c :: "32 word"
  assumes "c < 2 ^ 15"
  shows "scast (ucast c :: 16 word) = c"
proof -
  have u: "uint c < 2 ^ 15"
    using assms by (simp add: word_less_def)
  have "- (2 ^ 15) \<le> uint c"
    by (rule order_trans [of _ 0]) simp_all
  with u have "sint (ucast c :: 16 word) = uint c"
    by (simp add: sint_uint unsigned_ucast_eq take_bit_int_eq_self signed_take_bit_int_eq_self)
  then show ?thesis
    by (simp add: scast_eq)
qed

lemma validated:
  "validate_lengths p = Inr () \<longleftrightarrow>
     length (ns_service p) < 128 \<and> length (ns_host p) < 64 \<and> length (ns_result p) < ns_payload_length p"
  by (auto simp: validate_lengths_def layout_defs)

lemma received_content: "nsca_sendable p \<Longrightarrow> nsca_content (received_as p t q) = nsca_content p"
  by (simp add: nsca_sendable_def nsca_content_def received_as_def validated code_kept)

interpretation nsca: wire_codec nsca_get_buffer "\<lambda>b. parse_data b (blank_packet 0 0)" nsca_sendable nsca_content nsca_content
proof
  fix p
  assume s: "nsca_sendable p"
  show "\<exists>b. nsca_get_buffer p = Inr b"
    using s by (simp add: nsca_sendable_def nsca_get_buffer_def fill_buffer_parsed)
  fix b
  assume "nsca_get_buffer p = Inr b"
  with s show "\<exists>q. parse_data b (blank_packet 0 0) = Inr q \<and> nsca_content q = nsca_content p"
    by (auto simp: nsca_sendable_def nsca_get_buffer_def fill_buffer_parsed received_content [unfolded nsca_sendable_def])
qed

lemma iv_parse_buffer:
  "length (iv_iv p) = 128 \<Longrightarrow> iv_parse (iv_iv p @ be32 (iv_time p)) = Inr \<lparr>iv_iv = iv_iv p, iv_time = iv_time p\<rparr>"
  by (simp add: iv_parse_def layout_defs rd32_be32)

interpretation iv: wire_codec iv_get_buffer iv_parse "\<lambda>p. length (iv_iv p) = transmitted_iuv_size" "\<lambda>p. p" "\<lambda>p. p"
  by unfold_locales (auto simp: iv_get_buffer_def transmitted_iuv_size_def iv_parse_buffer)

section \<open>Reading a packet in pieces\<close>

definition nsca_missing :: "nsca_parser \<Rightarrow> nat" where
  "nsca_missing p = na_packet_length p - length (na_buffer p)"

definition nsca_parser_ok :: "nsca_parser \<Rightarrow> bool" where
  "nsca_parser_ok p \<longleftrightarrow> na_packet_length p < 2 ^ 32 \<and> length (na_buffer p) \<le> na_packet_length p"

lemma nsca_digest_ok:
  assumes "nsca_parser_ok p"
  shows "nsca_digest p cs = (length cs \<ge> nsca_missing p, p\<lparr>na_buffer := na_buffer p @ take (nsca_missing p) cs\<rparr>,
    drop (nsca_missing p) cs)"
proof -
  have "int (na_packet_length p) - int (length (na_buffer p)) = int (nsca_missing p)"
    using assms by (simp add: nsca_parser_ok_def nsca_missing_def of_nat_diff)
  moreover have "int (nsca_missing p) mod 2 ^ 64 = int (nsca_missing p)"
    by (rule mod_pos_pos_trivial) (use assms in \<open>auto simp: nsca_parser_ok_def nsca_missing_def\<close>)
  ultimately have "nat ((int (na_packet_length p) - int (length (na_buffer p))) mod 2 ^ 64) = nsca_missing p"
    by simp
  then show ?thesis
    using assms by (auto simp: nsca_digest_def Let_def nsca_missing_def nsca_parser_ok_def min_def)
qed

lemma nsca_on_read_partial:
  assumes "nsca_parser_ok (nr_parser s)" "length cs < nsca_missing (nr_parser s)"
  shows "nsca_on_read S now cs s = (True, s\<lparr>nr_parser := (nr_parser s)\<lparr>na_buffer := na_buffer (nr_parser s) @ cs\<rparr>\<rparr>)"
  using assms
  by (subst nsca_on_read.simps, subst nsca_on_read.simps) (simp add: nsca_digest_ok)

lemma nsca_on_read_complete:
  assumes "nsca_parser_ok (nr_parser s)" "0 < nsca_missing (nr_parser s)" "nsca_missing (nr_parser s) \<le> length cs"
  shows "nsca_on_read S now cs s = (False, nsca_process S now (s\<lparr>nr_parser := (nr_parser s)\<lparr>na_buffer :=
    na_buffer (nr_parser s) @ take (nsca_missing (nr_parser s)) cs\<rparr>\<rparr>))"
  using assms by (subst nsca_on_read.simps) (auto simp: nsca_digest_ok Let_def)

text \<open>A connection that reads until the protocol has had enough.\<close>

fun nsca_feed :: "'st nsca_server \<Rightarrow> 32 word \<Rightarrow> string list \<Rightarrow> 'st nsca_protocol \<Rightarrow> 'st nsca_protocol" where
  "nsca_feed S now [] s = s"
| "nsca_feed S now (c # cs) s = (case nsca_on_read S now c s of (again, s') \<Rightarrow> if again then nsca_feed S now cs s' else s')"

lemma nsca_feed_complete:
  assumes "nsca_parser_ok (nr_parser s)" "0 < nsca_missing (nr_parser s)"
    "nsca_missing (nr_parser s) \<le> length (concat chunks)"
  shows "nsca_feed S now chunks s = nsca_process S now (s\<lparr>nr_parser := (nr_parser s)\<lparr>na_buffer :=
    na_buffer (nr_parser s) @ take (nsca_missing (nr_parser s)) (concat chunks)\<rparr>\<rparr>)"
  using assms
proof (induction chunks arbitrary: s)
  case (Cons c cs)
  show ?case
  proof (cases "length c < nsca_missing (nr_parser s)")
    case True
    let ?s = "s\<lparr>nr_parser := (nr_parser s)\<lparr>na_buffer := na_buffer (nr_parser s) @ c\<rparr>\<rparr>"
    have "nsca_parser_ok (nr_parser ?s)" "nsca_missing (nr_parser ?s) = nsca_missing (nr_parser s) - length c"
      using Cons.prems(1) True by (auto simp: nsca_parser_ok_def nsca_missing_def)
    with Cons.IH [of ?s] Cons.prems True show ?thesis
      by (simp add: nsca_on_read_partial)
  qed (use Cons.prems in \<open>simp add: nsca_on_read_complete\<close>)
qed simp

lemma nsca_feed_incomplete:
  assumes "nsca_parser_ok (nr_parser s)" "length (concat chunks) < nsca_missing (nr_parser s)"
  shows "nsca_feed S now chunks s = s\<lparr>nr_parser := (nr_parser s)\<lparr>na_buffer := na_buffer (nr_parser s) @ concat chunks\<rparr>\<rparr>"
  using assms
proof (induction chunks arbitrary: s)
  case (Cons c cs)
  let ?s = "s\<lparr>nr_parser := (nr_parser s)\<lparr>na_buffer := na_buffer (nr_parser s) @ c\<rparr>\<rparr>"
  have "nsca_parser_ok (nr_parser ?s)" "nsca_missing (nr_parser ?s) = nsca_missing (nr_parser s) - length c"
    using Cons.prems by (auto simp: nsca_parser_ok_def nsca_missing_def)
  with Cons.IH [of ?s] Cons.prems show ?case
    by (simp add: nsca_on_read_partial)
qed simp

text \<open>What a complete buffer can lead to.\<close>

lemma nsca_process_submits:
  "nr_submitted (nsca_process S now s) = nr_submitted s \<or>
   (\<exists>plain eng request p'. decrypt_buffer (sv_crypt S) (na_buffer (nr_parser s)) (nr_engine s) = Inr (plain, eng) \<and>
      nsca_parse now ((nr_parser s)\<lparr>na_buffer := plain\<rparr>) = Inr (request, p') \<and> nsca_in_window now request \<and>
      nr_submitted (nsca_process S now s) = nr_submitted s @ [nsca_handle S request])"
proof (cases "decrypt_buffer (sv_crypt S) (na_buffer (nr_parser s)) (nr_engine s)")
  case (Inr r)
  obtain plain eng where d: "decrypt_buffer (sv_crypt S) (na_buffer (nr_parser s)) (nr_engine s) = Inr (plain, eng)"
    using Inr by (cases r) simp
  show ?thesis
  proof (cases "nsca_parse now ((nr_parser s)\<lparr>na_buffer := plain\<rparr>)")
    case parsed: (Inr q)
    obtain request p' where q: "q = (request, p')"
      by (cases q) simp
    show ?thesis
      using d parsed unfolding q
      by (cases "nsca_in_window now request") (simp_all add: nsca_process_def nsca_decrypt_def Let_def)
  qed (use d in \<open>simp add: nsca_process_def nsca_decrypt_def Let_def\<close>)
qed (simp add: nsca_process_def nsca_decrypt_def)

lemma nsca_on_read_submits:
  "nr_submitted (snd (nsca_on_read S now cs s)) = nr_submitted s \<or> \<not> fst (nsca_on_read S now cs s) \<and>
    (\<exists>request. nsca_in_window now request \<and> nr_submitted (snd (nsca_on_read S now cs s)) = nr_submitted s @ [nsca_handle S request])"
proof (induction S now cs s rule: nsca_on_read.induct)
  case (1 S now cs s)
  obtain result p' rest where d: "nsca_digest (nr_parser s) cs = (result, p', rest)"
    by (metis prod_cases3)
  let ?s = "s\<lparr>nr_parser := p'\<rparr>"
  consider "cs = [] \<or> length rest = length cs" | "cs \<noteq> []" "length rest \<noteq> length cs" result
    | "cs \<noteq> []" "length rest \<noteq> length cs" "\<not> result" by blast
  then show ?case
  proof cases
    case 2
    then have "nsca_on_read S now cs s = (False, nsca_process S now ?s)"
      by (simp add: nsca_on_read.simps [of S now cs] d Let_def)
    then show ?thesis
      using nsca_process_submits [of S now ?s] by auto
  next
    case 3
    then have "nsca_on_read S now cs s = nsca_on_read S now rest ?s"
      by (simp add: nsca_on_read.simps [of S now cs] d Let_def)
    with 1 [OF 3(1) d [symmetric] refl refl 3(2,3)] show ?thesis
      by simp
  qed (auto simp: nsca_on_read.simps [of S now cs] d Let_def)
qed

lemma nsca_feed_submits:
  "nr_submitted (nsca_feed S now chunks s) = nr_submitted s \<or>
   (\<exists>request. nsca_in_window now request \<and> nr_submitted (nsca_feed S now chunks s) = nr_submitted s @ [nsca_handle S request])"
proof (induction chunks arbitrary: s)
  case (Cons c cs)
  obtain again s' where r: "nsca_on_read S now c s = (again, s')"
    by fastforce
  show ?case
    using nsca_on_read_submits [of S now c s] Cons.IH [of s'] unfolding nsca_feed.simps r prod.case fst_conv snd_conv
    by (cases again) (simp_all only: if_True if_False simp_thms)
qed simp

section \<open>Submissions\<close>

lemma nsca_handle_content: "nsca_content p = nsca_content q \<Longrightarrow> nsca_handle S p = nsca_handle S q"
  by (simp only: nsca_content_def nsca_handle_def prod.inject)

lemma nsca_connected_state:
  assumes "length iv = transmitted_iuv_size" "nsca_on_connect S iv t s = (Inr True, s')"
  obtains eng where "encrypt_init (sv_crypt S) iv (sv_password S) (sv_encryption S) iv = (Inr (), eng)"
    "s' = s\<lparr>nr_state := nsca_connected, nr_engine := eng, nr_data := iv @ be32 t\<rparr>"
  using assms by (auto simp: nsca_on_connect_def iv_get_buffer_def Let_def split: prod.splits sum.splits)

lemma nc_got_iv_state:
  assumes "length iv = transmitted_iuv_size" "nc_iv_buffer c = iv @ be32 t" "nc_on_read E pw m c = (Inr True, c')"
  obtains eng where "encrypt_init E [] pw m iv = (Inr (), eng)" "c' = c\<lparr>nc_time := t, nc_engine := eng, nc_state := nc_got_iv\<rparr>"
  using assms iv_parse_buffer [of "\<lparr>iv_iv = iv, iv_time = t\<rparr>"]
  by (auto simp: nc_on_read_def transmitted_iuv_size_def split: prod.splits sum.splits)

lemma nsca_process_delivers:
  assumes "decrypt_buffer (sv_crypt S) (na_buffer (nr_parser s)) (nr_engine s) = Inr (plain, eng)"
    and "\<And>q. parse_data plain q = Inr (received_as p t q)" and "nsca_sendable p" and "t \<noteq> 0" and "nr_submitted s = []"
  shows "nr_submitted (nsca_process S now s) = (if \<bar>uint now - uint t\<bar> \<le> kMaxClockSkewSeconds then [nsca_handle S p] else [])"
proof -
  let ?r = "received_as p t (blank_packet (na_payload_length (nr_parser s)) now)"
  have "nsca_handle S ?r = nsca_handle S p"
    by (rule nsca_handle_content [OF received_content [OF assms(3)]])
  moreover have "nsca_in_window now ?r \<longleftrightarrow> \<bar>uint now - uint t\<bar> \<le> kMaxClockSkewSeconds"
    using assms(4) by (auto simp: nsca_in_window_def received_as_def Let_def abs_le_iff)
  ultimately show ?thesis
    using assms(1,2,5) by (auto simp: nsca_process_def nsca_decrypt_def nsca_parse_def Let_def)
qed


text \<open>
  C27. Whatever bytes a peer sends, in whatever pieces, a connection submits at most one result,
  and that one is safe to pass on: host and service hold no control characters, the code is one
  of the four Nagios codes, and the message holds no performance data separator.
\<close>

theorem nsca_submissions_clean:
  assumes "nr_submitted s = []"
  shows "length (nr_submitted (nsca_feed S now chunks s)) \<le> 1 \<and>
    (\<forall>sub \<in> set (nr_submitted (nsca_feed S now chunks s)). 0 \<le> sub_code sub \<and> sub_code sub \<le> 3 \<and>
      list_all printable (sub_host sub) \<and> list_all printable (sub_service sub) \<and> CHR ''|'' \<notin> set (sub_message sub))"
proof -
  have "0 \<le> sub_code (nsca_handle S r) \<and> sub_code (nsca_handle S r) \<le> 3 \<and> list_all printable (sub_host (nsca_handle S r)) \<and>
    list_all printable (sub_service (nsca_handle S r)) \<and> CHR ''|'' \<notin> set (sub_message (nsca_handle S r))" for r
    by (auto simp: nsca_handle_def Let_def sanitize_identity_def list_all_iff word_less_def not_less word_le_def
      dest: set_takeWhileD split: if_splits)
  then show ?thesis
    using assms nsca_feed_submits [of S now chunks s] by auto
qed

definition sample_nsca :: "(nat \<times> nat) nsca_server" where
  "sample_nsca = \<lparr>sv_crypt = sample_crypt, sv_password = ''secret'', sv_encryption = ENCRYPT_XOR, sv_payload_length = 512,
     sv_channel = ''NSCA'', sv_noPerfData = False\<rparr>"

definition sample_submission :: nsca_packet where
  "sample_submission = \<lparr>ns_service = ''disk'', ns_result = ''full|used=99'', ns_host = ''web'', ns_code = 2, ns_time = 0,
     ns_payload_length = 512\<rparr>"

definition sample_iv :: string where "sample_iv = replicate 128 CHR ''i''"

definition sample_nsca_client :: "(nat \<times> nat) nsca_client" where
  "sample_nsca_client = \<lparr>nc_iv_buffer = [], nc_packet_buffer = [], nc_engine = None, nc_time = 0,
     nc_packet = sample_submission, nc_state = nc_connected\<rparr>"

lemma sample_nsca_wide: "wide_enough 512"
  by (simp add: wide_enough_def)


theorem nsca_submissions_clean_witness:
  "length (nr_submitted (nsca_feed sample_nsca 0 [''garbage''] (new_nsca_protocol sample_nsca))) \<le> 1"
  using nsca_submissions_clean [of "new_nsca_protocol sample_nsca" sample_nsca 0 "[''garbage'']"]
  by (simp add: new_nsca_protocol_def)

end
