(* ===== verification/Str_Split.thy ===== *)
theory Str_Split
  imports Prelude
begin

text \<open>
  Splitting at a separator (\<^verbatim>\<open>split_lst\<close> and the two \<^verbatim>\<open>split\<close> templates of
  \<^verbatim>\<open>include/str/utils_no_boost.hpp\<close>, which are the same loop), for the separators of one
  character that their callers pass, and \<^verbatim>\<open>split2\<close>.
\<close>

definition upto_sep :: "char \<Rightarrow> string \<Rightarrow> string" where
  "upto_sep key s = takeWhile (\<lambda>c. c \<noteq> key) s"

definition after_sep :: "char \<Rightarrow> string \<Rightarrow> string" where
  "after_sep key s = drop (Suc (length (upto_sep key s))) s"

function split_lst :: "char \<Rightarrow> string \<Rightarrow> string list" where
  "split_lst key s =
     (if key \<in> set s then upto_sep key s # split_lst key (after_sep key s)
      else if s = [] then [] else [s])"
  by pat_completeness auto
termination
  by (relation "measure (\<lambda>(key, s). length s)") (auto simp: after_sep_def intro!: diff_less dest: length_pos_if_in_set)

declare split_lst.simps [simp del]

definition split2 :: "char \<Rightarrow> string \<Rightarrow> string \<times> string" where
  "split2 key s = (if key \<in> set s then (upto_sep key s, after_sep key s) else (s, []))"

lemma sep_first [simp]:
  "key \<notin> set a \<Longrightarrow> upto_sep key (a @ key # b) = a" "key \<notin> set a \<Longrightarrow> after_sep key (a @ key # b) = b"
  by (simp_all add: upto_sep_def after_sep_def takeWhile_append)

lemma upto_sep_no_sep: "key \<notin> set (upto_sep key s)"
  by (auto simp: upto_sep_def dest: set_takeWhileD)

lemma upto_after_sep: "key \<in> set s \<Longrightarrow> upto_sep key s @ key # after_sep key s = s"
proof -
  assume "key \<in> set s"
  then obtain a b where "s = a @ key # b" "key \<notin> set a"
    by (metis split_list_first)
  then show ?thesis by simp
qed

lemma split_lst_simps:
  "split_lst key [] = []"
  "key \<notin> set s \<Longrightarrow> s \<noteq> [] \<Longrightarrow> split_lst key s = [s]"
  "key \<notin> set a \<Longrightarrow> split_lst key (a @ key # b) = a # split_lst key b"
  by (simp_all add: split_lst.simps [of key])

lemma split_lst_pieces: "p \<in> set (split_lst key s) \<Longrightarrow> key \<notin> set p"
proof (induction key s rule: split_lst.induct)
  case (1 key s)
  then show ?case
    by (subst (asm) split_lst.simps) (auto simp: upto_sep_no_sep split: if_splits)
qed

end
