(* ===== verification/Cron.thy ===== *)
theory Cron
  imports Str_Split "HOL-Library.Product_Lexorder"
begin

text \<open>
  Cron expressions of the scheduler (\<^verbatim>\<open>include/parsers/cron/cron_parser.hpp\<close>): parsing, and the
  search for the next matching time. The calendar of Boost (which dates exist, the weekday of a
  date, the minute after a time) is the record \<open>calendar\<close>, and \<^verbatim>\<open>boost::algorithm::split\<close> at
  commas is the parameter \<open>split_any\<close>.
\<close>

section \<open>Parsing\<close>

text \<open>\<^verbatim>\<open>std::stoll\<close>: blanks, a sign, digits; what follows is ignored.\<close>

definition blank :: "char \<Rightarrow> bool" where
  "blank c \<longleftrightarrow> c = CHR '' '' \<or> 9 \<le> (of_char c :: nat) \<and> (of_char c :: nat) \<le> 13"

definition stoll :: "string \<Rightarrow> int option" where
  "stoll s =
     (let s1 = dropWhile blank s;
          neg = (s1 \<noteq> [] \<and> hd s1 = CHR ''-'');
          s2 = (if s1 \<noteq> [] \<and> (hd s1 = CHR ''-'' \<or> hd s1 = CHR ''+'') then tl s1 else s1);
          digits = takeWhile is_digit_char s2;
          v = (if neg then - int (digits_val digits) else int (digits_val digits))
      in if digits = [] then None else if v < - (2 ^ 63) \<or> v > 2 ^ 63 - 1 then None else Some v)"

record schedule_item =
  si_value :: "int list"
  si_min :: int
  si_max :: int
  si_star :: bool

fun parse_values :: "string \<Rightarrow> int \<Rightarrow> int \<Rightarrow> string list \<Rightarrow> int list res" where
  "parse_values val lo hi [] = Inr []"
| "parse_values val lo hi (s # ss) =
     (case stoll s of
        None \<Rightarrow> Inl (Std_Exception (''Invalid value: '' @ val))
      | Some i \<Rightarrow>
          if i < lo \<or> i > hi then Inl (Std_Exception (''Value out of range: '' @ val))
          else bind_res (parse_values val lo hi ss) (\<lambda>is. Inr (i # is)))"

definition item_parse :: "(string \<Rightarrow> string list) \<Rightarrow> string \<Rightarrow> int \<Rightarrow> int \<Rightarrow> schedule_item res" where
  "item_parse split_any val min_value max_value =
     (if val = ''*'' then Inr \<lparr>si_value = [], si_min = min_value, si_max = max_value, si_star = True\<rparr>
      else bind_res (parse_values val min_value max_value (split_any val)) (\<lambda>vs.
        Inr \<lparr>si_value = vs, si_min = min_value, si_max = max_value, si_star = False\<rparr>))"

definition item_is_valid_for :: "schedule_item \<Rightarrow> int \<Rightarrow> bool" where
  "item_is_valid_for it v \<longleftrightarrow> (if si_star it then True else v \<in> set (si_value it))"

text \<open>The two loops of \<^verbatim>\<open>schedule_item::find_next\<close>; the flag says that the search wrapped around.\<close>

definition item_find_next :: "schedule_item \<Rightarrow> int \<Rightarrow> (int \<times> bool) res" where
  "item_find_next it v =
     (case find (item_is_valid_for it) [v..si_max it] of
        Some i \<Rightarrow> Inr (i, False)
      | None \<Rightarrow>
          (case find (item_is_valid_for it) [si_min it..v - 1] of
             Some i \<Rightarrow> Inr (i, True)
           | None \<Rightarrow> Inl (Std_Exception (''Failed to find match for: '' @ xtos_int v))))"

fun comma_list :: "int list \<Rightarrow> string" where
  "comma_list [] = []"
| "comma_list [v] = xtos_int v"
| "comma_list (v # vs) = xtos_int v @ '','' @ comma_list vs"

definition item_to_string :: "schedule_item \<Rightarrow> string" where
  "item_to_string it = (if si_star it then ''*'' else comma_list (si_value it))"

record cron_schedule =
  cs_min :: schedule_item
  cs_hour :: schedule_item
  cs_dom :: schedule_item
  cs_mon :: schedule_item
  cs_dow :: schedule_item

definition cron_parse :: "(string \<Rightarrow> string list) \<Rightarrow> string \<Rightarrow> cron_schedule res" where
  "cron_parse split_any s =
     (let v = split_lst (CHR '' '') s
      in if length v \<noteq> 5 then Inl (Std_Exception (''invalid cron syntax: '' @ s))
         else bind_res (item_parse split_any (v ! 0) 0 59) (\<lambda>mi.
              bind_res (item_parse split_any (v ! 1) 0 23) (\<lambda>h.
              bind_res (item_parse split_any (v ! 2) 1 31) (\<lambda>d.
              bind_res (item_parse split_any (v ! 3) 1 12) (\<lambda>mo.
              bind_res (item_parse split_any (v ! 4) 0 6) (\<lambda>w.
              Inr \<lparr>cs_min = mi, cs_hour = h, cs_dom = d, cs_mon = mo, cs_dow = w\<rparr>))))))"

definition cron_to_string :: "cron_schedule \<Rightarrow> string" where
  "cron_to_string s = item_to_string (cs_min s) @ '' '' @ item_to_string (cs_hour s) @ '' '' @ item_to_string (cs_dom s) @
     '' '' @ item_to_string (cs_mon s) @ '' '' @ item_to_string (cs_dow s)"

section \<open>Searching\<close>

text \<open>A time to the minute: year, month, day, hour, minute, compared in that order.\<close>

type_synonym minute_time = "int \<times> int \<times> int \<times> int \<times> int"

record calendar =
  cal_valid :: "int \<Rightarrow> int \<Rightarrow> int \<Rightarrow> bool"
  cal_day_of_week :: "int \<Rightarrow> int \<Rightarrow> int \<Rightarrow> int"
  cal_plus_minute :: "minute_time \<Rightarrow> minute_time"

definition cron_is_valid_for :: "calendar \<Rightarrow> cron_schedule \<Rightarrow> minute_time \<Rightarrow> bool" where
  "cron_is_valid_for cal s t =
     (case t of (y, m, d, h, mi) \<Rightarrow>
        item_is_valid_for (cs_mon s) m \<and> item_is_valid_for (cs_dom s) d \<and>
        item_is_valid_for (cs_dow s) (cal_day_of_week cal y m d) \<and> item_is_valid_for (cs_hour s) h \<and> item_is_valid_for (cs_min s) mi)"

text \<open>What the body of a loop does with the loop.\<close>

datatype 'r flow = Return 'r | Continue | Break

lemma item_find_next_range:
  "item_find_next it v = Inr (i, False) \<Longrightarrow> v \<le> i \<and> i \<le> si_max it \<and> item_is_valid_for it i"
  by (auto simp: item_find_next_def find_Some_iff set_upto [symmetric] split: option.splits dest: nth_mem)

text \<open>
  \<^verbatim>\<open>for (n = item.find_next(start); !n.overflow; n = item.find_next(n.value + 1)) body\<close>, where
  running to the end is \<open>None\<close>.
\<close>

function item_loop :: "schedule_item \<Rightarrow> int \<Rightarrow> (int \<Rightarrow> 'r flow res) \<Rightarrow> 'r option res" where
  "item_loop it start body =
     (case item_find_next it start of
        Inl e \<Rightarrow> Inl e
      | Inr (v, overflow) \<Rightarrow>
          if overflow then Inr None
          else (case body v of
                  Inl e \<Rightarrow> Inl e
                | Inr (Return r) \<Rightarrow> Inr (Some r)
                | Inr Continue \<Rightarrow> item_loop it (v + 1) body
                | Inr Break \<Rightarrow> Inr None))"
  by pat_completeness auto
termination
  by (relation "measure (\<lambda>(it, start, body). nat (si_max it + 1 - start))") (auto dest!: item_find_next_range)

declare item_loop.simps [simp del]

definition loop_flow :: "'r option res \<Rightarrow> 'r flow res" where
  "loop_flow r = bind_res r (\<lambda>x. Inr (case x of None \<Rightarrow> Continue | Some t \<Rightarrow> Return t))"

definition hour_body :: "cron_schedule \<Rightarrow> minute_time \<Rightarrow> int \<Rightarrow> int \<Rightarrow> int \<Rightarrow> int \<Rightarrow> minute_time flow res" where
  "hour_body s now y m d h =
     (case now of (ny, nm, nd, nh, nmi) \<Rightarrow>
        let min_start = (if (y, m, d) = (ny, nm, nd) \<and> h = nh then nmi else si_min (cs_min s))
        in bind_res (item_find_next (cs_min s) min_start) (\<lambda>(mi, overflow).
             Inr (if overflow then Continue else Return (y, m, d, h, mi))))"

definition day_body :: "calendar \<Rightarrow> cron_schedule \<Rightarrow> minute_time \<Rightarrow> int \<Rightarrow> int \<Rightarrow> int \<Rightarrow> minute_time flow res" where
  "day_body cal s now y m d =
     (case now of (ny, nm, nd, nh, nmi) \<Rightarrow>
        if \<not> cal_valid cal y m d then Inr Break
        else if \<not> item_is_valid_for (cs_dow s) (cal_day_of_week cal y m d) then Inr Continue
        else let hour_start = (if (y, m, d) = (ny, nm, nd) then nh else si_min (cs_hour s))
             in loop_flow (item_loop (cs_hour s) hour_start (hour_body s now y m d)))"

definition month_body :: "calendar \<Rightarrow> cron_schedule \<Rightarrow> minute_time \<Rightarrow> int \<Rightarrow> int \<Rightarrow> minute_time flow res" where
  "month_body cal s now y m =
     (case now of (ny, nm, nd, nh, nmi) \<Rightarrow>
        let dom_start = (if y = ny \<and> m = nm then nd else si_min (cs_dom s))
        in loop_flow (item_loop (cs_dom s) dom_start (day_body cal s now y m)))"

fun year_loop :: "calendar \<Rightarrow> cron_schedule \<Rightarrow> minute_time \<Rightarrow> int list \<Rightarrow> minute_time option res" where
  "year_loop cal s now [] = Inr None"
| "year_loop cal s now (y # ys) =
     (case now of (ny, nm, nd, nh, nmi) \<Rightarrow>
        let mon_start = (if y = ny then nm else si_min (cs_mon s))
        in bind_res (item_loop (cs_mon s) mon_start (month_body cal s now y)) (\<lambda>x.
             case x of Some t \<Rightarrow> Inr (Some t) | None \<Rightarrow> year_loop cal s now ys))"

definition cron_find_next :: "calendar \<Rightarrow> cron_schedule \<Rightarrow> minute_time \<Rightarrow> minute_time res" where
  "cron_find_next cal s now_time =
     (let now = (if cron_is_valid_for cal s now_time then cal_plus_minute cal now_time else now_time)
      in bind_res (year_loop cal s now [fst now..fst now + 4]) (\<lambda>x.
           case x of
             Some t \<Rightarrow> Inr t
           | None \<Rightarrow> Inl (Std_Exception ''Failed to find next schedule match within 4 years'')))"

section \<open>The search is a minimum\<close>

text \<open>What a loop finds of a set of candidates: nothing when there is none, the least one otherwise.\<close>

definition finds :: "('r :: linorder) set \<Rightarrow> 'r option \<Rightarrow> bool" where
  "finds S x = (case x of None \<Rightarrow> S = {} | Some r \<Rightarrow> r \<in> S \<and> (\<forall>s \<in> S. r \<le> s))"

definition item_ok :: "schedule_item \<Rightarrow> bool" where
  "item_ok it \<longleftrightarrow> si_min it \<le> si_max it \<and> (if si_star it then True else si_value it \<noteq> [] \<and> set (si_value it) \<subseteq> {si_min it..si_max it})"

definition choices :: "schedule_item \<Rightarrow> int \<Rightarrow> int set" where
  "choices it start = {v. start \<le> v \<and> v \<le> si_max it \<and> item_is_valid_for it v}"

lemma item_ok_choice: "item_ok it \<Longrightarrow> \<exists>v. si_min it \<le> v \<and> v \<le> si_max it \<and> item_is_valid_for it v"
  by (cases "si_value it") (auto simp: item_ok_def item_is_valid_for_def split: if_splits)

lemma find_upto:
  "find P [a..b] = Some v \<longleftrightarrow> a \<le> v \<and> v \<le> b \<and> P v \<and> (\<forall>w. a \<le> w \<and> w < v \<longrightarrow> \<not> P w)"
  "find P [a..b] = None \<longleftrightarrow> (\<forall>w. a \<le> w \<and> w \<le> b \<longrightarrow> \<not> P w)"
proof -
  have "length [a..b] = nat (b - a + 1)" for a b :: int by simp
  moreover have "[a..b] ! i = a + int i" if "i < length [a..b]" for i
    using that by (simp add: nth_upto)
  ultimately show "find P [a..b] = Some v \<longleftrightarrow> a \<le> v \<and> v \<le> b \<and> P v \<and> (\<forall>w. a \<le> w \<and> w < v \<longrightarrow> \<not> P w)"
  proof (intro iffI, goal_cases)
    case 1
    then obtain i where i: "i < nat (b - a + 1)" "P (a + int i)" "v = a + int i" "\<forall>j < i. \<not> P (a + int j)"
      by (auto simp: find_Some_iff)
    have "\<not> P w" if "a \<le> w" "w < v" for w
      using i(3,4) that by (auto dest!: spec [of _ "nat (w - a)"])
    with i show ?case by auto
  next
    case 2
    then show ?case
      by (auto simp: find_Some_iff intro!: exI [of _ "nat (v - a)"])
  qed
  show "find P [a..b] = None \<longleftrightarrow> (\<forall>w. a \<le> w \<and> w \<le> b \<longrightarrow> \<not> P w)"
    by (auto simp: find_None_iff)
qed

lemma item_find_next_cases:
  assumes "item_ok it"
  shows "(\<exists>v. item_find_next it start = Inr (v, False) \<and> v \<in> choices it start \<and> (\<forall>w \<in> choices it start. v \<le> w)) \<or>
    (\<exists>v. item_find_next it start = Inr (v, True)) \<and> choices it start = {}"
proof (cases "find (item_is_valid_for it) [start..si_max it]")
  case None
  then have empty: "choices it start = {}"
    by (auto simp: find_upto choices_def)
  obtain v where v: "si_min it \<le> v" "v \<le> si_max it" "item_is_valid_for it v"
    using item_ok_choice [OF assms] by blast
  then have "v \<le> start - 1"
    using empty by (fastforce simp: choices_def)
  then have "find (item_is_valid_for it) [si_min it..start - 1] \<noteq> None"
    using v by (subst find_upto) auto
  with None empty show ?thesis
    by (auto simp: item_find_next_def)
next
  case (Some v)
  then have v: "v \<in> choices it start" and least: "\<forall>w. start \<le> w \<and> w < v \<longrightarrow> \<not> item_is_valid_for it w"
    by (auto simp: find_upto choices_def)
  have "v \<le> w" if "w \<in> choices it start" for w
    using that least by (force simp: choices_def)
  with v Some show ?thesis
    by (intro disjI1 exI [of _ v]) (simp add: item_find_next_def)
qed

text \<open>A loop whose body finds the least of its candidates finds the least of all.\<close>

lemma item_loop_finds:
  assumes "item_ok it"
    and body: "\<And>v. v \<in> choices it start \<Longrightarrow>
      (body v = Inr Break \<and> (\<forall>w \<ge> v. S w = {})) \<or> (body v = Inr Continue \<and> S v = {}) \<or> (\<exists>r. body v = Inr (Return r) \<and> finds (S v) (Some r))"
    and ordered: "\<And>v w s t. v < w \<Longrightarrow> s \<in> S v \<Longrightarrow> t \<in> S w \<Longrightarrow> s \<le> t"
  shows "\<exists>x. item_loop it start body = Inr x \<and> finds (\<Union>v \<in> choices it start. S v) x"
  using body
proof (induction "nat (si_max it + 1 - start)" arbitrary: start rule: less_induct)
  case less
  consider v where "item_find_next it start = Inr (v, False)" "v \<in> choices it start" "\<forall>w \<in> choices it start. v \<le> w"
    | v where "item_find_next it start = Inr (v, True)" "choices it start = {}"
    using item_find_next_cases [OF assms(1), of start] by blast
  then show ?case
  proof cases
    case 2
    then show ?thesis by (simp add: item_loop.simps [of it start] finds_def)
  next
    case (1 v)
    have later: "choices it start = insert v (choices it (v + 1))"
      using 1(2,3) by (auto simp: choices_def)
    consider "body v = Inr Break" "\<forall>w \<ge> v. S w = {}" | "body v = Inr Continue" "S v = {}"
      | r where "body v = Inr (Return r)" "finds (S v) (Some r)"
      using less.prems [OF 1(2)] by blast
    then show ?thesis
    proof cases
      case b: 1
      then have "(\<Union>w \<in> choices it start. S w) = {}"
        using 1(3) by auto
      then show ?thesis
        using 1(1) b(1) by (simp add: item_loop.simps [of it start] finds_def)
    next
      case c: 2
      have "nat (si_max it + 1 - (v + 1)) < nat (si_max it + 1 - start)"
        using 1(2) by (auto simp: choices_def)
      from less.hyps [OF this] less.prems obtain x
        where "item_loop it (v + 1) body = Inr x" "finds (\<Union>w \<in> choices it (v + 1). S w) x"
        unfolding later by blast
      then show ?thesis
        using 1(1) c by (simp add: item_loop.simps [of it start] later)
    next
      case r: (3 r)
      have "r \<le> t" if "t \<in> S w" "w \<in> choices it start" for w t
        using that r(2) 1(3) ordered [of v w r t] by (cases "w = v") (auto simp: finds_def)
      then have "finds (\<Union>w \<in> choices it start. S w) (Some r)"
        using r(2) 1(2) by (auto simp: finds_def)
      then show ?thesis
        using 1(1) r(1) by (simp add: item_loop.simps [of it start])
    qed
  qed
qed

text \<open>Times that exist, and the law of the calendar: the days of a month are an initial segment of 1 to 31.\<close>

definition real_time :: "calendar \<Rightarrow> minute_time \<Rightarrow> bool" where
  "real_time cal t = (case t of (y, m, d, h, mi) \<Rightarrow> cal_valid cal y m d \<and> 0 \<le> h \<and> h \<le> 23 \<and> 0 \<le> mi \<and> mi \<le> 59)"

definition calendar_law :: "calendar \<Rightarrow> bool" where
  "calendar_law cal \<longleftrightarrow> (\<forall>y m d. cal_valid cal y m d \<longrightarrow> 1 \<le> m \<and> m \<le> 12 \<and> 1 \<le> d \<and> d \<le> 31 \<and> (\<forall>d' \<ge> 1. d' \<le> d \<longrightarrow> cal_valid cal y m d'))"

lemma calendar_range: "calendar_law cal \<Longrightarrow> cal_valid cal y m d \<Longrightarrow> 1 \<le> m \<and> m \<le> 12 \<and> 1 \<le> d \<and> d \<le> 31"
  unfolding calendar_law_def by blast

lemma calendar_initial: "calendar_law cal \<Longrightarrow> cal_valid cal y m d \<Longrightarrow> 1 \<le> d' \<Longrightarrow> d' \<le> d \<Longrightarrow> cal_valid cal y m d'"
  unfolding calendar_law_def by blast

definition schedule_ok :: "cron_schedule \<Rightarrow> bool" where
  "schedule_ok s \<longleftrightarrow> item_ok (cs_min s) \<and> si_min (cs_min s) = 0 \<and> si_max (cs_min s) = 59 \<and>
     item_ok (cs_hour s) \<and> si_min (cs_hour s) = 0 \<and> si_max (cs_hour s) = 23 \<and>
     item_ok (cs_dom s) \<and> si_min (cs_dom s) = 1 \<and> si_max (cs_dom s) = 31 \<and>
     item_ok (cs_mon s) \<and> si_min (cs_mon s) = 1 \<and> si_max (cs_mon s) = 12"

definition candidates :: "calendar \<Rightarrow> cron_schedule \<Rightarrow> minute_time \<Rightarrow> minute_time set" where
  "candidates cal s now = {t. now \<le> t \<and> real_time cal t \<and> cron_is_valid_for cal s t}"

lemma finds_body:
  "finds S x \<Longrightarrow> loop_flow (Inr x) = Inr Continue \<and> S = {} \<or> (\<exists>r. loop_flow (Inr x) = Inr (Return r) \<and> finds S (Some r))"
  by (cases x) (auto simp: loop_flow_def finds_def)

lemma minute_le:
  "(ny, nm, nd, nh, nmi) \<le> (y, m, d, h, mi) \<longleftrightarrow>
     (ny, nm, nd) < (y, m, d) \<or> (ny, nm, nd) = (y, m, d) \<and> (nh < h \<or> nh = h \<and> nmi \<le> (mi :: int))"
  for ny nm nd nh nmi y m d h :: int
  by (auto simp: less_eq_prod_simp less_prod_simp)

lemma slot_le:
  fixes D D0 :: "int \<times> int \<times> int" and h nh :: int
  assumes "D0 \<le> D" "D = D0 \<Longrightarrow> nh \<le> h"
  shows "D0 < D \<or> D0 = D \<and> (nh < h \<or> nh = h \<and> P) \<longleftrightarrow> (D = D0 \<and> h = nh \<longrightarrow> P)"
  using assms by (cases "D = D0") auto

lemma hour_body_finds:
  assumes "schedule_ok s" "cal_valid cal y m d" "item_is_valid_for (cs_mon s) m" "item_is_valid_for (cs_dom s) d"
    "item_is_valid_for (cs_dow s) (cal_day_of_week cal y m d)"
    and now: "now = (ny, nm, nd, nh, nmi)" "(ny, nm, nd) \<le> (y, m, d)" "0 \<le> nmi"
    and h: "h \<in> choices (cs_hour s) (if (y, m, d) = (ny, nm, nd) then nh else 0)" "0 \<le> nh"
  defines "S \<equiv> {t \<in> candidates cal s now. \<exists>mi. t = (y, m, d, h, mi)}"
  shows "(hour_body s now y m d h = Inr Continue \<and> S = {}) \<or> (\<exists>r. hour_body s now y m d h = Inr (Return r) \<and> finds S (Some r))"
proof -
  define start where "start = (if (y, m, d) = (ny, nm, nd) \<and> h = nh then nmi else 0)"
  have hr: "0 \<le> h" "h \<le> 23" "item_is_valid_for (cs_hour s) h" "(y, m, d) = (ny, nm, nd) \<Longrightarrow> nh \<le> h"
    using h assms(1) by (auto simp: choices_def schedule_ok_def split: if_splits)
  have mem: "(y, m, d, h, mi) \<in> S \<longleftrightarrow> mi \<in> choices (cs_min s) start" for mi
  proof -
    have "now \<le> (y, m, d, h, mi) \<longleftrightarrow> ((y, m, d) = (ny, nm, nd) \<and> h = nh \<longrightarrow> nmi \<le> mi)"
      unfolding now(1) minute_le by (rule slot_le [OF now(2) hr(4)])
    moreover have "(y, m, d, h, mi) \<in> S \<longleftrightarrow> now \<le> (y, m, d, h, mi) \<and> 0 \<le> mi \<and> mi \<le> 59 \<and> item_is_valid_for (cs_min s) mi"
      using assms(2-5) hr(1-3) by (simp add: S_def candidates_def real_time_def cron_is_valid_for_def)
    ultimately show ?thesis
      using assms(1) now(3) by (cases "(y, m, d) = (ny, nm, nd) \<and> h = nh") (auto simp: choices_def schedule_ok_def start_def)
  qed
  have "S = (\<lambda>mi. (y, m, d, h, mi)) ` {mi. (y, m, d, h, mi) \<in> S}"
    unfolding S_def by blast
  then have S: "S = (\<lambda>mi. (y, m, d, h, mi)) ` choices (cs_min s) start"
    unfolding mem Collect_mem_eq .
  have body: "hour_body s now y m d h = bind_res (item_find_next (cs_min s) start) (\<lambda>(mi, overflow).
      Inr (if overflow then Continue else Return (y, m, d, h, mi)))"
    using assms(1) now(1) by (simp add: hour_body_def schedule_ok_def start_def)
  have "item_ok (cs_min s)"
    using assms(1) by (simp add: schedule_ok_def)
  from item_find_next_cases [OF this, of start] show ?thesis
    unfolding body S by (elim disjE exE conjE) (simp_all add: finds_def less_eq_prod_simp)
qed

lemma day_body_finds:
  assumes "schedule_ok s" "calendar_law cal" "item_is_valid_for (cs_mon s) m" "item_is_valid_for (cs_dom s) d" "1 \<le> d"
    and now: "now = (ny, nm, nd, nh, nmi)" "(ny, nm, nd) \<le> (y, m, d)" "0 \<le> nmi" "0 \<le> nh"
  defines "S \<equiv> \<lambda>d. {t \<in> candidates cal s now. \<exists>h mi. t = (y, m, d, h, mi)}"
  shows "(day_body cal s now y m d = Inr Break \<and> (\<forall>w \<ge> d. S w = {})) \<or> (day_body cal s now y m d = Inr Continue \<and> S d = {}) \<or>
    (\<exists>r. day_body cal s now y m d = Inr (Return r) \<and> finds (S d) (Some r))"
proof -
  consider "\<not> cal_valid cal y m d" | "cal_valid cal y m d" "\<not> item_is_valid_for (cs_dow s) (cal_day_of_week cal y m d)"
    | "cal_valid cal y m d" "item_is_valid_for (cs_dow s) (cal_day_of_week cal y m d)" by blast
  then show ?thesis
  proof cases
    case 1
    then have "\<not> cal_valid cal y m w" if "w \<ge> d" for w
      using calendar_initial [OF assms(2) _ assms(5) that] by blast
    with 1 show ?thesis
      by (auto simp: day_body_def now(1) S_def candidates_def real_time_def)
  next
    case 2
    then show ?thesis
      by (auto simp: day_body_def now(1) S_def candidates_def cron_is_valid_for_def)
  next
    case 3
    let ?start = "if (y, m, d) = (ny, nm, nd) then nh else 0"
    let ?H = "\<lambda>h. {t \<in> candidates cal s now. \<exists>mi. t = (y, m, d, h, mi)}"
    have hour_ok: "item_ok (cs_hour s)"
      using assms(1) by (simp add: schedule_ok_def)
    have "\<exists>x. item_loop (cs_hour s) ?start (hour_body s now y m d) = Inr x \<and> finds (\<Union>h \<in> choices (cs_hour s) ?start. ?H h) x"
      by (rule item_loop_finds [OF hour_ok])
        (use hour_body_finds [OF assms(1) 3(1) assms(3,4) 3(2) now(1-3) _ now(4)] in blast, auto simp: less_eq_prod_simp)
    moreover have "(\<Union>h \<in> choices (cs_hour s) ?start. ?H h) = S d"
      using assms(1) now by (auto simp: S_def candidates_def real_time_def cron_is_valid_for_def choices_def schedule_ok_def
        less_eq_prod_simp split: if_splits)
    ultimately obtain x where "item_loop (cs_hour s) ?start (hour_body s now y m d) = Inr x" "finds (S d) x"
      by metis
    moreover have "day_body cal s now y m d = loop_flow (item_loop (cs_hour s) ?start (hour_body s now y m d))"
      using 3 assms(1) by (simp add: day_body_def now(1) schedule_ok_def)
    ultimately show ?thesis
      using finds_body [of "S d" x] by metis
  qed
qed

lemma month_body_finds:
  assumes "schedule_ok s" "calendar_law cal" "item_is_valid_for (cs_mon s) m"
    and now: "now = (ny, nm, nd, nh, nmi)" "(ny, nm) \<le> (y, m)" "0 \<le> nmi" "0 \<le> nh" "1 \<le> nd"
  defines "S \<equiv> {t \<in> candidates cal s now. \<exists>d h mi. t = (y, m, d, h, mi)}"
  shows "(month_body cal s now y m = Inr Continue \<and> S = {}) \<or> (\<exists>r. month_body cal s now y m = Inr (Return r) \<and> finds S (Some r))"
proof -
  let ?start = "if y = ny \<and> m = nm then nd else 1"
  let ?D = "\<lambda>d. {t \<in> candidates cal s now. \<exists>h mi. t = (y, m, d, h, mi)}"
  have dom_ok: "item_ok (cs_dom s)"
    using assms(1) by (simp add: schedule_ok_def)
  have slot: "(ny, nm, nd) \<le> (y, m, d) \<and> 1 \<le> d \<and> item_is_valid_for (cs_dom s) d" if "d \<in> choices (cs_dom s) ?start" for d
    using that now(2,5) by (auto simp: choices_def less_eq_prod_simp split: if_splits)
  have "\<exists>x. item_loop (cs_dom s) ?start (day_body cal s now y m) = Inr x \<and> finds (\<Union>d \<in> choices (cs_dom s) ?start. ?D d) x"
  proof (rule item_loop_finds [OF dom_ok])
    fix d
    assume "d \<in> choices (cs_dom s) ?start"
    from slot [OF this] show "(day_body cal s now y m d = Inr Break \<and> (\<forall>w \<ge> d. ?D w = {})) \<or>
      (day_body cal s now y m d = Inr Continue \<and> ?D d = {}) \<or> (\<exists>r. day_body cal s now y m d = Inr (Return r) \<and> finds (?D d) (Some r))"
      by (intro day_body_finds [OF assms(1,2,3) _ _ now(1) _ now(3,4)]) (elim conjE, assumption)+
  qed (auto simp: less_eq_prod_simp)
  moreover have "(\<Union>d \<in> choices (cs_dom s) ?start. ?D d) = S"
  proof -
    have "d \<in> choices (cs_dom s) ?start" if "(y, m, d, h, mi) \<in> candidates cal s now" for d h mi
    proof -
      have c: "now \<le> (y, m, d, h, mi)" "cal_valid cal y m d" "item_is_valid_for (cs_dom s) d"
        using that by (simp_all add: candidates_def real_time_def cron_is_valid_for_def)
      have "1 \<le> d" "d \<le> 31"
        using calendar_range [OF assms(2) c(2)] by simp_all
      moreover have "y = ny \<Longrightarrow> m = nm \<Longrightarrow> nd \<le> d"
        using c(1) by (auto simp: now(1) minute_le less_prod_simp)
      ultimately show ?thesis
        using c(3) assms(1) by (simp add: choices_def schedule_ok_def)
    qed
    then show ?thesis unfolding S_def by blast
  qed
  ultimately obtain x where "item_loop (cs_dom s) ?start (day_body cal s now y m) = Inr x" "finds S x"
    by metis
  moreover have "month_body cal s now y m = loop_flow (item_loop (cs_dom s) ?start (day_body cal s now y m))"
    using assms(1) by (simp add: month_body_def now(1) schedule_ok_def)
  ultimately show ?thesis
    using finds_body [of S x] by metis
qed

lemma year_finds:
  assumes "schedule_ok s" "calendar_law cal"
    and now: "now = (ny, nm, nd, nh, nmi)" "ny \<le> y" "0 \<le> nmi" "0 \<le> nh" "1 \<le> nd" "1 \<le> nm"
  shows "\<exists>x. item_loop (cs_mon s) (if y = ny then nm else 1) (month_body cal s now y) = Inr x \<and>
    finds {t \<in> candidates cal s now. fst t = y} x"
proof -
  let ?start = "if y = ny then nm else 1"
  let ?M = "\<lambda>m. {t \<in> candidates cal s now. \<exists>d h mi. t = (y, m, d, h, mi)}"
  have mon_ok: "item_ok (cs_mon s)"
    using assms(1) by (simp add: schedule_ok_def)
  have slot: "(ny, nm) \<le> (y, m) \<and> item_is_valid_for (cs_mon s) m" if "m \<in> choices (cs_mon s) ?start" for m
    using that now(2,6) by (auto simp: choices_def less_eq_prod_simp split: if_splits)
  have all: "\<exists>x. item_loop (cs_mon s) ?start (month_body cal s now y) = Inr x \<and> finds (\<Union>m \<in> choices (cs_mon s) ?start. ?M m) x"
  proof (rule item_loop_finds [OF mon_ok])
    fix m
    assume "m \<in> choices (cs_mon s) ?start"
    from slot [OF this] show "(month_body cal s now y m = Inr Break \<and> (\<forall>w \<ge> m. ?M w = {})) \<or>
      (month_body cal s now y m = Inr Continue \<and> ?M m = {}) \<or> (\<exists>r. month_body cal s now y m = Inr (Return r) \<and> finds (?M m) (Some r))"
      by (intro disjI2 month_body_finds [OF assms(1,2) _ now(1) _ now(3,4,5)]) (elim conjE, assumption)+
  qed (auto simp: less_eq_prod_simp)
  have years: "(\<Union>m \<in> choices (cs_mon s) ?start. ?M m) = {t \<in> candidates cal s now. fst t = y}"
  proof -
    have "m \<in> choices (cs_mon s) ?start" if "(y, m, d, h, mi) \<in> candidates cal s now" for m d h mi
    proof -
      have c: "now \<le> (y, m, d, h, mi)" "cal_valid cal y m d" "item_is_valid_for (cs_mon s) m"
        using that by (simp_all add: candidates_def real_time_def cron_is_valid_for_def)
      have "1 \<le> m" "m \<le> 12"
        using calendar_range [OF assms(2) c(2)] by simp_all
      moreover have "y = ny \<Longrightarrow> nm \<le> m"
        using c(1) by (auto simp: now(1) minute_le less_prod_simp)
      ultimately show ?thesis
        using c(3) assms(1) by (simp add: choices_def schedule_ok_def)
    qed
    then show ?thesis by fastforce
  qed
  show ?thesis
    using all unfolding years .
qed

lemma year_loop_finds:
  assumes "schedule_ok s" "calendar_law cal" "now = (ny, nm, nd, nh, nmi)" "0 \<le> nmi" "0 \<le> nh" "1 \<le> nd" "1 \<le> nm"
    and "sorted_wrt (<) ys" "\<forall>y \<in> set ys. ny \<le> y"
  shows "\<exists>x. year_loop cal s now ys = Inr x \<and> finds {t \<in> candidates cal s now. fst t \<in> set ys} x"
  using assms(8,9)
proof (induction ys)
  case (Cons y ys)
  obtain x where x: "item_loop (cs_mon s) (if y = ny then nm else 1) (month_body cal s now y) = Inr x"
    "finds {t \<in> candidates cal s now. fst t = y} x"
    using year_finds [OF assms(1,2,3) _ assms(4-7), of y] Cons.prems by auto
  have one: "si_min (cs_mon s) = 1"
    using assms(1) by (simp add: schedule_ok_def)
  have step: "year_loop cal s now (y # ys) = (case x of Some t \<Rightarrow> Inr (Some t) | None \<Rightarrow> year_loop cal s now ys)"
    using x(1) unfolding assms(3) year_loop.simps prod.case Let_def one by (simp split del: if_split)
  show ?case
  proof (cases x)
    case None
    with x(2) have "{t \<in> candidates cal s now. fst t = y} = {}"
      by (simp only: finds_def option.case)
    then have "{t \<in> candidates cal s now. fst t \<in> set (y # ys)} = {t \<in> candidates cal s now. fst t \<in> set ys}"
      by (simp only: set_simps) blast
    then show ?thesis
      using Cons step None by simp
  next
    case (Some r)
    have r: "r \<in> candidates cal s now" "fst r = y" "\<And>t. t \<in> candidates cal s now \<Longrightarrow> fst t = y \<Longrightarrow> r \<le> t"
      using x(2) unfolding Some finds_def option.case by blast+
    have "r \<le> t" if "t \<in> candidates cal s now" "fst t \<in> set (y # ys)" for t
    proof (cases "fst t = y")
      case False
      with that Cons.prems have "y < fst t" by auto
      with r(2) show ?thesis by (cases r, cases t) (simp add: less_eq_prod_simp)
    qed (rule r(3) [OF that(1)])
    then have "finds {t \<in> candidates cal s now. fst t \<in> set (y # ys)} (Some r)"
      unfolding finds_def option.case using r(1,2) by simp
    with step Some show ?thesis by simp
  qed
qed (simp add: finds_def)

section \<open>Parsed schedules\<close>

lemma parse_values_ok:
  "parse_values val lo hi ss = Inr vs \<Longrightarrow> length vs = length ss \<and> set vs \<subseteq> {lo..hi}"
proof (induction ss arbitrary: vs)
  case (Cons s ss)
  then show ?case
    by (cases "parse_values val lo hi ss") (auto simp: subset_eq split: option.splits if_splits)
qed simp

lemma item_parse_ok:
  assumes "item_parse split_any val lo hi = Inr it" "lo \<le> hi" "split_any val \<noteq> []"
  shows "item_ok it \<and> si_min it = lo \<and> si_max it = hi"
proof (cases "val = ''*''")
  case True
  with assms show ?thesis by (auto simp: item_parse_def item_ok_def)
next
  case False
  with assms(1) obtain vs where "parse_values val lo hi (split_any val) = Inr vs"
    "it = \<lparr>si_value = vs, si_min = lo, si_max = hi, si_star = False\<rparr>"
    by (cases "parse_values val lo hi (split_any val)") (auto simp: item_parse_def)
  with parse_values_ok [of val lo hi "split_any val" vs] assms(2,3) show ?thesis
    by (auto simp: item_ok_def)
qed

lemma bind_res_Inr: "bind_res r f = Inr x \<longleftrightarrow> (\<exists>y. r = Inr y \<and> f y = Inr x)"
  by (cases r) auto

lemma cron_parse_ok:
  assumes "cron_parse split_any str = Inr s" "\<forall>val. split_any val \<noteq> []"
  shows "schedule_ok s"
  using assms(1) item_parse_ok [of split_any] assms(2)
  by (auto simp: cron_parse_def Let_def bind_res_Inr schedule_ok_def split: if_splits)

text \<open>
  C31. The next run is the first match: for every expression that parses, \<^verbatim>\<open>find_next\<close> returns
  the earliest real time from the given minute on (or from the following one, when the given
  minute itself matches) that satisfies all five fields, and it fails only when this year and the
  four after it hold no such time. The search therefore always ends with an answer.
\<close>

theorem cron_next_is_first:
  assumes "cron_parse split_any str = Inr s" and "\<forall>val. split_any val \<noteq> []" and "calendar_law cal"
    and "now = (if cron_is_valid_for cal s t0 then cal_plus_minute cal t0 else t0)" and "real_time cal now"
  shows "case cron_find_next cal s t0 of
      Inr t \<Rightarrow> real_time cal t \<and> cron_is_valid_for cal s t \<and> now \<le> t \<and>
        (\<forall>t'. real_time cal t' \<and> cron_is_valid_for cal s t' \<and> now \<le> t' \<and> fst t' \<le> fst now + 4 \<longrightarrow> t \<le> t')
    | Inl e \<Rightarrow> \<not> (\<exists>t'. real_time cal t' \<and> cron_is_valid_for cal s t' \<and> now \<le> t' \<and> fst t' \<le> fst now + 4)"
proof -
  obtain ny nm nd nh nmi where n: "now = (ny, nm, nd, nh, nmi)"
    by (metis prod_cases5)
  have "cal_valid cal ny nm nd" "0 \<le> nh" "0 \<le> nmi"
    using assms(5) by (simp_all add: n real_time_def)
  with calendar_range [OF assms(3)] have r: "0 \<le> nmi" "0 \<le> nh" "1 \<le> nd" "1 \<le> nm"
    by blast+
  obtain x where x: "year_loop cal s now [ny..ny + 4] = Inr x" "finds {t \<in> candidates cal s now. fst t \<in> set [ny..ny + 4]} x"
    using year_loop_finds [OF cron_parse_ok [OF assms(1,2)] assms(3) n r, of "[ny..ny + 4]"] by auto
  have in_years: "t \<in> candidates cal s now \<and> fst t \<in> set [ny..ny + 4] \<longleftrightarrow>
    real_time cal t \<and> cron_is_valid_for cal s t \<and> now \<le> t \<and> fst t \<le> fst now + 4" for t
    by (cases t) (auto simp: candidates_def n less_eq_prod_simp)
  have res: "cron_find_next cal s t0 = (case x of Some t \<Rightarrow> Inr t
    | None \<Rightarrow> Inl (Std_Exception ''Failed to find next schedule match within 4 years''))"
    using x(1) by (simp add: cron_find_next_def assms(4) [symmetric] n split: option.splits)
  show ?thesis
    using x(2) in_years unfolding res by (cases x) (auto simp only: finds_def option.case sum.case mem_Collect_eq)
qed

text \<open>The Gregorian calendar, and a splitter that keeps empty pieces.\<close>

definition month_days :: "int \<Rightarrow> int \<Rightarrow> int" where
  "month_days y m =
     (if m = 2 then (if y mod 4 = 0 \<and> (y mod 100 \<noteq> 0 \<or> y mod 400 = 0) then 29 else 28)
      else if m \<in> {4, 6, 9, 11} then 30 else 31)"

definition gregorian :: calendar where
  "gregorian = \<lparr>cal_valid = (\<lambda>y m d. 1 \<le> m \<and> m \<le> 12 \<and> 1 \<le> d \<and> d \<le> month_days y m),
     cal_day_of_week = (\<lambda>y m d. let y' = (if m < 3 then y - 1 else y)
       in (y' + y' div 4 - y' div 100 + y' div 400 + [0, 3, 2, 5, 0, 3, 5, 1, 4, 6, 2, 4] ! nat (m - 1) + d) mod 7),
     cal_plus_minute = (\<lambda>(y, m, d, h, mi). if mi < 59 then (y, m, d, h, mi + 1) else if h < 23 then (y, m, d, h + 1, 0)
       else if d < month_days y m then (y, m, d + 1, 0, 0) else if m < 12 then (y, m + 1, 1, 0, 0) else (y + 1, 1, 1, 0, 0))\<rparr>"

definition split_commas :: "string \<Rightarrow> string list" where
  "split_commas s = split_lst (CHR '','') s @ (if s = [] \<or> last s = CHR '','' then [[]] else [])"

lemma gregorian_law: "calendar_law gregorian"
  by (simp add: calendar_law_def gregorian_def month_days_def)

lemma split_commas_nonempty: "\<forall>val. split_commas val \<noteq> []"
  by (simp add: split_commas_def split_lst.simps)

text \<open>Half past six every morning.\<close>

definition morning :: cron_schedule where
  "morning = \<lparr>cs_min = \<lparr>si_value = [30], si_min = 0, si_max = 59, si_star = False\<rparr>,
     cs_hour = \<lparr>si_value = [6], si_min = 0, si_max = 23, si_star = False\<rparr>,
     cs_dom = \<lparr>si_value = [], si_min = 1, si_max = 31, si_star = True\<rparr>,
     cs_mon = \<lparr>si_value = [], si_min = 1, si_max = 12, si_star = True\<rparr>,
     cs_dow = \<lparr>si_value = [], si_min = 0, si_max = 6, si_star = True\<rparr>\<rparr>"

lemma morning_parse: "cron_parse split_commas ''30 6 * * *'' = Inr morning"
  by code_simp

lemma morning_next: "cron_find_next gregorian morning (2026, 11, 15, 6, 30) = Inr (2026, 11, 16, 6, 30)"
  by code_simp

theorem cron_next_is_first_witness:
  "cron_is_valid_for gregorian morning (2026, 11, 16, 6, 30) \<and> (2026, 11, 15, 6, 31) \<le> ((2026, 11, 16, 6, 30) :: minute_time)"
proof -
  have now: "(2026, 11, 15, 6, 31) = (if cron_is_valid_for gregorian morning (2026, 11, 15, 6, 30)
    then cal_plus_minute gregorian (2026, 11, 15, 6, 30) else (2026, 11, 15, 6, 30))"
    by code_simp
  have "real_time gregorian (2026, 11, 15, 6, 31)"
    by code_simp
  from cron_next_is_first [OF morning_parse split_commas_nonempty gregorian_law now this] show ?thesis
    unfolding morning_next sum.case by (elim conjE) (rule conjI; assumption)
qed

section \<open>What the parser makes of ranges\<close>

lemma stoll_prefix:
  assumes "int a < 2 ^ 63" "rest = [] \<or> \<not> is_digit_char (hd rest)"
  shows "stoll (nat_str a @ rest) = Some (int a)"
proof -
  have dig: "\<forall>c \<in> set (nat_str a). is_digit_char c"
    by (rule nat_str_digits)
  have h: "is_digit_char (hd (nat_str a @ rest))"
    using dig nat_str_nonempty [of a] by (cases "nat_str a") auto
  then have "\<not> blank (hd (nat_str a @ rest))" "hd (nat_str a @ rest) \<noteq> CHR ''-''" "hd (nat_str a @ rest) \<noteq> CHR ''+''"
    by (auto simp: is_digit_char_def blank_def)
  moreover have "dropWhile blank (nat_str a @ rest) = nat_str a @ rest"
    using calculation(1) nat_str_nonempty [of a] by (cases "nat_str a") auto
  moreover have "takeWhile is_digit_char (nat_str a @ rest) = nat_str a"
    using dig assms(2) by (cases rest) (auto simp: takeWhile_append2)
  ultimately show ?thesis
    using assms(1) by (simp add: stoll_def Let_def)
qed

text \<open>
  C34. A range is not rejected but cut off: a field such as \<^verbatim>\<open>8-18\<close> is accepted and means
  its first number only.
\<close>

theorem cron_range_is_first_number:
  assumes "split_any (nat_str a @ ''-'' @ rest) = [nat_str a @ ''-'' @ rest]" and "int a < 2 ^ 63" and "lo \<le> int a" and "int a \<le> hi"
  shows "item_parse split_any (nat_str a @ ''-'' @ rest) lo hi = Inr \<lparr>si_value = [int a], si_min = lo, si_max = hi, si_star = False\<rparr>"
proof -
  have "stoll (nat_str a @ ''-'' @ rest) = Some (int a)"
    using assms(2) by (intro stoll_prefix) (simp_all add: is_digit_char_def)
  moreover have "nat_str a @ ''-'' @ rest \<noteq> ''*''"
    using nat_str_nonempty [of a] by (cases "nat_str a") auto
  ultimately show ?thesis
    using assms(1,3,4) by (simp add: item_parse_def)
qed

theorem cron_range_is_first_number_witness:
  "item_parse split_commas ''8-18'' 0 23 = Inr \<lparr>si_value = [8], si_min = 0, si_max = 23, si_star = False\<rparr>"
proof -
  have "split_commas ''8-18'' = [''8-18'']" and eight: "nat_str 8 = ''8''"
    by code_simp+
  with cron_range_is_first_number [of split_commas 8 "''18''" 0 23] show ?thesis
    by (simp add: eight)
qed

end
