(* ===== verification/Web_Tokens.thy ===== *)
theory Web_Tokens
  imports Str_Split "HOL-Library.Multiset"
begin

text \<open>
  Roles and sessions of the web server: \<^verbatim>\<open>grant_store\<close>, \<^verbatim>\<open>token_store\<close> and the storage format of
  the session table (\<^verbatim>\<open>modules/WEBServer/grant_store.cpp\<close>, \<^verbatim>\<open>token_store.hpp\<close>,
  \<^verbatim>\<open>token_store.cpp\<close>). Clock, random bytes and SHA-256 are arguments. The table of tokens is the
  list of its entries in the iteration order of the hash map; the order after an insertion is
  the library's, the parameter \<^verbatim>\<open>rehash\<close>.
\<close>

section \<open>Grants\<close>

record grant_store =
  gs_roles :: "string \<rightharpoonup> string list"
  gs_users :: "string \<rightharpoonup> string"

definition add_rule :: "string \<Rightarrow> grant_store \<Rightarrow> string \<Rightarrow> grant_store" where
  "add_rule role gs g =
     gs\<lparr>gs_roles := (gs_roles gs)(role \<mapsto> (case gs_roles gs role of None \<Rightarrow> [] | Some rules \<Rightarrow> rules) @ [g])\<rparr>"

definition gs_add_role :: "string \<Rightarrow> string \<Rightarrow> grant_store \<Rightarrow> grant_store" where
  "gs_add_role role grant gs = foldl (add_rule role) gs (split_lst (CHR '','') grant)"

definition gs_add_user :: "string \<Rightarrow> string \<Rightarrow> grant_store \<Rightarrow> grant_store" where
  "gs_add_user user role gs = gs\<lparr>gs_users := (gs_users gs)(user \<mapsto> role)\<rparr>"

definition gs_get_role :: "grant_store \<Rightarrow> string \<Rightarrow> string" where
  "gs_get_role gs user = (case gs_users gs user of None \<Rightarrow> [] | Some role \<Rightarrow> role)"

definition gs_remove_role :: "string \<Rightarrow> grant_store \<Rightarrow> grant_store" where
  "gs_remove_role role gs = gs\<lparr>gs_roles := (gs_roles gs)(role := None)\<rparr>"

definition gs_remove_user :: "string \<Rightarrow> grant_store \<Rightarrow> grant_store" where
  "gs_remove_user uid gs = gs\<lparr>gs_users := (gs_users gs)(uid := None)\<rparr>"

definition gs_clear :: "grant_store \<Rightarrow> grant_store" where
  "gs_clear gs = gs\<lparr>gs_roles := Map.empty, gs_users := Map.empty\<rparr>"

definition fetch_role :: "grant_store \<Rightarrow> string \<Rightarrow> string list" where
  "fetch_role gs uid =
     (let role = gs_get_role gs uid
      in if role = [] then [] else case gs_roles gs role of None \<Rightarrow> [] | Some rules \<Rightarrow> rules)"

fun validate_grants :: "string list \<Rightarrow> string list \<Rightarrow> bool" where
  "validate_grants grant [] = (grant = [])"
| "validate_grants [] (n # need) = False"
| "validate_grants (g # grant) (n # need) = (if g = ''*'' then True else if n \<noteq> g then False else validate_grants grant need)"

definition gs_validate :: "grant_store \<Rightarrow> string \<Rightarrow> string \<Rightarrow> bool" where
  "gs_validate gs uid check =
     (let need = split_lst (CHR ''.'') check
      in list_ex (\<lambda>rule. validate_grants (split_lst (CHR ''.'') rule) need) (fetch_role gs uid))"

section \<open>Tokens\<close>

definition TOKEN_EXPIRATION_HOURS :: int where "TOKEN_EXPIRATION_HOURS = 8"
definition HOURS_TO_SECONDS :: "int \<Rightarrow> int" where "HOURS_TO_SECONDS h = h * 60 * 60"
definition kMaxTokens :: nat where "kMaxTokens = 4096"

definition has_token_expired :: "int \<Rightarrow> int \<Rightarrow> bool" where
  "has_token_expired created_time now \<longleftrightarrow>
     created_time > now \<or> now > created_time + HOURS_TO_SECONDS TOKEN_EXPIRATION_HOURS"

record token_entry =
  te_user :: string
  te_created :: int
  te_fingerprint :: string

type_synonym token_map = "(string \<times> token_entry) list"

text \<open>The build and the library: whether there is a digest, the digest (empty when it fails), the map.\<close>

record token_env =
  te_has_hashing :: bool
  te_hash_token :: "string \<Rightarrow> string"
  te_rehash :: "token_map \<Rightarrow> token_map"

definition alphanum :: string where
  "alphanum = ''0123456789ABCDEFGHIJKLMNOPQRSTUVWXYZabcdefghijklmnopqrstuvwxyz''"

definition reject_limit :: nat where "reject_limit = 256 - 256 mod length alphanum"

text \<open>
  \<^verbatim>\<open>generate_token\<close>: the list holds what the calls of the random generator return, its code and
  the bytes; \<open>None\<close> is a loop that still waits for usable bytes at the end of the list.
\<close>

fun token_loop :: "nat \<Rightarrow> string \<Rightarrow> (int \<times> nat list) list \<Rightarrow> string \<Rightarrow> string option" where
  "token_loop len fallback calls r =
     (if length r < len
      then case calls of
             [] \<Rightarrow> None
           | (rc, buf) # calls' \<Rightarrow>
               if rc < 0 then Some fallback
               else if rc \<noteq> 1 then Some []
               else token_loop len fallback calls'
                 (take len (r @ map (\<lambda>b. alphanum ! (b mod length alphanum)) (filter (\<lambda>b. b < reject_limit) buf)))
      else Some r)"

declare token_loop.simps [simp del]

definition generate_token :: "int \<Rightarrow> string \<Rightarrow> (int \<times> nat list) list \<Rightarrow> string option" where
  "generate_token len fallback calls = (if len \<le> 0 then Some [] else token_loop (nat len) fallback calls [])"

definition key_for :: "token_env \<Rightarrow> string \<Rightarrow> string" where
  "key_for E token = (if te_has_hashing E then te_hash_token E token else token)"

text \<open>The search for the oldest entry: the first of the smallest, in iteration order.\<close>

fun older :: "string \<times> token_entry \<Rightarrow> token_map \<Rightarrow> string \<times> token_entry" where
  "older x [] = x"
| "older x (t # ts) = older (if te_created (snd t) < te_created (snd x) then t else x) ts"

definition erase_key :: "string \<Rightarrow> token_map \<Rightarrow> token_map" where
  "erase_key k ts = filter (\<lambda>t. fst t \<noteq> k) ts"

lemma older_member: "older x ts \<in> set (x # ts)"
  by (induction x ts rule: older.induct) auto

lemma erase_shorter: "t \<in> set ts \<Longrightarrow> length (erase_key (fst t) ts) < length ts"
  by (auto simp: erase_key_def intro: length_filter_less)

function evict_oldest :: "token_map \<Rightarrow> token_map" where
  "evict_oldest ts =
     (if length ts \<ge> kMaxTokens \<and> ts \<noteq> [] then evict_oldest (erase_key (fst (older (hd ts) ts)) ts) else ts)"
  by pat_completeness auto
termination
proof (relation "measure length")
  fix ts :: token_map
  assume "length ts \<ge> kMaxTokens \<and> ts \<noteq> []"
  then have "older (hd ts) ts \<in> set ts"
    using older_member [of "hd ts" ts] by auto
  then show "(erase_key (fst (older (hd ts) ts)) ts, ts) \<in> measure length"
    by (simp add: erase_shorter)
qed simp

declare evict_oldest.simps [simp del]

definition sweep_expired_locked :: "int \<Rightarrow> token_map \<Rightarrow> token_map" where
  "sweep_expired_locked now ts =
     (let live = filter (\<lambda>t. \<not> has_token_expired (te_created (snd t)) now) ts
      in if length live < kMaxTokens then live else evict_oldest live)"

definition put_token :: "token_env \<Rightarrow> string \<Rightarrow> token_entry \<Rightarrow> token_map \<Rightarrow> token_map" where
  "put_token E key e ts =
     (if key \<in> fst ` set ts then map (\<lambda>t. if fst t = key then (key, e) else t) ts else te_rehash E ((key, e) # ts))"

definition tk_is_valid :: "token_env \<Rightarrow> string \<Rightarrow> int \<Rightarrow> token_map \<Rightarrow> bool \<times> token_map" where
  "tk_is_valid E token now ts =
     (let key = key_for E token
      in case map_of ts key of
           None \<Rightarrow> (False, ts)
         | Some e \<Rightarrow> if has_token_expired (te_created e) now then (False, erase_key key ts) else (True, ts))"

definition tk_validate :: "token_env \<Rightarrow> string \<Rightarrow> int \<Rightarrow> token_map \<Rightarrow> string option \<times> token_map" where
  "tk_validate E token now ts =
     (let key = key_for E token
      in case map_of ts key of
           None \<Rightarrow> (None, ts)
         | Some e \<Rightarrow> if has_token_expired (te_created e) now then (None, erase_key key ts) else (Some (te_user e), ts))"

definition tk_get_user :: "token_env \<Rightarrow> string \<Rightarrow> int \<Rightarrow> token_map \<Rightarrow> string" where
  "tk_get_user E token now ts =
     (case map_of ts (key_for E token) of
        None \<Rightarrow> []
      | Some e \<Rightarrow> if has_token_expired (te_created e) now then [] else te_user e)"

text \<open>\<open>token\<close> is what \<^verbatim>\<open>generate_token(32)\<close> returned.\<close>

definition tk_generate_for :: "token_env \<Rightarrow> string \<Rightarrow> string \<Rightarrow> string \<Rightarrow> int \<Rightarrow> token_map \<Rightarrow> string \<times> token_map" where
  "tk_generate_for E token user fingerprint now ts =
     (if token = [] then (token, ts)
      else let key = key_for E token
           in if key = [] then ([], ts)
              else (token, put_token E key \<lparr>te_user = user, te_created = now, te_fingerprint = fingerprint\<rparr>
                     (sweep_expired_locked now ts)))"

record persisted_session =
  ps_hash :: string
  ps_user :: string
  ps_created :: int
  ps_fingerprint :: string

definition tk_snapshot :: "token_env \<Rightarrow> int \<Rightarrow> token_map \<Rightarrow> persisted_session list" where
  "tk_snapshot E now ts =
     (if \<not> te_has_hashing E then []
      else map (\<lambda>(k, e). \<lparr>ps_hash = k, ps_user = te_user e, ps_created = te_created e, ps_fingerprint = te_fingerprint e\<rparr>)
        (filter (\<lambda>(k, e). \<not> has_token_expired (te_created e) now \<and> te_fingerprint e \<noteq> []) ts))"

definition tk_restore :: "token_env \<Rightarrow> persisted_session \<Rightarrow> int \<Rightarrow> token_map \<Rightarrow> bool \<times> token_map" where
  "tk_restore E session now ts =
     (if ps_hash session = [] \<or> ps_user session = [] then (False, ts)
      else if has_token_expired (ps_created session) now then (False, ts)
      else if ps_hash session \<in> fst ` set ts then (False, ts)
      else let ts' = (if length ts \<ge> kMaxTokens then sweep_expired_locked now ts else ts)
           in if length ts' \<ge> kMaxTokens then (False, ts')
              else (True, put_token E (ps_hash session)
                \<lparr>te_user = ps_user session, te_created = ps_created session, te_fingerprint = ps_fingerprint session\<rparr> ts'))"

definition tk_revoke :: "token_env \<Rightarrow> string \<Rightarrow> token_map \<Rightarrow> token_map" where
  "tk_revoke E token ts = erase_key (key_for E token) ts"

definition tk_revoke_tokens_for_user :: "string \<Rightarrow> token_map \<Rightarrow> token_map" where
  "tk_revoke_tokens_for_user user ts = filter (\<lambda>t. te_user (snd t) \<noteq> user) ts"

section \<open>Storage format\<close>

definition kSeparator :: char where "kSeparator = CHR 0x09"
definition kNewline :: char where "kNewline = CHR 0x0A"
definition kVersion :: string where "kVersion = ''1''"

definition is_hash :: "string \<Rightarrow> bool" where
  "is_hash key \<longleftrightarrow> length key = 64 \<and> list_all (\<lambda>c. c \<in> set ''0123456789abcdef'') key"

definition has_delimiter :: "string \<Rightarrow> bool" where
  "has_delimiter s \<longleftrightarrow> kSeparator \<in> set s \<or> kNewline \<in> set s"

text \<open>\<^verbatim>\<open>strtoll\<close> of a text of digits saturates.\<close>

definition parse_record :: "string \<Rightarrow> persisted_session option" where
  "parse_record line =
     (if kSeparator \<notin> set line then None
      else let hash = upto_sep kSeparator line; r1 = after_sep kSeparator line
      in if kSeparator \<notin> set r1 then None
      else let user = upto_sep kSeparator r1; r2 = after_sep kSeparator r1
      in if kSeparator \<notin> set r2 then None
      else let created = upto_sep kSeparator r2; fingerprint = after_sep kSeparator r2;
               epoch = min (int (digits_val created)) (2 ^ 63 - 1)
      in if kSeparator \<in> set fingerprint then None
         else if \<not> is_hash hash then None
         else if user = [] then None
         else if created = [] \<or> \<not> list_all is_digit_char created then None
         else if epoch \<le> 0 then None
         else Some \<lparr>ps_hash = hash, ps_user = user, ps_created = epoch, ps_fingerprint = fingerprint\<rparr>)"

definition serializable :: "persisted_session \<Rightarrow> bool" where
  "serializable s \<longleftrightarrow> is_hash (ps_hash s) \<and> ps_user s \<noteq> [] \<and> \<not> has_delimiter (ps_user s) \<and> \<not> has_delimiter (ps_fingerprint s)"

definition record_line :: "persisted_session \<Rightarrow> string" where
  "record_line s = ps_hash s @ [kSeparator] @ ps_user s @ [kSeparator] @ xtos_int (ps_created s) @ [kSeparator] @ ps_fingerprint s"

definition append_session :: "bool \<times> string \<Rightarrow> persisted_session \<Rightarrow> bool \<times> string" where
  "append_session acc s =
     (if \<not> serializable s then acc
      else (True, (if fst acc then snd acc else snd acc @ kVersion) @ [kNewline] @ record_line s))"

definition serialize_sessions :: "persisted_session list \<Rightarrow> string" where
  "serialize_sessions sessions = snd (foldl append_session (False, []) sessions)"

definition drop_cr :: "string \<Rightarrow> string" where
  "drop_cr line = (if line \<noteq> [] \<and> last line = CHR 0x0D then butlast line else line)"

definition parse_line :: "string \<Rightarrow> persisted_session list" where
  "parse_line line = (let l = drop_cr line in if l = [] then [] else case parse_record l of None \<Rightarrow> [] | Some s \<Rightarrow> [s])"

text \<open>The loop over the lines behind the first: \<open>rest\<close> is what follows the newline at \<^verbatim>\<open>pos\<close>.\<close>

function parse_lines :: "string \<Rightarrow> persisted_session list" where
  "parse_lines rest =
     (if kNewline \<in> set rest then parse_line (upto_sep kNewline rest) @ parse_lines (after_sep kNewline rest)
      else parse_line rest)"
  by pat_completeness auto
termination
  by (relation "measure length") (auto simp: after_sep_def intro!: diff_less dest: length_pos_if_in_set)

declare parse_lines.simps [simp del]

definition parse_sessions :: "string \<Rightarrow> persisted_session list" where
  "parse_sessions val =
     (if val = [] then []
      else if drop_cr (upto_sep kNewline val) \<noteq> kVersion then []
      else if kNewline \<in> set val then parse_lines (after_sep kNewline val) else [])"

section \<open>The table of tokens\<close>

text \<open>A hash map reorders its entries and changes nothing else.\<close>

definition rehash_ok :: "token_env \<Rightarrow> bool" where
  "rehash_ok E \<longleftrightarrow> (\<forall>ts. mset (te_rehash E ts) = mset ts)"

definition tokens_ok :: "token_map \<Rightarrow> bool" where
  "tokens_ok ts \<longleftrightarrow> distinct (map fst ts) \<and> length ts \<le> kMaxTokens \<and> [] \<notin> fst ` set ts"

lemma rehash_facts:
  assumes "rehash_ok E"
  shows "length (te_rehash E ts) = length ts" "set (te_rehash E ts) = set ts"
    "distinct (map fst (te_rehash E ts)) = distinct (map fst ts)"
proof -
  have m: "mset (te_rehash E ts) = mset ts"
    using assms by (simp add: rehash_ok_def)
  then show "length (te_rehash E ts) = length ts" "set (te_rehash E ts) = set ts"
    by (rule mset_eq_length, rule mset_eq_setD)
  have "mset (map fst (te_rehash E ts)) = mset (map fst ts)"
    using m by simp
  then show "distinct (map fst (te_rehash E ts)) = distinct (map fst ts)"
    by (rule mset_eq_imp_distinct_iff)
qed

lemma filter_tokens_ok: "tokens_ok ts \<Longrightarrow> tokens_ok (filter P ts)"
  using length_filter_le [of P ts] by (auto simp: tokens_ok_def image_iff distinct_map_filter simp del: length_filter_le)

lemma erase_tokens_ok: "tokens_ok ts \<Longrightarrow> tokens_ok (erase_key k ts)"
  by (simp add: erase_key_def filter_tokens_ok)

lemma evict_oldest_filter: "\<exists>P. evict_oldest ts = filter P ts \<and> length (evict_oldest ts) < kMaxTokens"
proof (induction ts rule: evict_oldest.induct)
  case (1 ts)
  show ?case
  proof (cases "length ts \<ge> kMaxTokens \<and> ts \<noteq> []")
    case True
    then have step: "evict_oldest ts = evict_oldest (erase_key (fst (older (hd ts) ts)) ts)"
      by (simp add: evict_oldest.simps [of ts])
    obtain P where "evict_oldest ts = filter P (erase_key (fst (older (hd ts) ts)) ts)" "length (evict_oldest ts) < kMaxTokens"
      using 1 [OF True] unfolding step by blast
    then have "evict_oldest ts = filter (\<lambda>t. fst t \<noteq> fst (older (hd ts) ts) \<and> P t) ts \<and> length (evict_oldest ts) < kMaxTokens"
      by (simp add: erase_key_def)
    then show ?thesis
      by (rule exI [of _ "\<lambda>t. fst t \<noteq> fst (older (hd ts) ts) \<and> P t"])
  next
    case False
    then have "evict_oldest ts = filter (\<lambda>_. True) ts \<and> length ts < kMaxTokens"
      by (subst evict_oldest.simps) (auto simp: kMaxTokens_def)
    then show ?thesis
      by (intro exI [of _ "\<lambda>_. True"]) simp
  qed
qed

lemma sweep_filter: "\<exists>P. sweep_expired_locked now ts = filter P ts \<and> length (sweep_expired_locked now ts) < kMaxTokens"
proof -
  let ?live = "filter (\<lambda>t. \<not> has_token_expired (te_created (snd t)) now) ts"
  obtain P where P: "evict_oldest ?live = filter P ?live" "length (evict_oldest ?live) < kMaxTokens"
    using evict_oldest_filter [of ?live] by blast
  show ?thesis
  proof (cases "length ?live < kMaxTokens")
    case True
    then show ?thesis
      by (intro exI [of _ "\<lambda>t. \<not> has_token_expired (te_created (snd t)) now"]) (simp add: sweep_expired_locked_def)
  next
    case False
    with P show ?thesis
      by (intro exI [of _ "\<lambda>t. \<not> has_token_expired (te_created (snd t)) now \<and> P t"]) (simp add: sweep_expired_locked_def)
  qed
qed

lemma put_token_ok:
  assumes "rehash_ok E" "tokens_ok ts" "length ts < kMaxTokens" "key \<noteq> []"
  shows "tokens_ok (put_token E key e ts)"
proof (cases "key \<in> fst ` set ts")
  case True
  have "map fst (map (\<lambda>t. if fst t = key then (key, e) else t) ts) = map fst ts"
    by simp
  with True assms(2) show ?thesis
    unfolding tokens_ok_def put_token_def by (simp only: if_True length_map) (auto simp: image_iff)
next
  case False
  with assms show ?thesis
    by (auto simp: put_token_def tokens_ok_def rehash_facts)
qed

lemma map_of_put_token:
  assumes "rehash_ok E" "distinct (map fst ts)"
  shows "map_of (put_token E key e ts) = (map_of ts)(key \<mapsto> e)"
proof (cases "key \<in> fst ` set ts")
  case True
  have "map_of (map (\<lambda>t. if fst t = key then (key, e) else t) us) k = map_of us k" if "k \<noteq> key" for us k
    using that by (induction us) auto
  moreover have "key \<in> fst ` set us \<Longrightarrow> map_of (map (\<lambda>t. if fst t = key then (key, e) else t) us) key = Some e" for us
    by (induction us) (simp, case_tac a, fastforce)
  ultimately show ?thesis
    using True by (simp add: put_token_def fun_eq_iff)
next
  case False
  have "distinct (map fst ((key, e) # ts))"
    using False assms(2) by auto
  then have "map_of (te_rehash E ((key, e) # ts)) = map_of ((key, e) # ts)"
    using rehash_facts [OF assms(1), of "(key, e) # ts"] by (intro map_of_inject_set [THEN iffD2]) auto
  with False show ?thesis
    by (simp add: put_token_def)
qed

text \<open>Everything that happens to the table of a running server.\<close>

inductive tokens_reach :: "token_env \<Rightarrow> token_map \<Rightarrow> bool" for E where
  empty: "tokens_reach E []"
| issued: "tokens_reach E ts \<Longrightarrow> tokens_reach E (snd (tk_generate_for E token user fingerprint now ts))"
| checked: "tokens_reach E ts \<Longrightarrow> tokens_reach E (snd (tk_validate E token now ts))"
| probed: "tokens_reach E ts \<Longrightarrow> tokens_reach E (snd (tk_is_valid E token now ts))"
| restored: "tokens_reach E ts \<Longrightarrow> tokens_reach E (snd (tk_restore E session now ts))"
| revoked: "tokens_reach E ts \<Longrightarrow> tokens_reach E (tk_revoke E token ts)"
| user_revoked: "tokens_reach E ts \<Longrightarrow> tokens_reach E (tk_revoke_tokens_for_user user ts)"

lemma sweep_ok: "tokens_ok ts \<Longrightarrow> tokens_ok (sweep_expired_locked now ts) \<and> length (sweep_expired_locked now ts) < kMaxTokens"
  using sweep_filter [of now ts] filter_tokens_ok [of ts] by metis

lemma tokens_reach_ok:
  assumes "rehash_ok E" "tokens_reach E ts"
  shows "tokens_ok ts"
  using assms(2)
proof induction
  case (issued ts token user fingerprint now)
  then show ?case
    using sweep_ok [of ts now] by (auto simp: tk_generate_for_def Let_def put_token_ok [OF assms(1)])
next
  case (restored ts session now)
  then show ?case
    using sweep_ok [of ts now] by (auto simp: tk_restore_def Let_def put_token_ok [OF assms(1)])
qed (auto simp: tk_validate_def tk_is_valid_def tk_revoke_def tk_revoke_tokens_for_user_def Let_def erase_tokens_ok
  filter_tokens_ok tokens_ok_def [of "[]"] split: option.splits)

text \<open>
  C32. However many logins, restores, lookups and revocations a server has seen, its table holds
  at most 4096 sessions, one per key, and none under the empty key that a failing digest gives.
\<close>

theorem token_table_bounded:
  assumes "rehash_ok E" and "tokens_reach E ts"
  shows "length ts \<le> kMaxTokens \<and> distinct (map fst ts) \<and> map_of ts [] = None"
  using tokens_reach_ok [OF assms] by (auto simp: tokens_ok_def map_of_eq_None_iff)

definition sample_tokens :: token_env where
  "sample_tokens = \<lparr>te_has_hashing = True, te_hash_token = (\<lambda>s. ''h'' @ s), te_rehash = rev\<rparr>"

theorem token_table_bounded_witness:
  "length (snd (tk_generate_for sample_tokens ''t'' ''admin'' ''f'' 1000 [])) \<le> kMaxTokens"
  using token_table_bounded [OF _ issued [OF empty], of sample_tokens "''t''" "''admin''" "''f''" 1000]
  by (simp add: rehash_ok_def sample_tokens_def)

section \<open>Reading the stored table back\<close>

text \<open>A record that can be written and read: a positive time and no carriage return at its end.\<close>

definition storable :: "persisted_session \<Rightarrow> bool" where
  "storable s \<longleftrightarrow> 0 < ps_created s \<and> ps_created s < 2 ^ 63 \<and> (ps_fingerprint s \<noteq> [] \<longrightarrow> last (ps_fingerprint s) \<noteq> CHR 0x0D)"

lemma hash_no_delimiter: "is_hash h \<Longrightarrow> kSeparator \<notin> set h \<and> kNewline \<notin> set h"
proof -
  have "kSeparator \<notin> set ''0123456789abcdef''" "kNewline \<notin> set ''0123456789abcdef''"
    by (simp_all add: kSeparator_def kNewline_def)
  moreover assume "is_hash h"
  then have "\<forall>c \<in> set h. c \<in> set ''0123456789abcdef''"
    unfolding is_hash_def list_all_iff by blast
  ultimately show ?thesis by blast
qed

lemma epoch_text:
  assumes "0 < c"
  shows "xtos_int c = nat_str (nat c)" "list_all is_digit_char (xtos_int c)" "kSeparator \<notin> set (xtos_int c)" "kNewline \<notin> set (xtos_int c)"
  using assms nat_str_digits [of "nat c"]
  by (auto simp: xtos_int_def list_all_iff is_digit_char_def kSeparator_def kNewline_def)

lemma parse_record_line:
  assumes "serializable s" "storable s"
  shows "parse_record (record_line s) = Some s"
proof -
  have c: "0 < ps_created s" "ps_created s < 2 ^ 63"
    using assms(2) by (simp_all add: storable_def)
  note t = epoch_text [OF c(1)]
  have "kSeparator \<notin> set (ps_hash s)" "kSeparator \<notin> set (ps_user s)" "kSeparator \<notin> set (ps_fingerprint s)"
    using assms(1) hash_no_delimiter [of "ps_hash s"] by (auto simp: serializable_def has_delimiter_def)
  moreover have "min (int (digits_val (xtos_int (ps_created s)))) (2 ^ 63 - 1) = ps_created s"
    using c by (simp add: t(1))
  ultimately show ?thesis
    using assms(1) c(1) t by (simp add: parse_record_def record_line_def Let_def serializable_def)
qed

lemma record_line_plain:
  assumes "serializable s" "storable s"
  shows "kNewline \<notin> set (record_line s)" "drop_cr (record_line s) = record_line s" "record_line s \<noteq> []"
proof -
  have "kNewline \<notin> set (xtos_int (ps_created s))" "kNewline \<noteq> kSeparator"
    using assms(2) by (simp_all add: storable_def epoch_text(4)) (simp add: kSeparator_def kNewline_def)
  with assms hash_no_delimiter [of "ps_hash s"] show "kNewline \<notin> set (record_line s)"
    by (simp add: record_line_def serializable_def has_delimiter_def)
  show "record_line s \<noteq> []" by (simp add: record_line_def)
  show "drop_cr (record_line s) = record_line s"
    using assms(2) by (cases "ps_fingerprint s = []") (auto simp: drop_cr_def record_line_def storable_def kSeparator_def)
qed

lemma parse_line_record: "serializable s \<Longrightarrow> storable s \<Longrightarrow> parse_line (record_line s) = [s]"
  by (simp add: parse_line_def record_line_plain parse_record_line)

lemma parse_lines_records:
  assumes "\<forall>s \<in> set (s0 # ss). serializable s \<and> storable s"
  shows "parse_lines (record_line s0 @ concat (map (\<lambda>s. kNewline # record_line s) ss)) = s0 # ss"
  using assms
proof (induction ss arbitrary: s0)
  case Nil
  then show ?case by (subst parse_lines.simps) (simp add: record_line_plain parse_line_record)
next
  case (Cons s ss)
  then show ?case by (subst parse_lines.simps) (simp add: record_line_plain parse_line_record)
qed

lemma foldl_append_session:
  "foldl append_session (True, acc) ss = (True, acc @ concat (map (\<lambda>s. kNewline # record_line s) (filter serializable ss)))"
  by (induction ss arbitrary: acc) (simp_all add: append_session_def)

lemma serialize_sessions_lines:
  "serialize_sessions ss = (case filter serializable ss of [] \<Rightarrow> []
     | s # ss' \<Rightarrow> kVersion @ kNewline # record_line s @ concat (map (\<lambda>s. kNewline # record_line s) ss'))"
proof (induction ss)
  case (Cons s ss)
  show ?case
  proof (cases "serializable s")
    case True
    then show ?thesis by (simp add: serialize_sessions_def append_session_def foldl_append_session)
  next
    case False
    with Cons show ?thesis by (simp add: serialize_sessions_def append_session_def)
  qed
qed (simp add: serialize_sessions_def)

lemma parse_serialize:
  assumes "\<forall>s \<in> set ss. storable s"
  shows "parse_sessions (serialize_sessions ss) = filter serializable ss"
proof (cases "filter serializable ss")
  case (Cons s ss')
  have "set (s # ss') \<subseteq> {s \<in> set ss. serializable s}"
    unfolding Cons [symmetric] by auto
  then have all: "\<forall>s \<in> set (s # ss'). serializable s \<and> storable s"
    using assms by blast
  have v: "kNewline \<notin> set kVersion" "drop_cr kVersion = kVersion"
    by (simp_all add: kNewline_def kVersion_def drop_cr_def)
  show ?thesis
    using parse_lines_records [OF all] v by (simp add: parse_sessions_def serialize_sessions_lines Cons)
qed (simp add: serialize_sessions_lines parse_sessions_def)

text \<open>
  The session table survives a restart: reading back the row that was written gives exactly
  the sessions that have a printable form, in order, whatever users and fingerprints they hold,
  provided their times are positive and no fingerprint ends in a carriage return.
\<close>

theorem sessions_roundtrip:
  assumes "\<forall>s \<in> set ss. storable s"
  shows "parse_sessions (serialize_sessions ss) = filter serializable ss"
  using assms by (rule parse_serialize)

definition sample_session :: persisted_session where
  "sample_session = \<lparr>ps_hash = replicate 64 CHR ''a'', ps_user = ''admin'', ps_created = 1000, ps_fingerprint = ''f''\<rparr>"

theorem sessions_roundtrip_witness: "parse_sessions (serialize_sessions [sample_session]) = [sample_session]"
  using sessions_roundtrip [of "[sample_session]"]
  by (simp add: storable_def sample_session_def serializable_def is_hash_def list_all_iff has_delimiter_def kSeparator_def
    kNewline_def)

section \<open>Random tokens\<close>

lemma alphanum_nth: "alphanum ! (b mod length alphanum) \<in> set alphanum"
  by (rule nth_mem) (simp add: alphanum_def)

lemma token_loop_shape:
  assumes "token_loop len fallback calls r = Some t" "length r \<le> len" "set r \<subseteq> set alphanum"
    and "length fallback = len" "set fallback \<subseteq> set alphanum"
  shows "t = [] \<or> length t = len \<and> set t \<subseteq> set alphanum"
  using assms
proof (induction len fallback calls r rule: token_loop.induct)
  case (1 len fallback calls r)
  show ?case
  proof (cases "length r < len")
    case True
    then obtain rc buf calls' where calls: "calls = (rc, buf) # calls'"
      using "1.prems"(1) by (cases calls) (auto simp: token_loop.simps [of len])
    let ?r = "take len (r @ map (\<lambda>b. alphanum ! (b mod length alphanum)) (filter (\<lambda>b. b < reject_limit) buf))"
    have "set ?r \<subseteq> set alphanum"
      using "1.prems"(3) alphanum_nth by (fastforce dest: in_set_takeD)
    then show ?thesis
      using "1.IH" [OF True calls refl] "1.prems" True calls by (auto simp: token_loop.simps [of len] split: if_splits)
  qed (use "1.prems" in \<open>auto simp: token_loop.simps [of len]\<close>)
qed

lemma generate_token_shape:
  assumes "generate_token len fallback calls = Some t" "0 < len" "length fallback = nat len" "set fallback \<subseteq> set alphanum"
  shows "t = [] \<or> length t = nat len \<and> set t \<subseteq> set alphanum"
  using assms by (intro token_loop_shape [of _ fallback calls "[]"]) (auto simp: generate_token_def)

end
