(* ===== verification/Base64.thy ===== *)
theory Base64
  imports Bytes_Crc
begin

text \<open>
  The base64 codec (\<^verbatim>\<open>include/bytes/base64.c\<close>, its wrappers in \<^verbatim>\<open>include/bytes/base64.hpp\<close> and
  \<^verbatim>\<open>decode_b64\<close> of \<^verbatim>\<open>libs/mongoose-cpp/Helpers.cpp\<close>), through which the web server reads the
  credentials of a request. A byte is a \<^verbatim>\<open>char\<close>; the sizes fit \<^verbatim>\<open>size_t\<close>. A call of the decoder
  with no destination is the size query \<^term>\<open>None\<close>; its result is the returned length and what was
  written.
\<close>

section \<open>Codec\<close>

definition b64_alphabet :: string where
  "b64_alphabet = ''ABCDEFGHIJKLMNOPQRSTUVWXYZabcdefghijklmnopqrstuvwxyz0123456789+/''"

definition b64_sextet :: "char \<Rightarrow> int" where
  "b64_sextet ch =
     (let c = of_char ch :: int
      in if of_char CHR ''A'' \<le> c \<and> c \<le> of_char CHR ''Z'' then c - of_char CHR ''A''
         else if of_char CHR ''a'' \<le> c \<and> c \<le> of_char CHR ''z'' then c - of_char CHR ''a'' + 26
         else if of_char CHR ''0'' \<le> c \<and> c \<le> of_char CHR ''9'' then c - of_char CHR ''0'' + 52
         else if ch = CHR ''+'' then 62
         else if ch = CHR ''/'' then 63
         else - 1)"

definition b64_char :: "nat \<Rightarrow> nat \<Rightarrow> char" where
  "b64_char v shift = b64_alphabet ! (drop_bit shift v AND 0x3f)"

fun b64_encode :: "string \<Rightarrow> string" where
  "b64_encode (a # b # c # rest) =
     (let v = push_bit 16 (of_char a) OR push_bit 8 (of_char b) OR of_char c
      in [b64_char v 18, b64_char v 12, b64_char v 6, b64_char v 0] @ b64_encode rest)"
| "b64_encode [a] =
     (let v = push_bit 16 (of_char a) in [b64_char v 18, b64_char v 12, CHR ''='', CHR ''=''])"
| "b64_encode [a, b] =
     (let v = push_bit 16 (of_char a) OR push_bit 8 (of_char b)
      in [b64_char v 18, b64_char v 12, b64_char v 6, CHR ''=''])"
| "b64_encode [] = []"

definition is_padding :: "char \<Rightarrow> bool" where
  "is_padding ch \<longleftrightarrow> ch = CHR ''='' \<or> ch = CHR 0x00"

definition b64_total :: "string \<Rightarrow> nat" where
  "b64_total src =
     (let quantum = drop (length src - 4) src; k = length (takeWhile (\<lambda>ch. \<not> is_padding ch) quantum)
      in length src div 4 * 3 - (if k < 4 then min (4 - k) 3 else 0))"

definition quantum_val :: "bool \<Rightarrow> char \<Rightarrow> int" where
  "quantum_val is_last ch = (if is_last \<and> is_padding ch then 0 else b64_sextet ch)"

definition b64_triple :: "int \<Rightarrow> int \<Rightarrow> int \<Rightarrow> int \<Rightarrow> string" where
  "b64_triple v0 v1 v2 v3 =
     [char_of (push_bit 2 v0 OR drop_bit 4 v1),
      char_of (push_bit 4 (v1 AND 0x0f) OR drop_bit 2 v2),
      char_of (push_bit 6 (v2 AND 0x03) OR v3)]"

text \<open>The loop over the quanta; \<open>None\<close> is the early return on a character outside the alphabet.\<close>

fun b64_chunks :: "nat \<Rightarrow> string \<Rightarrow> string \<Rightarrow> string option" where
  "b64_chunks len out (q0 # q1 # q2 # q3 # rest) =
     (let v = quantum_val (rest = [])
      in if v q0 < 0 \<or> v q1 < 0 \<or> v q2 < 0 \<or> v q3 < 0 then None
         else b64_chunks len (out @ take (min 3 (len - length out)) (b64_triple (v q0) (v q1) (v q2) (v q3))) rest)"
| "b64_chunks len out src = Some out"

definition b64_decode :: "string \<Rightarrow> nat option \<Rightarrow> nat \<times> string" where
  "b64_decode src dest_size =
     (if length src div 4 = 0 \<or> length src mod 4 \<noteq> 0 then (0, [])
      else case dest_size of
             None \<Rightarrow> (b64_total src, [])
           | Some n \<Rightarrow>
               if n < b64_total src then (0, [])
               else case b64_chunks (b64_total src) [] src of
                      None \<Rightarrow> (0, [])
                    | Some out \<Rightarrow> (b64_total src, out))"

definition base64_encode :: "string \<Rightarrow> string" where
  "base64_encode s = (if s = [] then [] else b64_encode s)"

definition decode_b64 :: "string \<Rightarrow> string" where
  "decode_b64 s =
     (if s = [] then []
      else let needed = fst (b64_decode s None)
           in if needed = 0 then []
              else let (n, out) = b64_decode s (Some needed) in take n out)"

definition base64_decode :: "string \<Rightarrow> string" where
  "base64_decode encoded =
     (let compact = filter (\<lambda>c. c \<noteq> CHR 0x0A \<and> c \<noteq> CHR 0x0D \<and> c \<noteq> CHR '' '' \<and> c \<noteq> CHR 0x09) encoded
      in decode_b64 compact)"

section \<open>Round trip\<close>

lemma b64_alphabet_length [simp]: "length b64_alphabet = 64"
  by (simp add: b64_alphabet_def)

lemma all_less_64: "(\<forall>i < 64. P i) \<longleftrightarrow> list_all P [0..<(64::nat)]"
  by (auto simp: list_all_iff)

lemma sextet_alphabet: "i < 64 \<Longrightarrow> b64_sextet (b64_alphabet ! i) = int i \<and> \<not> is_padding (b64_alphabet ! i)"
proof -
  have "\<forall>i < 64. b64_sextet (b64_alphabet ! i) = int i \<and> \<not> is_padding (b64_alphabet ! i)"
    unfolding all_less_64 by code_simp
  then show "i < 64 \<Longrightarrow> ?thesis" by blast
qed

lemma six_bits: "v AND 0x3f = v mod (64::nat)"
  using take_bit_eq_mask [of 6 v] by (simp add: take_bit_eq_mod mask_eq_exp_minus_1)

lemma b64_char_div: "b64_char v k = b64_alphabet ! (v div 2 ^ k mod 64)"
  by (simp add: b64_char_def six_bits drop_bit_eq_div)

lemma quantum_char [simp]: "quantum_val l (b64_char v k) = int (v div 2 ^ k mod 64)" "\<not> is_padding (b64_char v k)"
  using sextet_alphabet [of "v div 2 ^ k mod 64"] by (simp_all add: quantum_val_def b64_char_div)

lemma or_low:
  fixes x y :: "'a :: semiring_bit_operations"
  assumes "take_bit n y = y"
  shows "push_bit n x OR y = x * 2 ^ n + y"
proof -
  have "bit y k \<Longrightarrow> k < n" for k
    using assms by (metis bit_take_bit_iff)
  then have "push_bit n x AND y = 0"
    by (auto simp: bit_eq_iff bit_simps dest: leD)
  then have "push_bit n x OR y = push_bit n x + y"
    by (simp add: disjunctive_add_eq_or)
  then show ?thesis by (simp add: push_bit_eq_mult)
qed

lemma group_val:
  "push_bit 16 (of_char a) OR push_bit 8 (of_char b) OR of_char c = of_char a * 65536 + of_char b * 256 + (of_char c :: nat)"
  "push_bit 16 (of_char a) OR push_bit 8 (of_char b) = of_char a * 65536 + of_char b * (256 :: nat)"
proof -
  have c: "take_bit 8 (of_char c) = (of_char c :: nat)" for c :: char
    using nat_of_char_less_256 [of c] by (simp add: take_bit_nat_eq_self)
  have b: "push_bit 8 (of_char b) OR of_char c = of_char b * 256 + (of_char c :: nat)"
    by (simp add: or_low [OF c])
  have "of_char b * 256 + of_char c < (65536 :: nat)"
    using nat_of_char_less_256 [of b] nat_of_char_less_256 [of c] by linarith
  then have "take_bit 16 (of_char b * 256 + of_char c) = (of_char b * 256 + of_char c :: nat)"
    by (simp add: take_bit_nat_eq_self)
  from or_low [OF this, of "of_char a"]
  show "push_bit 16 (of_char a) OR push_bit 8 (of_char b) OR of_char c = of_char a * 65536 + of_char b * 256 + (of_char c :: nat)"
    by (simp add: or.assoc b)
  have "of_char b * 256 < (65536 :: nat)"
    using nat_of_char_less_256 [of b] by linarith
  then have "take_bit 16 (of_char b * 256) = (of_char b * 256 :: nat)"
    by (simp add: take_bit_nat_eq_self)
  from or_low [OF this, of "of_char a"]
  show "push_bit 16 (of_char a) OR push_bit 8 (of_char b) = of_char a * 65536 + of_char b * (256 :: nat)"
    by (simp add: push_bit_eq_mult)
qed

lemma base_64_digits:
  fixes a b c d :: nat
  assumes "a < 64" "b < 64" "c < 64" "d < 64" and v: "v = ((a * 64 + b) * 64 + c) * 64 + d"
  shows "v div 2 ^ 18 mod 64 = a" "v div 2 ^ 12 mod 64 = b" "v div 2 ^ 6 mod 64 = c" "v div 2 ^ 0 mod 64 = d"
proof -
  have d: "(x * 64 + y) div 64 = x" "(x * 64 + y) mod 64 = y" if "y < 64" for x y :: nat
    using that by simp_all
  have s: "v div 2 ^ 6 = (a * 64 + b) * 64 + c"
    using d(1) [OF assms(4)] by (simp add: v)
  then have t: "v div 2 ^ 12 = a * 64 + b"
    using d(1) [OF assms(3)] div_mult2_eq [of v "2 ^ 6" "2 ^ 6"] by simp
  then have u: "v div 2 ^ 18 = a"
    using d(1) [OF assms(2)] div_mult2_eq [of v "2 ^ 12" "2 ^ 6"] by simp
  show "v div 2 ^ 18 mod 64 = a" unfolding u using assms(1) by (rule mod_less)
  show "v div 2 ^ 12 mod 64 = b" unfolding t by (rule d(2) [OF assms(2)])
  show "v div 2 ^ 6 mod 64 = c" unfolding s by (rule d(2) [OF assms(3)])
  show "v div 2 ^ 0 mod 64 = d" unfolding v power_0 div_by_1 by (rule d(2) [OF assms(4)])
qed

lemma regroup:
  fixes A B C :: nat
  shows "A = p * 4 + q \<Longrightarrow> B = r * 16 + s \<Longrightarrow> C = t * 64 + u \<Longrightarrow>
    A * 65536 + B * 256 + C = ((p * 64 + (q * 16 + r)) * 64 + (s * 4 + t)) * 64 + u"
  by simp

lemma group_sextets:
  fixes A B C :: nat
  assumes "A < 256" "B < 256" "C < 256"
  shows "(A * 65536 + B * 256 + C) div 2 ^ 18 mod 64 = A div 4"
    "(A * 65536 + B * 256 + C) div 2 ^ 12 mod 64 = A mod 4 * 16 + B div 16"
    "(A * 65536 + B * 256 + C) div 2 ^ 6 mod 64 = B mod 16 * 4 + C div 64"
    "(A * 65536 + B * 256 + C) div 2 ^ 0 mod 64 = C mod 64"
proof -
  have e: "A * 65536 + B * 256 + C =
      ((A div 4 * 64 + (A mod 4 * 16 + B div 16)) * 64 + (B mod 16 * 4 + C div 64)) * 64 + C mod 64"
    by (rule regroup) simp_all
  have "A div 4 < 64" "B div 16 < 16" "C div 64 < 4" "A mod 4 < 4" "B mod 16 < 16" "C mod 64 < 64"
    using assms by simp_all
  then have "A div 4 < 64" "A mod 4 * 16 + B div 16 < 64" "B mod 16 * 4 + C div 64 < 64" "C mod 64 < 64"
    by linarith+
  from base_64_digits [OF this e] show "(A * 65536 + B * 256 + C) div 2 ^ 18 mod 64 = A div 4"
    "(A * 65536 + B * 256 + C) div 2 ^ 12 mod 64 = A mod 4 * 16 + B div 16"
    "(A * 65536 + B * 256 + C) div 2 ^ 6 mod 64 = B mod 16 * 4 + C div 64"
    "(A * 65536 + B * 256 + C) div 2 ^ 0 mod 64 = C mod 64" .
qed

lemma low_bits: "x AND 0x0f = x mod (16::int)" "x AND 0x03 = x mod (4::int)"
  using take_bit_eq_mask [of 4 x] take_bit_eq_mask [of 2 x] by (simp_all add: take_bit_eq_mod mask_eq_exp_minus_1)

lemma triple_bytes:
  fixes A B C :: nat
  assumes "A < 256" "B < 256" "C < 256"
  shows "b64_triple (int (A div 4)) (int (A mod 4 * 16 + B div 16)) (int (B mod 16 * 4 + C div 64)) (int (C mod 64))
    = [char_of A, char_of B, char_of C]"
proof -
  have q: "(x * n + y) div n = x" "(x * n + y) mod n = y" if "0 \<le> y" "y < n" for x y n :: int
    using that by simp_all
  have B: "0 \<le> int B div 16" "int B div 16 < 16" and C: "0 \<le> int C div 64" "int C div 64 < 4"
    using assms by auto
  have "drop_bit 4 (int A mod 4 * 16 + int B div 16) = int A mod 4" "(int A mod 4 * 16 + int B div 16) mod 16 = int B div 16"
    "drop_bit 2 (int B mod 16 * 4 + int C div 64) = int B mod 16" "(int B mod 16 * 4 + int C div 64) mod 4 = int C div 64"
    using q [OF B] q [OF C] by (simp_all add: drop_bit_eq_div)
  moreover have "push_bit 2 (int A div 4) OR int A mod 4 = int A" "push_bit 4 (int B div 16) OR int B mod 16 = int B"
    "push_bit 6 (int C div 64) OR int C mod 64 = int C"
    by (simp_all add: or_low take_bit_eq_mod)
  ultimately have "b64_triple (int (A div 4)) (int (A mod 4 * 16 + B div 16)) (int (B mod 16 * 4 + C div 64)) (int (C mod 64))
    = [char_of (int A), char_of (int B), char_of (int C)]"
    by (simp add: b64_triple_def low_bits zdiv_int zmod_int)
  then show ?thesis by simp
qed

lemma decode_group:
  fixes a b c :: char
  defines "v \<equiv> of_char a * 65536 + of_char b * 256 + of_char c :: nat"
  shows "b64_triple (int (v div 2 ^ 18 mod 64)) (int (v div 2 ^ 12 mod 64)) (int (v div 2 ^ 6 mod 64)) (int (v div 2 ^ 0 mod 64))
    = [a, b, c]"
  unfolding v_def group_sextets [OF nat_of_char_less_256 nat_of_char_less_256 nat_of_char_less_256]
  by (subst triple_bytes) simp_all

lemma quantum_padding: "quantum_val True CHR ''='' = 0" "is_padding CHR ''=''"
  by (simp_all add: quantum_val_def is_padding_def)

lemma chunks_encode: "b64_chunks (length out + length s) out (b64_encode s) = Some (out @ s)"
proof (induction s arbitrary: out rule: b64_encode.induct)
  case (1 a b c rest)
  show ?case
    using "1.IH" [OF refl, of "out @ [a, b, c]"]
    by (simp add: Let_def group_val decode_group [simplified])
next
  case (2 a)
  have "b64_triple (int (of_char a * 65536 div 262144 mod 64)) (int (of_char a * 65536 div 4096 mod 64)) 0 0 = [a, CHR 0x00, CHR 0x00]"
    using decode_group [of a "CHR 0x00" "CHR 0x00"] group_sextets(3,4) [of "of_char a" 0 0] by simp
  then show ?case
    by (simp add: Let_def quantum_padding push_bit_eq_mult)
next
  case (3 a b)
  have "b64_triple (int ((of_char a * 65536 + of_char b * 256) div 262144 mod 64)) (int ((of_char a * 65536 + of_char b * 256) div 4096 mod 64))
      (int ((of_char a * 65536 + of_char b * 256) div 64 mod 64)) 0 = [a, b, CHR 0x00]"
    using decode_group [of a b "CHR 0x00"] group_sextets(4) [of "of_char a" "of_char b" 0] by simp
  then show ?case
    by (simp add: Let_def quantum_padding group_val)
qed simp

lemma encode_length: "length (b64_encode s) = (length s + 2) div 3 * 4"
proof (induction s rule: b64_encode.induct)
  case (1 a b c rest)
  have "(3 + (length rest + 2)) div 3 = Suc ((length rest + 2) div 3)" by simp
  with "1.IH" [OF refl] show ?case by (simp add: Let_def)
qed (simp_all add: Let_def)

lemma encode_empty: "b64_encode s = [] \<longleftrightarrow> s = []"
  by (cases s rule: b64_encode.cases) (simp_all add: Let_def)

lemma b64_total_append:
  assumes "length q = 4" "length rest mod 4 = 0" "rest \<noteq> []"
  shows "b64_total (q @ rest) = 3 + b64_total rest"
proof -
  have "4 \<le> length rest"
    using assms(2,3) by (cases "length rest < 4") auto
  then have "(4 + length rest) div 4 = Suc (length rest div 4)" "1 \<le> length rest div 4"
    by simp_all
  then show ?thesis
    using assms(1) \<open>4 \<le> length rest\<close> by (simp add: b64_total_def Let_def)
qed

lemma b64_total_encode: "b64_total (b64_encode s) = length s"
proof (induction s rule: b64_encode.induct)
  case (1 a b c rest)
  show ?case
  proof (cases "rest = []")
    case False
    have "b64_total ([w, x, y, z] @ b64_encode rest) = 3 + b64_total (b64_encode rest)" for w x y z
      by (rule b64_total_append) (use False in \<open>simp_all add: encode_length encode_empty\<close>)
    then show ?thesis
      using "1.IH" [OF refl] by (simp add: Let_def)
  qed (simp add: Let_def b64_total_def)
qed (simp_all add: Let_def b64_total_def quantum_padding)

lemma decode_encode: "decode_b64 (base64_encode s) = s"
proof (cases "s = []")
  case False
  then have "b64_encode s \<noteq> []" "length (b64_encode s) div 4 \<noteq> 0" "length (b64_encode s) mod 4 = 0" "length s \<noteq> 0"
    using encode_length [of s] by (simp_all add: encode_empty) (cases s, auto)
  then show ?thesis
    using chunks_encode [of "[]" s] False
    by (simp add: decode_b64_def base64_encode_def b64_decode_def b64_total_encode)
qed (simp add: decode_b64_def base64_encode_def)

interpretation b64: wire_codec "\<lambda>s. Inr (base64_encode s)" "\<lambda>b. Inr (decode_b64 b)" "\<lambda>s. True" "\<lambda>s. s" "\<lambda>s. s"
  by unfold_locales (simp_all add: decode_encode)

text \<open>
  C12. What is encoded decodes to itself: for every text of bytes, zero bytes included, the decoder
  of the web server gives back what the encoder took; the encoded text has four characters for
  every three bytes or part of them, and no two texts are encoded alike.
\<close>

theorem base64_roundtrip:
  "decode_b64 (base64_encode s) = s \<and> length (base64_encode s) = (length s + 2) div 3 * 4 \<and>
   (base64_encode s = base64_encode t \<longleftrightarrow> s = t)"
proof (intro conjI iffI)
  show "decode_b64 (base64_encode s) = s" by (rule decode_encode)
  show "length (base64_encode s) = (length s + 2) div 3 * 4"
    by (simp add: base64_encode_def encode_length)
  show "base64_encode s = base64_encode t \<Longrightarrow> s = t"
    using b64.unambiguous [of s t] by simp
qed simp

end
