(* ===== verification/Web_Users.thy ===== *)
theory Web_Users
  imports Str_Split Base64
begin

text \<open>
  Passwords and users of the web server: \<^verbatim>\<open>constant_time_eq\<close> (\<^verbatim>\<open>include/str/constant_time.hpp\<close>), the
  stored form of a password (\<^verbatim>\<open>include/nscp/password_hash.cpp\<close>, with \<^verbatim>\<open>to_hex\<close> of
  \<^verbatim>\<open>include/nscp/sha256.hpp\<close>) and \<^verbatim>\<open>modules/WEBServer/user_manager.cpp\<close>. OpenSSL is the record
  \<open>pw_env\<close>: whether the build has it, what \<^verbatim>\<open>RAND_bytes\<close> gave for a new salt, and the key
  derivation. A byte is a \<^verbatim>\<open>char\<close>.
\<close>

section \<open>Comparing\<close>

definition ct_byte :: "string \<Rightarrow> nat \<Rightarrow> 8 word" where
  "ct_byte s i = (if i < length s then of_nat (of_char (s ! i)) else 0)"

definition constant_time_eq :: "string \<Rightarrow> string \<Rightarrow> bool" where
  "constant_time_eq a b =
     (let diff = foldl (\<lambda>diff i. diff OR (ct_byte a i XOR ct_byte b i)) (of_nat (length a XOR length b) AND 0xff)
        [0..<max (length a) (length b)]
      in diff = 0 \<and> length a = length b)"

section \<open>Stored passwords\<close>

record pw_env =
  pe_use_ssl :: bool
  pe_salt :: "string option"
  pe_pbkdf2 :: "string \<Rightarrow> string \<Rightarrow> int \<Rightarrow> nat \<Rightarrow> string option"

definition kPbkdf2Prefix :: string where "kPbkdf2Prefix = ''pbkdf2-sha256$''"

definition hex_digit :: "char \<Rightarrow> int" where
  "hex_digit ch =
     (let c = of_char ch :: int
      in if of_char CHR ''0'' \<le> c \<and> c \<le> of_char CHR ''9'' then c - of_char CHR ''0''
         else if of_char CHR ''a'' \<le> c \<and> c \<le> of_char CHR ''f'' then c - of_char CHR ''a'' + 10
         else if of_char CHR ''A'' \<le> c \<and> c \<le> of_char CHR ''F'' then c - of_char CHR ''A'' + 10
         else - 1)"

fun hex_pairs :: "string \<Rightarrow> string option" where
  "hex_pairs (h # l # rest) =
     (let hi = hex_digit h; lo = hex_digit l
      in if hi < 0 \<or> lo < 0 then None
         else map_option (\<lambda>out. char_of (push_bit 4 hi OR lo) # out) (hex_pairs rest))"
| "hex_pairs _ = Some []"

definition from_hex :: "string \<Rightarrow> string option" where
  "from_hex hex = (if hex = [] \<or> length hex mod 2 \<noteq> 0 then None else hex_pairs hex)"

definition to_hex :: "string \<Rightarrow> string" where
  "to_hex data = concat (map (\<lambda>c. [''0123456789abcdef'' ! (drop_bit 4 (of_char c)), ''0123456789abcdef'' ! (of_char c AND 0x0f)]) data)"

definition has_prefix :: "string \<Rightarrow> bool" where
  "has_prefix s \<longleftrightarrow> take (length kPbkdf2Prefix) s = kPbkdf2Prefix"

definition parse_hash :: "string \<Rightarrow> (int \<times> string \<times> string) option" where
  "parse_hash stored =
     (if \<not> has_prefix stored then None
      else let body = drop (length kPbkdf2Prefix) stored
      in if CHR ''$'' \<notin> set body then None
      else let iterations = upto_sep (CHR ''$'') body; r = after_sep (CHR ''$'') body
      in if CHR ''$'' \<notin> set r then None
      else if iterations = [] \<or> length iterations > 7 \<or> \<not> list_all is_digit_char iterations then None
      else let iter = int (digits_val iterations)
      in if iter \<le> 0 \<or> iter > 1000000 then None
      else case from_hex (upto_sep (CHR ''$'') r) of
             None \<Rightarrow> None
           | Some salt \<Rightarrow> (case from_hex (after_sep (CHR ''$'') r) of
                 None \<Rightarrow> None
               | Some expected \<Rightarrow> if salt \<noteq> [] \<and> expected \<noteq> [] then Some (iter, salt, expected) else None))"

definition is_hashed :: "string \<Rightarrow> bool" where
  "is_hashed s \<longleftrightarrow> parse_hash s \<noteq> None"

definition hash_password :: "pw_env \<Rightarrow> string \<Rightarrow> string" where
  "hash_password P password =
     (if \<not> pe_use_ssl P then password
      else case pe_salt P of
             None \<Rightarrow> []
           | Some salt \<Rightarrow> (case pe_pbkdf2 P password salt 100000 32 of
                 None \<Rightarrow> []
               | Some out \<Rightarrow> kPbkdf2Prefix @ xtos_int 100000 @ ''$'' @ to_hex salt @ ''$'' @ to_hex out))"

definition verify_password :: "pw_env \<Rightarrow> string \<Rightarrow> string \<Rightarrow> bool" where
  "verify_password P password stored =
     (if \<not> pe_use_ssl P then constant_time_eq password stored
      else case parse_hash stored of
             None \<Rightarrow> (if has_prefix stored then False else constant_time_eq password stored)
           | Some (iter, salt, expected) \<Rightarrow>
               (case pe_pbkdf2 P password salt iter (length expected) of
                  None \<Rightarrow> False
                | Some got \<Rightarrow> constant_time_eq got expected))"

section \<open>Users\<close>

type_synonym user_table = "string \<rightharpoonup> string"

definition um_validate_user :: "pw_env \<Rightarrow> user_table \<Rightarrow> string \<Rightarrow> string \<Rightarrow> bool" where
  "um_validate_user P users user password =
     (if password = [] then False
      else case users user of None \<Rightarrow> False | Some stored \<Rightarrow> verify_password P password stored)"

definition um_add_user :: "pw_env \<Rightarrow> string \<Rightarrow> string \<Rightarrow> user_table \<Rightarrow> user_table" where
  "um_add_user P user password users =
     (if password = [] \<or> is_hashed password then users(user \<mapsto> password)
      else let h = hash_password P password in users(user \<mapsto> (if h = [] then password else h)))"

definition um_has_user :: "user_table \<Rightarrow> string \<Rightarrow> bool" where
  "um_has_user users user \<longleftrightarrow> users user \<noteq> None"

definition um_get_hash :: "user_table \<Rightarrow> string \<Rightarrow> string" where
  "um_get_hash users user = (case users user of None \<Rightarrow> [] | Some h \<Rightarrow> h)"

definition um_remove_user :: "string \<Rightarrow> user_table \<Rightarrow> user_table" where
  "um_remove_user user users = users(user := None)"

section \<open>Comparing is equality\<close>

lemma or_fold_zero: "foldl (\<lambda>d i. d OR f i) (x :: 8 word) is = 0 \<longleftrightarrow> x = 0 \<and> (\<forall>i \<in> set is. f i = 0)"
  by (induction "is" arbitrary: x) (auto simp: or_eq_0_iff)

lemma constant_time_eq_iff [simp]: "constant_time_eq a b \<longleftrightarrow> a = b"
proof
  assume "a = b"
  then show "constant_time_eq a b"
    unfolding constant_time_eq_def Let_def or_fold_zero by simp
next
  assume eq: "constant_time_eq a b"
  then have l: "length a = length b"
    by (simp add: constant_time_eq_def Let_def)
  have "x XOR y = 0 \<longleftrightarrow> x = y" for x y :: "8 word"
    by (auto simp: bit_eq_iff bit_simps)
  then have "ct_byte a i = ct_byte b i" if "i < length a" for i
    using eq that unfolding constant_time_eq_def Let_def or_fold_zero by auto
  then have "(of_nat (of_char (a ! i)) :: 8 word) = of_nat (of_char (b ! i))" if "i < length a" for i
    using that l by (simp add: ct_byte_def)
  then have "a ! i = b ! i" if "i < length a" for i
    using that by (simp add: word_of_nat_eq_iff take_bit_nat_eq_self)
  then show "a = b"
    using l by (intro nth_equalityI) auto
qed

section \<open>A stored password verifies\<close>

lemma hex_char: "i < 16 \<Longrightarrow> hex_digit (''0123456789abcdef'' ! i) = int i \<and> ''0123456789abcdef'' ! i \<noteq> CHR ''$''"
proof -
  have "list_all (\<lambda>i. hex_digit (''0123456789abcdef'' ! i) = int i \<and> ''0123456789abcdef'' ! i \<noteq> CHR ''$'') [0..<16]"
    by code_simp
  then show "i < 16 \<Longrightarrow> ?thesis" by (simp add: list_all_iff del: upt_Suc)
qed

lemma nibbles:
  "drop_bit 4 (of_char c) = of_char c div (16 :: nat)" "of_char c AND 0x0f = of_char c mod (16 :: nat)"
  "of_char c div 16 < (16 :: nat)"
proof -
  show "drop_bit 4 (of_char c) = of_char c div (16 :: nat)" by (simp add: drop_bit_eq_div)
  show "of_char c AND 0x0f = of_char c mod (16 :: nat)"
    using take_bit_eq_mask [of 4 "of_char c :: nat"] by (simp add: take_bit_eq_mod mask_eq_exp_minus_1)
  show "of_char c div 16 < (16 :: nat)"
    by (rule less_mult_imp_div_less) (use nat_of_char_less_256 [of c] in simp)
qed

lemma hex_pair: "hex_pairs (''0123456789abcdef'' ! (drop_bit 4 (of_char c)) # ''0123456789abcdef'' ! (of_char c AND 0x0f) # rest)
    = map_option (\<lambda>out. c # out) (hex_pairs rest)"
proof -
  have "push_bit 4 (int (of_char c div 16)) OR int (of_char c mod 16) = int (of_char c)"
    by (subst or_low) (simp_all add: take_bit_eq_mod zmod_int zdiv_int)
  then have "char_of (push_bit 4 (int (of_char c div 16)) OR int (of_char c mod 16)) = c"
    by simp
  then show ?thesis
    unfolding nibbles using hex_char [of "of_char c div 16"] hex_char [of "of_char c mod 16"] nibbles(3) [of c]
    by (simp add: Let_def)
qed

lemma hex_pairs_to_hex: "hex_pairs (to_hex s) = Some s"
  by (induction s) (simp_all add: to_hex_def hex_pair del: hex_pairs.simps(1))

lemma to_hex_length: "length (to_hex s) = 2 * length s"
  by (induction s) (simp_all add: to_hex_def)

lemma from_hex_to_hex: "s \<noteq> [] \<Longrightarrow> from_hex (to_hex s) = Some s"
  using to_hex_length [of s] by (auto simp: from_hex_def hex_pairs_to_hex)

interpretation hex: wire_codec "\<lambda>s. Inr (to_hex s)" "\<lambda>b. case from_hex b of None \<Rightarrow> Inl Unspecific | Some s \<Rightarrow> Inr s"
    "\<lambda>s. s \<noteq> []" "\<lambda>s. s" "\<lambda>s. s"
  by unfold_locales (auto simp: from_hex_to_hex)

lemma to_hex_no_dollar: "CHR ''$'' \<notin> set (to_hex s)"
proof -
  have "CHR ''$'' \<noteq> ''0123456789abcdef'' ! (drop_bit 4 (of_char c))" "CHR ''$'' \<noteq> ''0123456789abcdef'' ! (of_char c AND 0x0f)" for c
    unfolding nibbles using nibbles(3) by (simp_all add: hex_char [THEN conjunct2, THEN not_sym] del: nth_Cons_numeral)
  then show ?thesis by (simp add: to_hex_def)
qed

lemma parse_hash_stored:
  assumes "salt \<noteq> []" "out \<noteq> []"
  shows "parse_hash (kPbkdf2Prefix @ xtos_int 100000 @ ''$'' @ to_hex salt @ ''$'' @ to_hex out) = Some (100000, salt, out)"
proof -
  let ?i = "nat_str 100000"
  have i: "xtos_int 100000 = ?i" by (simp add: xtos_int_def)
  have "length ?i = 6" by (simp add: nat_str_rec)
  moreover have "CHR ''$'' \<notin> set ?i" "list_all is_digit_char ?i"
    using nat_str_digits [of 100000] by (auto simp: is_digit_char_def list_all_iff)
  ultimately show ?thesis
    using assms sep_first [of "CHR ''$''" ?i "to_hex salt @ ''$'' @ to_hex out"]
      sep_first [OF to_hex_no_dollar, of salt "to_hex out"]
    by (simp add: parse_hash_def has_prefix_def i Let_def from_hex_to_hex)
qed

text \<open>What OpenSSL documents: a key derivation that succeeds fills the buffer.\<close>

definition pbkdf2_fills :: "pw_env \<Rightarrow> bool" where
  "pbkdf2_fills P \<longleftrightarrow> (\<forall>password salt iter n. case pe_pbkdf2 P password salt iter n of None \<Rightarrow> True | Some out \<Rightarrow> length out = n)"

lemma stored_user:
  assumes "pbkdf2_fills P" "pe_use_ssl P" "pe_salt P = Some salt" "salt \<noteq> []"
    and "pe_pbkdf2 P password salt 100000 32 = Some out" "password \<noteq> []" "\<not> is_hashed password"
  obtains stored where "um_add_user P user password users = users(user \<mapsto> stored)" "parse_hash stored = Some (100000, salt, out)"
    "length out = 32"
proof -
  let ?s = "kPbkdf2Prefix @ xtos_int 100000 @ ''$'' @ to_hex salt @ ''$'' @ to_hex out"
  have l: "length out = 32"
    using assms(1,5) unfolding pbkdf2_fills_def by (auto split: option.splits)
  then have "out \<noteq> []" by auto
  with assms(4) have p: "parse_hash ?s = Some (100000, salt, out)"
    by (rule parse_hash_stored)
  moreover have "um_add_user P user password users = users(user \<mapsto> ?s)"
    using assms(2,3,5-7) by (simp add: um_add_user_def hash_password_def kPbkdf2Prefix_def)
  ultimately show thesis using that l by blast
qed

text \<open>
  C11. A stored password is checked against its key derivation: after a user is added with a clear
  password, exactly the passwords with the same derived key are accepted for that user - the password
  itself among them -, the empty one never is, what is stored is not the password, and every other
  user logs in as before.
\<close>

theorem stored_password_verifies:
  assumes "pbkdf2_fills P" and "pe_use_ssl P" and "pe_salt P = Some salt" and "salt \<noteq> []"
    and "pe_pbkdf2 P password salt 100000 32 = Some out" and "password \<noteq> []" and "\<not> is_hashed password"
  shows "um_validate_user P (um_add_user P user password users) u q =
      (if u = user then q \<noteq> [] \<and> pe_pbkdf2 P q salt 100000 32 = Some out else um_validate_user P users u q) \<and>
    um_get_hash (um_add_user P user password users) user \<noteq> password"
proof -
  obtain stored where s: "um_add_user P user password users = users(user \<mapsto> stored)"
    "parse_hash stored = Some (100000, salt, out)" "length out = 32"
    using assms by (rule stored_user)
  then have "stored \<noteq> password"
    using assms(7) by (auto simp: is_hashed_def)
  with s assms(2) show ?thesis
    by (auto simp: um_validate_user_def um_get_hash_def verify_password_def split: option.splits)
qed

definition sample_pw :: pw_env where
  "sample_pw = \<lparr>pe_use_ssl = True, pe_salt = Some ''salt'', pe_pbkdf2 = (\<lambda>p s i n. Some (take n (p @ replicate n CHR ''x'')))\<rparr>"

theorem stored_password_verifies_witness:
  "um_validate_user sample_pw (um_add_user sample_pw ''admin'' ''secret'' Map.empty) ''admin'' ''secret'' \<and>
   \<not> um_validate_user sample_pw (um_add_user sample_pw ''admin'' ''secret'' Map.empty) ''admin'' ''guess''"
proof -
  have "pbkdf2_fills sample_pw" by (auto simp: pbkdf2_fills_def sample_pw_def)
  moreover have "\<not> is_hashed ''secret''" by code_simp
  ultimately show ?thesis
    using stored_password_verifies [of sample_pw "''salt''" "''secret''" "''secret'' @ replicate 26 CHR ''x''" "''admin''" Map.empty "''admin''" "''secret''"]
      stored_password_verifies [of sample_pw "''salt''" "''secret''" "''secret'' @ replicate 26 CHR ''x''" "''admin''" Map.empty "''admin''" "''guess''"]
    by (simp add: sample_pw_def numeral_eq_Suc)
qed

end
