(* ===== verification/Allowed_Hosts.thy ===== *)
theory Allowed_Hosts
  imports Str_Split Str_Format "HOL-Library.Word"
begin

text \<open>
  The list of addresses a listener accepts (\<^verbatim>\<open>allowed_hosts_manager\<close> of
  \<^verbatim>\<open>include/net/socket/allowed_hosts.cpp\<close> and \<^verbatim>\<open>allowed_hosts.hpp\<close>), which every server of the agent
  asks before it reads from a peer. An address is the array of its bytes, most significant first.
  What Boost does - parsing an address, resolving a name, recognising a v4 address mapped into v6,
  \<^verbatim>\<open>lexical_cast\<close> and \<^verbatim>\<open>trim\<close> - are the fields of \<open>net_env\<close>.
\<close>

unbundle bit_operations_syntax

section \<open>State and library\<close>

type_synonym addr_bytes = "8 word list"

datatype ip_address = V4 addr_bytes | V6 addr_bytes

record host_record =
  hr_host :: string
  hr_addr :: addr_bytes
  hr_mask :: addr_bytes

record allowed_hosts_manager =
  entries_v4 :: "host_record list"
  entries_v6 :: "host_record list"
  sources :: "string list"
  cached :: bool
  settings_path :: string

definition new_allowed_hosts :: allowed_hosts_manager where
  "new_allowed_hosts = \<lparr>entries_v4 = [], entries_v6 = [], sources = [], cached = True, settings_path = []\<rparr>"

text \<open>
  \<open>ne_make_address\<close> and \<open>ne_resolve\<close> give the message of the error code and of the exception on
  the left; \<open>ne_mapped_v4\<close> is \<^verbatim>\<open>is_v4_mapped\<close> with \<^verbatim>\<open>make_address_v4(v4_mapped, ...)\<close>.
\<close>

record net_env =
  ne_make_address :: "string \<Rightarrow> string + ip_address"
  ne_resolve :: "string \<Rightarrow> ip_address list res"
  ne_mapped_v4 :: "addr_bytes \<Rightarrow> addr_bytes option"
  ne_stox_size :: "string \<Rightarrow> nat res"
  ne_stox_uint :: "string \<Rightarrow> nat res"
  ne_trim :: "string \<Rightarrow> string"

type_synonym hosts_ctx = "allowed_hosts_manager \<times> string list"

section \<open>Masks\<close>

definition extract_mask :: "net_env \<Rightarrow> string \<Rightarrow> nat \<Rightarrow> nat res" where
  "extract_mask E msk mask_length =
     (let digits = dropWhile (\<lambda>c. \<not> is_digit_char c) msk
      in bind_res (if digits = [] then Inr mask_length else ne_stox_size E (takeWhile is_digit_char digits))
           (\<lambda>len. Inr (len mod 2 ^ 32)))"

definition mask_byte :: "nat \<Rightarrow> nat \<Rightarrow> 8 word" where
  "mask_byte msk i =
     (let index = msk div 8; val = 0xff - drop_bit (msk mod 8) 0xff
      in if i < index then 0xff else if i = index then val else 0)"

definition calculate_mask :: "net_env \<Rightarrow> nat \<Rightarrow> string \<Rightarrow> addr_bytes res" where
  "calculate_mask E n mask_as_string =
     bind_res (extract_mask E mask_as_string (8 * n)) (\<lambda>msk. Inr (map (mask_byte msk) [0..<n]))"

section \<open>Reading the list\<close>

fun wildcard_scan :: "net_env \<Rightarrow> bool \<Rightarrow> nat \<Rightarrow> string list \<Rightarrow> (bool \<times> nat) option res" where
  "wildcard_scan E seen_star significant [] = Inr (Some (seen_star, significant))"
| "wildcard_scan E seen_star significant (part # parts) =
     (if part = ''*'' then wildcard_scan E True significant parts
      else if seen_star then Inr None
      else if part = [] \<or> length part > 3 \<or> \<not> list_all is_digit_char part then Inr None
      else bind_res (ne_stox_uint E part)
        (\<lambda>v. if v > 255 then Inr None else wildcard_scan E seen_star (Suc significant) parts))"

definition dot_append :: "string \<Rightarrow> string \<Rightarrow> string" where
  "dot_append result part = (if result \<noteq> [] then result @ ''.'' else result) @ part"

definition expand_wildcard_v4 :: "net_env \<Rightarrow> string \<Rightarrow> (string \<times> string) option res" where
  "expand_wildcard_v4 E addr =
     (let parts = split_lst (CHR ''.'') addr
      in if parts = [] \<or> length parts > 4 then Inr None
         else bind_res (wildcard_scan E False 0 parts) (\<lambda>r. case r of
                None \<Rightarrow> Inr None
              | Some (seen_star, significant) \<Rightarrow>
                  if \<not> seen_star then Inr None
                  else Inr (Some (foldl dot_append [] (take significant parts @ replicate (4 - significant) ''0''),
                                  ''/'' @ nat_str (significant * 8)))))"

definition push_error :: "string \<Rightarrow> (hosts_ctx, unit) ev" where
  "push_error e = modify (\<lambda>(h, errors). (h, errors @ [e]))"

definition add_entry :: "net_env \<Rightarrow> string \<Rightarrow> string \<Rightarrow> ip_address \<Rightarrow> (hosts_ctx, unit) ev" where
  "add_entry E rec msk a = (case a of
       V4 b \<Rightarrow> bindE (lift_res (calculate_mask E 4 msk)) (\<lambda>m.
         modify (\<lambda>(h, errors). (h\<lparr>entries_v4 := entries_v4 h @ [\<lparr>hr_host = rec, hr_addr = b, hr_mask = m\<rparr>]\<rparr>, errors)))
     | V6 b \<Rightarrow> bindE (lift_res (calculate_mask E 16 msk)) (\<lambda>m.
         modify (\<lambda>(h, errors). (h\<lparr>entries_v6 := entries_v6 h @ [\<lparr>hr_host = rec, hr_addr = b, hr_mask = m\<rparr>]\<rparr>, errors))))"

definition add_numeric :: "net_env \<Rightarrow> string \<Rightarrow> string \<Rightarrow> string \<Rightarrow> (hosts_ctx, unit) ev" where
  "add_numeric E rec addr msk = (case ne_make_address E addr of
       Inl msg \<Rightarrow> push_error (''Failed to parse address '' @ rec @ '': '' @ msg)
     | Inr a \<Rightarrow> add_entry E rec msk a)"

definition refresh_record :: "net_env \<Rightarrow> string \<Rightarrow> (hosts_ctx, unit) ev" where
  "refresh_record E rec =
     (let addr = upto_sep (CHR ''/'') rec;
          msk = (if CHR ''/'' \<in> set rec then CHR ''/'' # after_sep (CHR ''/'') rec else []);
          is_wildcard = (CHR ''*'' \<in> set addr)
      in if addr = [] then ret ()
         else if is_wildcard then
           (if msk \<noteq> [] then push_error (''Invalid address: '' @ rec @ '' (a * range cannot also carry a /mask)'')
            else bindE (lift_res (expand_wildcard_v4 E addr)) (\<lambda>r. case r of
                None \<Rightarrow> push_error (''Invalid address: '' @ rec @
                  '' (a * may only replace whole trailing octets of an IPv4 address, as in 192.168.1.*)'')
              | Some (addr', msk') \<Rightarrow> add_numeric E rec addr' msk'))
         else if is_digit_char (hd addr) \<or> CHR '':'' \<in> set addr then add_numeric E rec addr msk
         else catch_std
           (bindE (lift_res (ne_resolve E addr)) (\<lambda>endpoints. bindE (mapE (add_entry E rec msk) endpoints) (\<lambda>_. ret ())))
           (\<lambda>e. push_error (''Failed to parse host '' @ rec @ '': '' @ exn_what e)))"

definition refresh :: "net_env \<Rightarrow> (hosts_ctx, unit) ev" where
  "refresh E =
     seqE (modify (\<lambda>(h, errors). (h\<lparr>entries_v4 := [], entries_v6 := []\<rparr>, errors)))
       (bindE (getE (\<lambda>(h, errors). sources h)) (\<lambda>records. bindE (mapE (refresh_record E) records) (\<lambda>_. ret ())))"

definition set_source :: "net_env \<Rightarrow> string \<Rightarrow> allowed_hosts_manager \<Rightarrow> allowed_hosts_manager" where
  "set_source E source h = h\<lparr>sources := filter (\<lambda>s. s \<noteq> []) (map (ne_trim E) (split_lst (CHR '','') source))\<rparr>"

definition set_settings_path :: "string \<Rightarrow> allowed_hosts_manager \<Rightarrow> allowed_hosts_manager" where
  "set_settings_path path h = h\<lparr>settings_path := path\<rparr>"

section \<open>Deciding\<close>

definition match_host :: "addr_bytes \<Rightarrow> addr_bytes \<Rightarrow> addr_bytes \<Rightarrow> bool" where
  "match_host allowed msk remote \<longleftrightarrow>
     list_all (\<lambda>i. allowed ! i AND msk ! i = remote ! i AND msk ! i) [0..<length allowed]"

definition is_allowed_v4 :: "allowed_hosts_manager \<Rightarrow> addr_bytes \<Rightarrow> bool" where
  "is_allowed_v4 h remote \<longleftrightarrow> list_ex (\<lambda>r. match_host (hr_addr r) (hr_mask r) remote) (entries_v4 h)"

definition is_allowed_v6 :: "allowed_hosts_manager \<Rightarrow> addr_bytes \<Rightarrow> bool" where
  "is_allowed_v6 h remote \<longleftrightarrow> list_ex (\<lambda>r. match_host (hr_addr r) (hr_mask r) remote) (entries_v6 h)"

definition allowed_now :: "net_env \<Rightarrow> allowed_hosts_manager \<Rightarrow> ip_address \<Rightarrow> bool" where
  "allowed_now E h address =
     (if entries_v4 h = [] \<and> entries_v6 h = [] then False
      else case address of
             V4 b \<Rightarrow> is_allowed_v4 h b
           | V6 b \<Rightarrow> (case ne_mapped_v4 E b of
                 Some b4 \<Rightarrow> is_allowed_v6 h b \<or> is_allowed_v4 h b4
               | None \<Rightarrow> is_allowed_v6 h b))"

definition is_allowed :: "net_env \<Rightarrow> ip_address \<Rightarrow> (hosts_ctx, bool) ev" where
  "is_allowed E address =
     bindE (getE (\<lambda>(h, errors). cached h)) (\<lambda>c.
       seqE (if \<not> c then refresh E else ret ()) (getE (\<lambda>(h, errors). allowed_now E h address)))"

text \<open>The line that is logged when a client is turned away; \<open>who\<close> is the text of its address.\<close>

definition rejection_message :: "string \<Rightarrow> string list \<Rightarrow> allowed_hosts_manager \<Rightarrow> string" where
  "rejection_message who errors h =
     (let max_listed = 10;
          place = (if settings_path h = [] then ''the module's server section'' else settings_path h);
          usable = (entries_v4 h \<noteq> [] \<or> entries_v6 h \<noteq> []);
          count = length (sources h);
          listed = foldl (\<lambda>l s. append_list l s '', '') [] (take max_listed (sources h));
          listed' = (if count > max_listed then listed @ '', ... ('' @ nat_str (count - max_listed) @ '' more)'' else listed)
      in ''Rejected connection from: '' @ who @ '', '' @
         (if count = 0 then ''allowed hosts is empty, which rejects every connection''
          else if \<not> usable then ''no entry in allowed hosts could be used ('' @ listed' @ '')''
          else ''not in allowed hosts ('' @ listed' @ '')'') @
         ''; set `allowed hosts` in '' @ place @ '', or in /settings/default if that section does not set it'' @
         (if count = 0 then '' (`0.0.0.0/0,::/0` allows every address)'' else []) @
         (if errors \<noteq> [] then ''; problems with the list: '' @ join_from [] errors ''; ''
          else if count > 0 \<and> \<not> usable then '' (why each entry failed was logged when the module loaded)''
          else []))"

section \<open>A mask selects a prefix\<close>

text \<open>The bits of an address, most significant first: the reference for what a prefix length means.\<close>

definition byte_bits :: "8 word \<Rightarrow> bool list" where
  "byte_bits w = map (\<lambda>j. bit w (7 - j)) [0..<8]"

definition addr_bits :: "addr_bytes \<Rightarrow> bool list" where
  "addr_bits a = concat (map byte_bits a)"

lemma addr_bits_length [simp]: "length (addr_bits a) = 8 * length a"
  by (induction a) (simp_all add: addr_bits_def byte_bits_def)

lemma addr_bits_nth: "i < length a \<Longrightarrow> j < 8 \<Longrightarrow> addr_bits a ! (8 * i + j) = bit (a ! i) (7 - j)"
proof (induction a arbitrary: i)
  case (Cons w a)
  have l: "length (byte_bits w) = 8" by (simp add: byte_bits_def)
  show ?case
  proof (cases i)
    case 0
    with Cons.prems l show ?thesis by (simp add: addr_bits_def nth_append) (simp add: byte_bits_def)
  next
    case (Suc i')
    then have "addr_bits (w # a) ! (8 * i + j) = addr_bits a ! (8 * i' + j)"
      using l by (simp add: addr_bits_def nth_append)
    with Cons Suc show ?thesis by simp
  qed
qed simp

lemma partial_byte: "r < 8 \<Longrightarrow> (0xff - drop_bit r 0xff :: 8 word) = NOT (mask (8 - r))"
proof -
  assume "r < 8"
  then have "r \<in> {0, 1, 2, 3, 4, 5, 6, 7}" by auto
  then show ?thesis by (auto simp: mask_eq_exp_minus_1)
qed

lemma bit_mask_byte: "bit (mask_byte n i) k \<longleftrightarrow> k < 8 \<and> 8 * i + (7 - k) < n"
proof -
  consider "i < n div 8" | "i = n div 8" | "i > n div 8" by linarith
  then show ?thesis
  proof cases
    case 1
    then have "8 * i + 7 < n" by linarith
    moreover have "bit (mask 8 :: 8 word) k \<longleftrightarrow> k < 8" by (simp add: bit_simps)
    then have "bit (0xff :: 8 word) k \<longleftrightarrow> k < 8" by (simp add: mask_eq_exp_minus_1)
    ultimately show ?thesis using 1 by (auto simp: mask_byte_def bit_simps)
  next
    case 2
    define r where "r = n mod 8"
    with 2 have "n = 8 * i + r" "r < 8" by simp_all
    then have "k < 8 \<Longrightarrow> 8 * i + (7 - k) < n \<longleftrightarrow> 8 - r \<le> k" by auto
    moreover have "bit (mask_byte n i) k \<longleftrightarrow> k < 8 \<and> 8 - r \<le> k"
      using 2 \<open>r < 8\<close> by (auto simp: mask_byte_def partial_byte bit_simps r_def [symmetric])
    ultimately show ?thesis by blast
  next
    case 3
    then have "n \<le> 8 * i" by linarith
    with 3 show ?thesis by (simp add: mask_byte_def)
  qed
qed

lemma and_eq_bits: "(x AND m = y AND m) \<longleftrightarrow> (\<forall>k < 8. bit m k \<longrightarrow> bit x k = bit y k)" for x y m :: "8 word"
  by (auto simp: bit_eq_iff bit_simps)

lemma match_host_prefix:
  assumes "length a = L" "length r = L"
  shows "match_host a (map (mask_byte n) [0..<L]) r \<longleftrightarrow> take n (addr_bits a) = take n (addr_bits r)"
proof -
  have "match_host a (map (mask_byte n) [0..<L]) r
      \<longleftrightarrow> (\<forall>i < L. \<forall>k < 8. 8 * i + (7 - k) < n \<longrightarrow> bit (a ! i) k = bit (r ! i) k)"
    using assms(1) by (auto simp: match_host_def list_all_iff and_eq_bits bit_mask_byte)
  also have "\<dots> \<longleftrightarrow> (\<forall>i < L. \<forall>j < 8. 8 * i + j < n \<longrightarrow> bit (a ! i) (7 - j) = bit (r ! i) (7 - j))" (is "?A \<longleftrightarrow> ?B")
  proof
    show ?B if ?A
    proof (intro allI impI)
      fix i j :: nat
      assume "i < L" "j < 8" "8 * i + j < n"
      then show "bit (a ! i) (7 - j) = bit (r ! i) (7 - j)"
        using that [rule_format, of i "7 - j"] by simp
    qed
    show ?A if ?B
    proof (intro allI impI)
      fix i k :: nat
      assume "i < L" "k < 8" "8 * i + (7 - k) < n"
      then show "bit (a ! i) k = bit (r ! i) k"
        using that [rule_format, of i "7 - k"] by simp
    qed
  qed
  also have "\<dots> \<longleftrightarrow> (\<forall>i < L. \<forall>j < 8. 8 * i + j < n \<longrightarrow> addr_bits a ! (8 * i + j) = addr_bits r ! (8 * i + j))"
    using assms by (simp add: addr_bits_nth)
  also have "\<dots> \<longleftrightarrow> (\<forall>p < 8 * L. p < n \<longrightarrow> addr_bits a ! p = addr_bits r ! p)" (is "?C \<longleftrightarrow> ?D")
  proof
    show "?D \<Longrightarrow> ?C" by simp
    show ?D if ?C
    proof (intro allI impI)
      fix p
      assume "p < 8 * L" "p < n"
      then show "addr_bits a ! p = addr_bits r ! p"
        using that [rule_format, of "p div 8" "p mod 8"] by (simp add: less_mult_imp_div_less mult.commute)
    qed
  qed
  also have "\<dots> \<longleftrightarrow> take n (addr_bits a) = take n (addr_bits r)"
    using assms by (auto simp: list_eq_iff_nth_eq)
  finally show ?thesis .
qed

section \<open>The configured networks\<close>

text \<open>
  What an operator writes: an address with a prefix length, a single address, or a range of
  octets followed by stars. An entry holds the address its text stands for.
\<close>

datatype net_entry = Net_Prefix string ip_address nat | Net_Host string ip_address | Net_Range "nat list" nat

fun join_with :: "char \<Rightarrow> string list \<Rightarrow> string" where
  "join_with key [] = []"
| "join_with key [p] = p"
| "join_with key (p # ps) = p @ key # join_with key ps"

fun entry_text :: "net_entry \<Rightarrow> string" where
  "entry_text (Net_Prefix t a n) = t @ ''/'' @ nat_str n"
| "entry_text (Net_Host t a) = t"
| "entry_text (Net_Range octets stars) = join_with (CHR ''.'') (map nat_str octets @ replicate stars ''*'')"

fun addr_len :: "ip_address \<Rightarrow> nat" where
  "addr_len (V4 b) = 4"
| "addr_len (V6 b) = 16"

fun addr_ok :: "ip_address \<Rightarrow> bool" where
  "addr_ok (V4 b) = (length b = 4)"
| "addr_ok (V6 b) = (length b = 16)"

fun entry_net :: "net_entry \<Rightarrow> ip_address \<times> nat" where
  "entry_net (Net_Prefix t a n) = (a, n)"
| "entry_net (Net_Host t a) = (a, 8 * addr_len a)"
| "entry_net (Net_Range octets stars) = (V4 (map of_nat octets @ replicate (4 - length octets) 0), 8 * length octets)"

fun in_net :: "ip_address \<times> nat \<Rightarrow> ip_address \<Rightarrow> bool" where
  "in_net (V4 a, n) (V4 r) = (take n (addr_bits a) = take n (addr_bits r))"
| "in_net (V6 a, n) (V6 r) = (take n (addr_bits a) = take n (addr_bits r))"
| "in_net _ _ = False"

definition blanks :: string where "blanks = [CHR '' '', CHR 0x09, CHR 0x0A, CHR 0x0B, CHR 0x0C, CHR 0x0D]"

definition numeric_text :: "string \<Rightarrow> bool" where
  "numeric_text t \<longleftrightarrow> t \<noteq> [] \<and> (is_digit_char (hd t) \<or> CHR '':'' \<in> set t) \<and>
     list_all (\<lambda>c. c \<notin> set blanks \<and> c \<noteq> CHR '','' \<and> c \<noteq> CHR ''/'' \<and> c \<noteq> CHR ''*'') t"

fun entry_ok :: "net_env \<Rightarrow> net_entry \<Rightarrow> bool" where
  "entry_ok E (Net_Prefix t a n) = (numeric_text t \<and> ne_make_address E t = Inr a \<and> addr_ok a \<and> n < 2 ^ 32)"
| "entry_ok E (Net_Host t a) = (numeric_text t \<and> ne_make_address E t = Inr a \<and> addr_ok a)"
| "entry_ok E (Net_Range octets stars) = (list_all (\<lambda>d. d < 256) octets \<and> 0 < stars \<and> length octets + stars \<le> 4)"

text \<open>
  What the code relies on: \<^verbatim>\<open>trim\<close> keeps a text without blanks, \<^verbatim>\<open>lexical_cast\<close> reads digits, a
  dotted quad is a v4 address and an unmapped address has four bytes.
\<close>

definition net_law :: "net_env \<Rightarrow> bool" where
  "net_law E \<longleftrightarrow>
     (\<forall>s. set s \<inter> set blanks = {} \<longrightarrow> ne_trim E s = s) \<and>
     (\<forall>n < 2 ^ 64. ne_stox_size E (nat_str n) = Inr n) \<and>
     (\<forall>n < 2 ^ 32. ne_stox_uint E (nat_str n) = Inr n) \<and>
     (\<forall>a b c d. a < 256 \<and> b < 256 \<and> c < 256 \<and> d < 256 \<longrightarrow>
        ne_make_address E (join_with (CHR ''.'') (map nat_str [a, b, c, d])) = Inr (V4 (map of_nat [a, b, c, d]))) \<and>
     (\<forall>b b4. ne_mapped_v4 E b = Some b4 \<longrightarrow> length b4 = 4)"

lemma split_join:
  assumes "\<forall>p \<in> set ps. p \<noteq> [] \<and> key \<notin> set p"
  shows "split_lst key (join_with key ps) = ps"
  using assms by (induction ps rule: join_with.induct [of _ key]) (simp_all add: split_lst_simps)

lemma net_lawD:
  assumes "net_law E"
  shows "set s \<inter> set blanks = {} \<Longrightarrow> ne_trim E s = s" "n < 2 ^ 64 \<Longrightarrow> ne_stox_size E (nat_str n) = Inr n"
    "n < 2 ^ 32 \<Longrightarrow> ne_stox_uint E (nat_str n) = Inr n" "ne_mapped_v4 E b = Some b4 \<Longrightarrow> length b4 = 4"
    "a < 256 \<Longrightarrow> b' < 256 \<Longrightarrow> c < 256 \<Longrightarrow> d < 256 \<Longrightarrow>
       ne_make_address E (join_with (CHR ''.'') (map nat_str [a, b', c, d])) = Inr (V4 (map of_nat [a, b', c, d]))"
  using assms unfolding net_law_def by blast+

lemma digits_scan: "takeWhile is_digit_char (nat_str n) = nat_str n" "dropWhile (\<lambda>c. \<not> is_digit_char c) (nat_str n) = nat_str n"
proof -
  show "takeWhile is_digit_char (nat_str n) = nat_str n"
    using nat_str_digits by (simp add: takeWhile_eq_all_conv)
  show "dropWhile (\<lambda>c. \<not> is_digit_char c) (nat_str n) = nat_str n"
    using nat_str_digits [of n] by (cases "nat_str n") auto
qed

lemma slash_no_digit: "\<not> is_digit_char (CHR ''/'')" "\<not> is_digit_char (CHR ''.'')" "\<not> is_digit_char (CHR ''*'')"
    "\<not> is_digit_char (CHR '','')"
  by (simp_all add: is_digit_char_def)

lemma calculate_mask_prefix:
  assumes "net_law E" "n < 2 ^ 32"
  shows "calculate_mask E L (''/'' @ nat_str n) = Inr (map (mask_byte n) [0..<L])"
proof -
  have "n < 2 ^ 64" using assms(2) by simp
  with assms show ?thesis
    by (simp add: calculate_mask_def extract_mask_def Let_def slash_no_digit digits_scan net_lawD(2))
qed

lemma calculate_mask_default: "8 * L < 2 ^ 32 \<Longrightarrow> calculate_mask E L [] = Inr (map (mask_byte (8 * L)) [0..<L])"
  by (simp add: calculate_mask_def extract_mask_def Let_def)

fun put_net :: "string \<Rightarrow> ip_address \<times> nat \<Rightarrow> allowed_hosts_manager \<Rightarrow> allowed_hosts_manager" where
  "put_net t (V4 b, n) h =
     h\<lparr>entries_v4 := entries_v4 h @ [\<lparr>hr_host = t, hr_addr = b, hr_mask = map (mask_byte n) [0..<4]\<rparr>]\<rparr>"
| "put_net t (V6 b, n) h =
     h\<lparr>entries_v6 := entries_v6 h @ [\<lparr>hr_host = t, hr_addr = b, hr_mask = map (mask_byte n) [0..<16]\<rparr>]\<rparr>"

lemma add_entry_run:
  assumes "calculate_mask E (addr_len a) m = Inr (map (mask_byte n) [0..<addr_len a])"
  shows "add_entry E t m a (h, errors) = (Inr (), (put_net t (a, n) h, errors))"
  using assms by (cases a) (simp_all add: add_entry_def bindE_def)

lemma numeric_run:
  assumes "numeric_text t" "ne_make_address E t = Inr a"
    "calculate_mask E (addr_len a) m = Inr (map (mask_byte n) [0..<addr_len a])" "m = [] \<or> (\<exists>x. m = ''/'' @ x)"
  shows "refresh_record E (t @ m) (h, errors) = (Inr (), (put_net (t @ m) (a, n) h, errors))"
proof -
  have t: "CHR ''/'' \<notin> set t" "CHR ''*'' \<notin> set t" "t \<noteq> []"
    using assms(1) by (auto simp: numeric_text_def list_all_iff)
  have u: "upto_sep (CHR ''/'') t = t"
    using t(1) by (auto simp: upto_sep_def takeWhile_eq_all_conv)
  have m: "upto_sep (CHR ''/'') (t @ m) = t"
    "(if CHR ''/'' \<in> set (t @ m) then CHR ''/'' # after_sep (CHR ''/'') (t @ m) else []) = m"
    using assms(4) t(1) u by auto
  have "is_digit_char (hd t) \<or> CHR '':'' \<in> set t"
    using assms(1) by (simp add: numeric_text_def)
  then show ?thesis
    unfolding refresh_record_def Let_def m using t by (simp add: add_numeric_def assms(2) add_entry_run [OF assms(3)])
qed

lemma octet_text:
  assumes "d < 256"
  shows "length (nat_str d) \<le> 3" "list_all is_digit_char (nat_str d)" "nat_str d \<noteq> ''*''"
    "CHR ''.'' \<notin> set (nat_str d)" "CHR ''/'' \<notin> set (nat_str d)" "CHR '','' \<notin> set (nat_str d)" "CHR ''*'' \<notin> set (nat_str d)"
proof -
  have "d div 10 div 10 < 10" using assms by simp
  then show "length (nat_str d) \<le> 3"
    by (cases "d < 10"; cases "d div 10 < 10") (simp_all add: nat_str_rec)
  show "list_all is_digit_char (nat_str d)" "nat_str d \<noteq> ''*''"
    "CHR ''.'' \<notin> set (nat_str d)" "CHR ''/'' \<notin> set (nat_str d)" "CHR '','' \<notin> set (nat_str d)" "CHR ''*'' \<notin> set (nat_str d)"
    using nat_str_digits [of d] slash_no_digit by (auto simp: list_all_iff)
qed

lemma scan_stars: "wildcard_scan E seen n (replicate k ''*'') = Inr (Some (seen \<or> 0 < k, n))"
  by (induction k arbitrary: seen) simp_all

lemma scan_range:
  assumes "net_law E" "list_all (\<lambda>d. d < 256) os"
  shows "wildcard_scan E False n (map nat_str os @ replicate k ''*'') = Inr (Some (0 < k, n + length os))"
  using assms(2)
proof (induction os arbitrary: n)
  case (Cons d os)
  then have "d < 256" by simp
  moreover from this have "ne_stox_uint E (nat_str d) = Inr d"
    by (intro net_lawD(3) [OF assms(1)]) simp
  ultimately show ?case
    using Cons octet_text [of d] by simp
qed (simp add: scan_stars)

lemma dots_join_aux: "r \<noteq> [] \<Longrightarrow> foldl dot_append r ps = r @ concat (map (\<lambda>p. CHR ''.'' # p) ps)"
  by (induction ps arbitrary: r) (simp_all add: dot_append_def)

lemma join_concat: "join_with key (p # ps) = p @ concat (map (\<lambda>q. key # q) ps)"
  by (induction ps arbitrary: p) simp_all

lemma dots_join: "\<forall>p \<in> set ps. p \<noteq> [] \<Longrightarrow> foldl dot_append [] ps = join_with (CHR ''.'') ps"
  by (cases ps) (simp_all add: dots_join_aux join_concat dot_append_def del: join_with.simps(2,3))

lemma join_chars: "c \<noteq> key \<Longrightarrow> c \<in> set (join_with key ps) \<longleftrightarrow> (\<exists>p \<in> set ps. c \<in> set p)"
  by (induction ps rule: join_with.induct [of _ key]) auto

lemma expand_range:
  assumes "net_law E" "entry_ok E (Net_Range os k)"
  shows "expand_wildcard_v4 E (entry_text (Net_Range os k)) =
    Inr (Some (join_with (CHR ''.'') (map nat_str (os @ replicate (4 - length os) 0)), ''/'' @ nat_str (8 * length os)))"
proof -
  let ?ps = "map nat_str os @ replicate k ''*''"
  have ok: "list_all (\<lambda>d. d < 256) os" "0 < k" "length os + k \<le> 4"
    using assms(2) by simp_all
  have pieces: "\<forall>p \<in> set ?ps. p \<noteq> [] \<and> CHR ''.'' \<notin> set p"
    using octet_text(4) ok(1) by (auto simp: list_all_iff)
  have split: "split_lst (CHR ''.'') (entry_text (Net_Range os k)) = ?ps"
    using split_join [OF pieces] by simp
  have zero: "''0'' = nat_str 0" by code_simp
  have "foldl dot_append [] (take (length os) ?ps @ replicate (4 - length os) ''0'')
      = join_with (CHR ''.'') (map nat_str (os @ replicate (4 - length os) 0))"
    unfolding zero by (subst dots_join) (auto simp: map_replicate_const nat_str_nonempty [THEN not_sym])
  then show ?thesis
    using ok unfolding expand_wildcard_v4_def split Let_def scan_range [OF assms(1) ok(1)]
    by (simp add: mult.commute)
qed

lemma range_address:
  assumes "net_law E" "entry_ok E (Net_Range os k)"
  shows "ne_make_address E (join_with (CHR ''.'') (map nat_str (os @ replicate (4 - length os) 0)))
    = Inr (V4 (map of_nat os @ replicate (4 - length os) 0))"
proof -
  let ?q = "os @ replicate (4 - length os) 0"
  have "length ?q = 4" using assms(2) by simp
  then obtain a b c d where q: "?q = [a, b, c, d]"
    by (auto simp: length_Suc_conv numeral_eq_Suc simp del: length_append)
  have "\<forall>x \<in> set ?q. x < 256"
    using assms(2) by (auto simp: list_all_iff)
  then have "a < 256" "b < 256" "c < 256" "d < 256"
    unfolding q by simp_all
  from net_lawD(5) [OF assms(1) this]
  have "ne_make_address E (join_with (CHR ''.'') (map nat_str ?q)) = Inr (V4 (map of_nat ?q))"
    unfolding q by simp
  then show ?thesis by (simp add: map_replicate_const)
qed

lemma record_run:
  assumes "net_law E" "entry_ok E e"
  shows "refresh_record E (entry_text e) (h, errors) = (Inr (), (put_net (entry_text e) (entry_net e) h, errors))"
proof (cases e)
  case (Net_Prefix t a n)
  with assms show ?thesis
    using numeric_run [of t E a "''/'' @ nat_str n" n] calculate_mask_prefix [OF assms(1)] by simp
next
  case (Net_Host t a)
  have "8 * addr_len a < 2 ^ 32" by (cases a) simp_all
  with Net_Host assms show ?thesis
    using numeric_run [of t E a "[]" "8 * addr_len a"] calculate_mask_default by simp
next
  case (Net_Range os k)
  let ?t = "entry_text e"
  have "CHR ''*'' \<in> set ?t" "CHR ''/'' \<notin> set ?t"
    using assms(2) octet_text(5) by (auto simp: Net_Range join_chars list_all_iff)
  then have "upto_sep (CHR ''/'') ?t = ?t" "?t \<noteq> []"
    by (auto simp: upto_sep_def takeWhile_eq_all_conv)
  moreover have "8 * length os < 2 ^ 32"
    using assms(2) Net_Range by simp
  note add_entry_run [of E "V4 (map of_nat os @ replicate (4 - length os) 0)", OF calculate_mask_prefix [OF assms(1) this]]
  ultimately show ?thesis
    using \<open>CHR ''*'' \<in> set ?t\<close> \<open>CHR ''/'' \<notin> set ?t\<close> expand_range [OF assms(1), of os k] range_address [OF assms(1), of os k] assms(2)
    unfolding Net_Range refresh_record_def Let_def
    by (simp add: bindE_def add_numeric_def del: entry_text.simps)
qed

definition put_all :: "net_entry list \<Rightarrow> allowed_hosts_manager \<Rightarrow> allowed_hosts_manager" where
  "put_all es h = foldl (\<lambda>h e. put_net (entry_text e) (entry_net e) h) h es"

lemma put_net_frame [simp]: "sources (put_net t net h) = sources h" "cached (put_net t net h) = cached h"
  by (cases "(t, net, h)" rule: put_net.cases; simp)+

lemma put_all_frame [simp]: "sources (put_all es h) = sources h" "cached (put_all es h) = cached h"
  by (induction es arbitrary: h) (simp_all add: put_all_def)

lemma records_run:
  assumes "net_law E" "\<forall>e \<in> set es. entry_ok E e"
  shows "\<exists>us. mapE (refresh_record E) (map entry_text es) (h, errors) = (Inr us, (put_all es h, errors))"
  using assms(2)
proof (induction es arbitrary: h)
  case (Cons e es)
  then obtain us where "mapE (refresh_record E) (map entry_text es) (put_net (entry_text e) (entry_net e) h, errors)
      = (Inr us, (put_all (e # es) h, errors))"
    by (auto simp: put_all_def)
  then show ?case
    using record_run [OF assms(1), of e h errors] Cons.prems by (simp add: bindE_def)
qed (simp add: put_all_def)

lemma refresh_run:
  assumes "net_law E" "\<forall>e \<in> set es. entry_ok E e" "sources h = map entry_text es"
  shows "refresh E (h, errors) = (Inr (), (put_all es (h\<lparr>entries_v4 := [], entries_v6 := []\<rparr>), errors))"
  using records_run [OF assms(1,2), of "h\<lparr>entries_v4 := [], entries_v6 := []\<rparr>" errors] assms(3)
  by (auto simp: refresh_def bindE_def)

lemma put_net_decides:
  assumes "addr_ok (fst net)"
  shows "length r = 4 \<Longrightarrow> is_allowed_v4 (put_net t net h) r \<longleftrightarrow> is_allowed_v4 h r \<or> in_net net (V4 r)"
    "length r = 16 \<Longrightarrow> is_allowed_v6 (put_net t net h) r \<longleftrightarrow> is_allowed_v6 h r \<or> in_net net (V6 r)"
  using assms by (cases "(t, net, h)" rule: put_net.cases;
    simp add: is_allowed_v4_def is_allowed_v6_def match_host_prefix disj_commute)+

lemma entry_net_ok: "entry_ok E e \<Longrightarrow> addr_ok (fst (entry_net e))"
  by (cases e) simp_all

lemma put_all_decides:
  assumes "\<forall>e \<in> set es. entry_ok E e"
  shows "length r = 4 \<Longrightarrow> is_allowed_v4 (put_all es h) r \<longleftrightarrow> is_allowed_v4 h r \<or> (\<exists>e \<in> set es. in_net (entry_net e) (V4 r))"
    "length r = 16 \<Longrightarrow> is_allowed_v6 (put_all es h) r \<longleftrightarrow> is_allowed_v6 h r \<or> (\<exists>e \<in> set es. in_net (entry_net e) (V6 r))"
  using assms by (induction es arbitrary: h) (auto simp: put_all_def put_net_decides entry_net_ok)

text \<open>The addresses a client is matched as: a v4 client of a dual-stack listener counts as both.\<close>

fun client_forms :: "net_env \<Rightarrow> ip_address \<Rightarrow> ip_address list" where
  "client_forms E (V4 b) = [V4 b]"
| "client_forms E (V6 b) = V6 b # (case ne_mapped_v4 E b of None \<Rightarrow> [] | Some b4 \<Rightarrow> [V4 b4])"

lemma allowed_now_forms:
  assumes "net_law E" "\<forall>e \<in> set es. entry_ok E e" "addr_ok remote"
  shows "allowed_now E (put_all es (h\<lparr>entries_v4 := [], entries_v6 := []\<rparr>)) remote
    \<longleftrightarrow> (\<exists>e \<in> set es. \<exists>a \<in> set (client_forms E remote). in_net (entry_net e) a)"
proof -
  let ?h = "put_all es (h\<lparr>entries_v4 := [], entries_v6 := []\<rparr>)"
  have v4: "length r = 4 \<Longrightarrow> is_allowed_v4 ?h r \<longleftrightarrow> (\<exists>e \<in> set es. in_net (entry_net e) (V4 r))"
    and v6: "length r = 16 \<Longrightarrow> is_allowed_v6 ?h r \<longleftrightarrow> (\<exists>e \<in> set es. in_net (entry_net e) (V6 r))" for r
    by (simp_all add: put_all_decides [OF assms(2)]) (simp_all add: is_allowed_v4_def is_allowed_v6_def)
  have e: "entries_v4 ?h = [] \<Longrightarrow> \<not> is_allowed_v4 ?h r" "entries_v6 ?h = [] \<Longrightarrow> \<not> is_allowed_v6 ?h r" for r
    by (simp_all add: is_allowed_v4_def is_allowed_v6_def)
  have "allowed_now E ?h remote \<longleftrightarrow> (case remote of V4 b \<Rightarrow> is_allowed_v4 ?h b
      | V6 b \<Rightarrow> is_allowed_v6 ?h b \<or> (case ne_mapped_v4 E b of None \<Rightarrow> False | Some b4 \<Rightarrow> is_allowed_v4 ?h b4))"
    using e by (auto simp: allowed_now_def split: ip_address.splits option.splits)
  then show ?thesis
    using assms(3) v4 v6 net_lawD(4) [OF assms(1)] by (cases remote) (auto split: option.splits)
qed

lemma entry_text_plain:
  assumes "entry_ok E e"
  shows "entry_text e \<noteq> []" "CHR '','' \<notin> set (entry_text e)" "set (entry_text e) \<inter> set blanks = {}"
proof -
  have d: "set (nat_str n) \<inter> set blanks = {}" "CHR '','' \<notin> set (nat_str n)" for n
    using nat_str_digits [of n] by (auto simp: blanks_def is_digit_char_def)
  have s: "CHR ''/'' \<notin> set blanks" "CHR ''.'' \<notin> set blanks" "CHR ''*'' \<notin> set blanks"
    by (simp_all add: blanks_def)
  have "entry_text e \<noteq> [] \<and> CHR '','' \<notin> set (entry_text e) \<and> set (entry_text e) \<inter> set blanks = {}"
  proof (cases e)
    case (Net_Range os k)
    with assms have k: "0 < k" by simp
    then have "CHR ''*'' \<in> set (entry_text e)" by (auto simp: Net_Range join_chars)
    moreover have "c \<in> set (entry_text e) \<Longrightarrow> c = CHR ''.'' \<or> c = CHR ''*'' \<or> (\<exists>n. c \<in> set (nat_str n))" for c
      by (cases "c = CHR ''.''") (auto simp: Net_Range join_chars)
    ultimately show ?thesis using d s by fastforce
  qed (use assms d s in \<open>auto simp: numeric_text_def list_all_iff\<close>)
  then show "entry_text e \<noteq> []" "CHR '','' \<notin> set (entry_text e)" "set (entry_text e) \<inter> set blanks = {}"
    by blast+
qed

lemma configured_sources:
  assumes "net_law E" "\<forall>e \<in> set es. entry_ok E e"
  shows "sources (set_source E (join_with (CHR '','') (map entry_text es)) h) = map entry_text es"
proof -
  have "split_lst (CHR '','') (join_with (CHR '','') (map entry_text es)) = map entry_text es"
    using entry_text_plain assms(2) by (intro split_join) auto
  moreover have "map (ne_trim E) (map entry_text es) = map entry_text es"
    using net_lawD(1) [OF assms(1) entry_text_plain(3) [of E]] assms(2) by simp
  moreover have "filter (\<lambda>s. s \<noteq> []) (map entry_text es) = map entry_text es"
    using entry_text_plain(1) assms(2) by (intro filter_True) auto
  ultimately show ?thesis
    unfolding set_source_def by (simp del: map_map filter_map)
qed

text \<open>
  C7. The list means what it says: reading a comma-separated list of prefixes, addresses and star
  ranges reports no problem, and afterwards a client is accepted exactly when the leading bits of
  its address, as many as the prefix length says, agree with one of the entries - whether or not
  the list is read again for every client. An empty list accepts nobody; a v4 client that
  arrives as a mapped v6 address is also looked up as v4.
\<close>

theorem allowed_hosts_exact:
  assumes "net_law E" and "\<forall>e \<in> set es. entry_ok E e" and "addr_ok remote"
  shows "\<exists>h'. refresh E (set_source E (join_with (CHR '','') (map entry_text es)) h, errors) = (Inr (), (h', errors)) \<and>
    fst (is_allowed E remote (h', errors)) = Inr (\<exists>e \<in> set es. \<exists>a \<in> set (client_forms E remote). in_net (entry_net e) a)"
proof -
  let ?h = "set_source E (join_with (CHR '','') (map entry_text es)) h"
  let ?h' = "put_all es (?h\<lparr>entries_v4 := [], entries_v6 := []\<rparr>)"
  note src = configured_sources [OF assms(1,2), of h]
  have "refresh E (?h, errors) = (Inr (), (?h', errors))"
    by (rule refresh_run [OF assms(1,2) src])
  moreover have "refresh E (?h', errors) = (Inr (), (put_all es (?h'\<lparr>entries_v4 := [], entries_v6 := []\<rparr>), errors))"
    by (rule refresh_run [OF assms(1,2)]) (simp add: src)
  ultimately show ?thesis
    by (intro exI [of _ ?h'] conjI)
      (simp_all add: is_allowed_def seqE_def bindE_def allowed_now_forms [OF assms])
qed

definition sample_net :: net_env where
  "sample_net = \<lparr>
     ne_make_address = (\<lambda>t. let ps = map digits_val (split_lst (CHR ''.'') t)
       in if length ps = 4 then Inr (V4 (map of_nat ps)) else Inl ''invalid argument''),
     ne_resolve = (\<lambda>t. Inl (Std_Exception ''host not found'')),
     ne_mapped_v4 = (\<lambda>b. if length b = 16 \<and> take 12 b = replicate 10 0 @ [0xff, 0xff] then Some (drop 12 b) else None),
     ne_stox_size = (\<lambda>s. Inr (digits_val s)), ne_stox_uint = (\<lambda>s. Inr (digits_val s)), ne_trim = (\<lambda>s. s)\<rparr>"

lemma sample_net_law: "net_law sample_net"
proof -
  have "CHR ''.'' \<notin> set (nat_str n)" for n
    using nat_str_digits slash_no_digit(2) by blast
  then have "split_lst (CHR ''.'') (join_with (CHR ''.'') (map nat_str ps)) = map nat_str ps" for ps
    by (intro split_join) auto
  from this [of "[a, b, c, d]" for a b c d] show ?thesis
    by (auto simp: net_law_def sample_net_def Let_def split: if_splits)
qed

definition sample_entries :: "net_entry list" where
  "sample_entries = [Net_Prefix ''10.0.0.0'' (V4 [10, 0, 0, 0]) 8, Net_Range [192, 168] 2]"

lemma sample_entries_ok: "\<forall>e \<in> set sample_entries. entry_ok sample_net e"
proof -
  have "numeric_text ''10.0.0.0''" by code_simp
  moreover have "ne_make_address sample_net ''10.0.0.0'' = Inr (V4 [10, 0, 0, 0])" by code_simp
  ultimately show ?thesis by (simp add: sample_entries_def)
qed

theorem allowed_hosts_exact_witness:
  "\<exists>h'. refresh sample_net (set_source sample_net ''10.0.0.0/8,192.168.*.*'' new_allowed_hosts, []) = (Inr (), (h', [])) \<and>
    fst (is_allowed sample_net (V4 [192, 168, 7, 9]) (h', [])) = Inr True"
proof -
  have "join_with (CHR '','') (map entry_text sample_entries) = ''10.0.0.0/8,192.168.*.*''"
    by code_simp
  moreover have "\<exists>e \<in> set sample_entries. \<exists>a \<in> set (client_forms sample_net (V4 [192, 168, 7, 9])). in_net (entry_net e) a"
    by code_simp
  ultimately show ?thesis
    using allowed_hosts_exact [OF sample_net_law sample_entries_ok, of "V4 [192, 168, 7, 9]" new_allowed_hosts "[]"] by simp
qed

section \<open>Dotted netmasks\<close>

lemma addr_bits_inj: "length a = length b \<Longrightarrow> addr_bits a = addr_bits b \<longleftrightarrow> a = b"
proof (induction a b rule: list_induct2)
  case (Cons x a y b)
  have "byte_bits w ! (7 - k) = bit w k" if "k < 8" for w k
    using that nth_upt [of 0 "7 - k" 8] by (simp add: byte_bits_def)
  then have "byte_bits x = byte_bits y \<Longrightarrow> bit x k = bit y k" if "k < 8" for k
    using that by metis
  then have "byte_bits x = byte_bits y \<longleftrightarrow> x = y"
    by (intro iffI bit_word_eqI) simp_all
  moreover have "length (byte_bits x) = length (byte_bits y)"
    by (simp add: byte_bits_def)
  ultimately show ?case
    using Cons.IH by (simp add: addr_bits_def)
qed (simp add: addr_bits_def)

text \<open>
  C13. A dotted netmask does not select a network: of 192.168.0.0/255.255.0.0 only the digits 255 are
  read, as a prefix length. The entry is accepted without an error and lets in the one address
  192.168.0.0, nobody else of that network.
\<close>

theorem dotted_netmask_is_one_host:
  assumes "net_law E" and "numeric_text t" and "ne_make_address E t = Inr (V4 a)" and "length a = 4"
    and "32 \<le> d" and "d < 256"
  shows "\<exists>h'. refresh_record E (t @ ''/'' @ nat_str d @ ''.'' @ octets) (h, errors) = (Inr (), (h', errors)) \<and>
    (\<forall>r. length r = 4 \<longrightarrow> is_allowed_v4 h' r = (is_allowed_v4 h r \<or> r = a))"
proof -
  let ?m = "''/'' @ nat_str d @ ''.'' @ octets"
  have "takeWhile is_digit_char (nat_str d @ ''.'' @ octets) = nat_str d"
    using nat_str_digits [of d] by (subst takeWhile_append2) (simp_all add: slash_no_digit)
  moreover have "dropWhile (\<lambda>c. \<not> is_digit_char c) (nat_str d @ ''.'' @ octets) = nat_str d @ ''.'' @ octets"
    using nat_str_digits [of d] by (cases "nat_str d") auto
  moreover have "ne_stox_size E (nat_str d) = Inr d"
    by (rule net_lawD(2) [OF assms(1)]) (use assms(6) in simp)
  ultimately have m: "calculate_mask E (addr_len (V4 a)) ?m = Inr (map (mask_byte d) [0..<addr_len (V4 a)])"
    using assms(6) by (simp add: calculate_mask_def extract_mask_def Let_def slash_no_digit)
  have "take d (addr_bits a) = take d (addr_bits r) \<longleftrightarrow> r = a" if "length r = 4" for r
    using that assms(4,5) addr_bits_inj [of a r] by auto
  then show ?thesis
    using numeric_run [OF assms(2,3) m] assms(4) put_net_decides(1) [of "(V4 a, d)"] by (auto simp del: put_net.simps)
qed

theorem dotted_netmask_is_one_host_witness:
  "\<exists>h'. refresh_record sample_net ''10.0.0.0/255.0.0.0'' (new_allowed_hosts, []) = (Inr (), (h', [])) \<and>
    is_allowed_v4 h' [10, 0, 0, 0] \<and> \<not> is_allowed_v4 h' [10, 0, 0, 1]"
proof -
  have t: "''10.0.0.0'' @ ''/'' @ nat_str 255 @ ''.'' @ ''0.0.0'' = ''10.0.0.0/255.0.0.0''"
    "numeric_text ''10.0.0.0''" "ne_make_address sample_net ''10.0.0.0'' = Inr (V4 [10, 0, 0, 0])"
    "\<not> is_allowed_v4 new_allowed_hosts [10, 0, 0, 1]"
    by code_simp+
  obtain h' where h: "refresh_record sample_net ''10.0.0.0/255.0.0.0'' (new_allowed_hosts, []) = (Inr (), (h', []))"
    "\<forall>r. length r = 4 \<longrightarrow> is_allowed_v4 h' r = (is_allowed_v4 new_allowed_hosts r \<or> r = [10, 0, 0, 0])"
    using dotted_netmask_is_one_host [OF sample_net_law t(2,3), of 255 "''0.0.0''" new_allowed_hosts "[]"] unfolding t(1) by auto
  then show ?thesis
    using t(4) by (intro exI [of _ h']) simp
qed

end
