(* ===== verification/Auth_Rate_Limiter.thy ===== *)
theory Auth_Rate_Limiter
  imports Prelude
begin

text \<open>
  The limiter of failed logins (\<^verbatim>\<open>include/net/auth_rate_limiter.hpp\<close>) that the web server and the
  NCPA server ask before they check a password. The map from addresses to entries is a partial
  function; \<^verbatim>\<open>std::time\<close> is an argument. Times are \<open>int\<close>: seconds do not exhaust the 64 bits
  of \<^verbatim>\<open>time_t\<close>.
\<close>

section \<open>Operations\<close>

definition kDefaultMaxFailures :: int where "kDefaultMaxFailures = 10"
definition kDefaultBlockSeconds :: int where "kDefaultBlockSeconds = 60"
definition kMaxBackoffShift :: int where "kMaxBackoffShift = 6"
definition kMaxBlockSeconds :: int where "kMaxBlockSeconds = 3600"
definition kOffenseDecaySeconds :: int where "kOffenseDecaySeconds = 3600"
definition kBurstGapSeconds :: int where "kBurstGapSeconds = 2"

record rate_entry =
  failures :: int
  offenses :: int
  first_failure :: int
  blocked_until :: int

definition new_entry :: rate_entry where
  "new_entry = \<lparr>failures = 0, offenses = 0, first_failure = 0, blocked_until = 0\<rparr>"

record rate_limiter =
  rl_entries :: "string \<rightharpoonup> rate_entry"
  max_failures :: int
  block_seconds :: int

definition new_limiter :: rate_limiter where
  "new_limiter = \<lparr>rl_entries = Map.empty, max_failures = kDefaultMaxFailures, block_seconds = kDefaultBlockSeconds\<rparr>"

definition set_max_failures :: "int \<Rightarrow> rate_limiter \<Rightarrow> rate_limiter" where
  "set_max_failures v L = L\<lparr>max_failures := v\<rparr>"

definition set_block_seconds :: "int \<Rightarrow> rate_limiter \<Rightarrow> rate_limiter" where
  "set_block_seconds v L = L\<lparr>block_seconds := v\<rparr>"

definition is_blocked :: "rate_limiter \<Rightarrow> string \<Rightarrow> int \<Rightarrow> bool" where
  "is_blocked L ip now =
     (if max_failures L \<le> 0 then False
      else case rl_entries L ip of None \<Rightarrow> False | Some e \<Rightarrow> blocked_until e > now)"

definition is_burst :: "rate_limiter \<Rightarrow> int \<Rightarrow> bool" where
  "is_burst L elapsed = (let gaps = (if max_failures L > 1 then max_failures L - 1 else 1) in elapsed < gaps * kBurstGapSeconds)"

fun double_delay :: "nat \<Rightarrow> int \<Rightarrow> int" where
  "double_delay 0 delay = delay"
| "double_delay (Suc n) delay = (if delay < kMaxBlockSeconds then double_delay n (delay * 2) else delay)"

definition block_duration_seconds :: "int \<Rightarrow> int \<Rightarrow> int" where
  "block_duration_seconds base_seconds k =
     (if base_seconds \<le> 0 then 0
      else if base_seconds \<ge> kMaxBlockSeconds then base_seconds
      else let doublings = (if k > 0 then k - 1 else 0);
               doublings' = (if doublings > kMaxBackoffShift then kMaxBackoffShift else doublings);
               delay = double_delay (nat doublings') base_seconds
           in if delay > kMaxBlockSeconds then kMaxBlockSeconds else delay)"

definition fail_entry :: "rate_limiter \<Rightarrow> int \<Rightarrow> rate_entry \<Rightarrow> rate_entry" where
  "fail_entry L now e0 =
     (let e1 = (if blocked_until e0 \<noteq> 0 \<and> now > blocked_until e0 + kOffenseDecaySeconds then e0\<lparr>offenses := 0\<rparr> else e0);
          e2 = (if failures e1 = 0 then e1\<lparr>first_failure := now\<rparr> else e1);
          e3 = e2\<lparr>failures := failures e2 + 1\<rparr>
      in if failures e3 \<ge> max_failures L
         then let e4 = (if is_burst L (now - first_failure e3)
                        then if offenses e3 < kMaxBackoffShift + 1 then e3\<lparr>offenses := offenses e3 + 1\<rparr> else e3
                        else e3\<lparr>offenses := 1\<rparr>)
              in e4\<lparr>blocked_until := now + block_duration_seconds (block_seconds L) (offenses e4),
                   failures := 0, first_failure := 0\<rparr>
         else e3)"

definition record_failure_at :: "rate_limiter \<Rightarrow> string \<Rightarrow> int \<Rightarrow> rate_limiter" where
  "record_failure_at L ip now =
     (if max_failures L \<le> 0 then L
      else let e = (case rl_entries L ip of None \<Rightarrow> new_entry | Some e \<Rightarrow> e)
           in L\<lparr>rl_entries := (rl_entries L)(ip \<mapsto> fail_entry L now e)\<rparr>)"

definition record_success :: "rate_limiter \<Rightarrow> string \<Rightarrow> rate_limiter" where
  "record_success L ip = L\<lparr>rl_entries := (rl_entries L)(ip := None)\<rparr>"

definition clear_limiter :: "rate_limiter \<Rightarrow> rate_limiter" where
  "clear_limiter L = L\<lparr>rl_entries := Map.empty\<rparr>"

definition blocked_until_of :: "rate_limiter \<Rightarrow> string \<Rightarrow> int" where
  "blocked_until_of L ip = (case rl_entries L ip of None \<Rightarrow> 0 | Some e \<Rightarrow> blocked_until e)"

section \<open>Block durations\<close>

lemma double_delay_min: "0 < d \<Longrightarrow> min (double_delay n d) kMaxBlockSeconds = min (d * 2 ^ n) kMaxBlockSeconds"
proof (induction n arbitrary: d)
  case (Suc n)
  have "d \<le> d * 2 ^ Suc n"
    using Suc.prems mult_left_mono [OF one_le_power [of "2 :: int" "Suc n"], of d] by simp
  then have "\<not> d < kMaxBlockSeconds \<Longrightarrow> min (d * 2 ^ Suc n) kMaxBlockSeconds = kMaxBlockSeconds"
    by (intro min_absorb2) linarith
  with Suc.prems Suc.IH [of "d * 2"] show ?case
    by (cases "d < kMaxBlockSeconds") (simp_all add: mult.assoc min_absorb2)
qed simp

lemma block_duration_closed_form:
  assumes "0 < base" "base < kMaxBlockSeconds"
  shows "block_duration_seconds base k = min (base * 2 ^ nat (min (k - 1) 6)) kMaxBlockSeconds"
proof -
  have shift: "nat (if kMaxBackoffShift < (if 0 < k then k - 1 else 0) then kMaxBackoffShift else if 0 < k then k - 1 else 0)
    = nat (min (k - 1) 6)"
    by (auto simp: kMaxBackoffShift_def)
  have "block_duration_seconds base k = min (double_delay (nat (min (k - 1) 6)) base) kMaxBlockSeconds"
    unfolding block_duration_seconds_def Let_def shift using assms by auto
  then show ?thesis
    by (simp only: double_delay_min [OF assms(1)])
qed

lemma block_duration_ge: "0 < base \<Longrightarrow> base \<le> block_duration_seconds base k"
proof (cases "base < kMaxBlockSeconds")
  case True
  assume "0 < base"
  moreover have "(1::int) \<le> 2 ^ nat (min (k - 1) 6)"
    by simp
  ultimately show ?thesis
    using True by (simp add: block_duration_closed_form mult_le_cancel_left1)
qed (simp add: block_duration_seconds_def)

lemma block_duration_first: "0 < base \<Longrightarrow> block_duration_seconds base 1 = base"
  by (cases "base < kMaxBlockSeconds") (simp_all add: block_duration_closed_form, simp add: block_duration_seconds_def)

lemma block_duration_le: "block_duration_seconds base k \<le> max base kMaxBlockSeconds"
  by (simp add: block_duration_seconds_def Let_def kMaxBlockSeconds_def)

section \<open>Reachable limiters\<close>

text \<open>
  Everything that can happen to a limiter while the clock advances, \<open>B\<close> being the longest
  \<^verbatim>\<open>block seconds\<close> ever configured.
\<close>

inductive limiter_reach :: "int \<Rightarrow> int \<Rightarrow> rate_limiter \<Rightarrow> bool" for B where
  start: "kDefaultBlockSeconds \<le> B \<Longrightarrow> 0 \<le> now \<Longrightarrow> limiter_reach B now new_limiter"
| tick: "limiter_reach B now L \<Longrightarrow> now \<le> later \<Longrightarrow> limiter_reach B later L"
| failure: "limiter_reach B now L \<Longrightarrow> limiter_reach B now (record_failure_at L ip now)"
| success: "limiter_reach B now L \<Longrightarrow> limiter_reach B now (record_success L ip)"
| cleared: "limiter_reach B now L \<Longrightarrow> limiter_reach B now (clear_limiter L)"
| limit: "limiter_reach B now L \<Longrightarrow> limiter_reach B now (set_max_failures v L)"
| block: "limiter_reach B now L \<Longrightarrow> v \<le> B \<Longrightarrow> limiter_reach B now (set_block_seconds v L)"

definition entry_ok :: "int \<Rightarrow> int \<Rightarrow> rate_entry \<Rightarrow> bool" where
  "entry_ok B now e \<longleftrightarrow> 0 \<le> failures e \<and> 0 \<le> offenses e \<and> offenses e \<le> kMaxBackoffShift + 1 \<and>
     first_failure e \<le> now \<and> blocked_until e \<le> now + max B kMaxBlockSeconds"

definition limiter_ok :: "int \<Rightarrow> int \<Rightarrow> rate_limiter \<Rightarrow> bool" where
  "limiter_ok B now L \<longleftrightarrow> 0 \<le> now \<and> 0 \<le> B \<and> block_seconds L \<le> B \<and> (\<forall>ip e. rl_entries L ip = Some e \<longrightarrow> entry_ok B now e)"

lemma fail_entry_ok:
  assumes "entry_ok B now e" "0 \<le> now" "block_seconds L \<le> B"
  shows "entry_ok B now (fail_entry L now e)"
proof -
  have "block_duration_seconds (block_seconds L) k \<le> max B kMaxBlockSeconds" for k
    using block_duration_le [of "block_seconds L" k] assms(3) by linarith
  then show ?thesis
    using assms(1,2) by (auto simp: entry_ok_def fail_entry_def Let_def kMaxBackoffShift_def)
qed

lemma new_entry_ok: "0 \<le> now \<Longrightarrow> 0 \<le> B \<Longrightarrow> entry_ok B now new_entry"
  by (simp add: entry_ok_def new_entry_def kMaxBackoffShift_def)

lemma limiter_reach_ok: "limiter_reach B now L \<Longrightarrow> limiter_ok B now L"
proof (induction rule: limiter_reach.induct)
  case (tick now L later)
  then show ?case
    by (fastforce simp: limiter_ok_def entry_ok_def)
next
  case (failure now L ip)
  then have "entry_ok B now (case rl_entries L ip of None \<Rightarrow> new_entry | Some e \<Rightarrow> e)"
    by (auto simp: limiter_ok_def new_entry_ok split: option.splits)
  with failure.IH show ?case
    by (auto simp: limiter_ok_def record_failure_at_def Let_def fail_entry_ok)
qed (auto simp: limiter_ok_def new_limiter_def kDefaultBlockSeconds_def record_success_def clear_limiter_def
  set_max_failures_def set_block_seconds_def split: if_splits)

text \<open>
  In every reachable limiter, through any mixture of failures, successes and changes of the
  settings, no address is locked out for longer than an hour (or the longest configured block)
  from now, the escalation stays within its seven steps, and no count is negative.
\<close>

theorem lockout_bounded:
  assumes "limiter_reach B now L" and "rl_entries L ip = Some e"
  shows "blocked_until e \<le> now + max B kMaxBlockSeconds \<and> 0 \<le> failures e \<and> 0 \<le> offenses e \<and> offenses e \<le> 7"
  using limiter_reach_ok [OF assms(1)] assms(2) by (fastforce simp: limiter_ok_def entry_ok_def kMaxBackoffShift_def)

theorem lockout_bounded_witness:
  "\<exists>e. rl_entries (record_failure_at (set_max_failures 1 new_limiter) ''10.0.0.1'' 1000) ''10.0.0.1'' = Some e \<and>
     blocked_until e \<le> 1000 + 3600"
proof -
  let ?L = "record_failure_at (set_max_failures 1 new_limiter) ''10.0.0.1'' 1000"
  have "limiter_reach 60 1000 ?L"
    by (intro failure limit start) (simp_all add: kDefaultBlockSeconds_def)
  moreover obtain e where "rl_entries ?L ''10.0.0.1'' = Some e"
    by (simp add: record_failure_at_def set_max_failures_def)
  ultimately show ?thesis
    using lockout_bounded [of 60 1000 ?L "''10.0.0.1''" e] by (auto simp: kMaxBlockSeconds_def)
qed

section \<open>The rate of guesses\<close>

text \<open>
  Logins as the servers perform them: the limiter is asked first, and only an attempt it lets
  through reaches the password and is recorded.
\<close>

datatype login_event = Wrong string int | Right string int

primrec try_login :: "login_event \<Rightarrow> rate_limiter \<Rightarrow> bool \<times> rate_limiter" where
  "try_login (Wrong ip t) L = (if is_blocked L ip t then (False, L) else (True, record_failure_at L ip t))"
| "try_login (Right ip t) L = (if is_blocked L ip t then (False, L) else (True, record_success L ip))"

primrec is_wrong :: "string \<Rightarrow> login_event \<Rightarrow> bool" where
  "is_wrong ip (Wrong ip' t) = (ip' = ip)"
| "is_wrong ip (Right ip' t) = False"

fun guesses :: "string \<Rightarrow> login_event list \<Rightarrow> rate_limiter \<Rightarrow> int" where
  "guesses ip [] L = 0"
| "guesses ip (ev # evs) L =
     (case try_login ev L of (passed, L') \<Rightarrow> (if passed \<and> is_wrong ip ev then 1 else 0) + guesses ip evs L')"

definition entry_of :: "rate_limiter \<Rightarrow> string \<Rightarrow> rate_entry" where
  "entry_of L ip = (case rl_entries L ip of None \<Rightarrow> new_entry | Some e \<Rightarrow> e)"

lemma record_failure_entry:
  "0 < max_failures L \<Longrightarrow> rl_entries (record_failure_at L ip t) = (rl_entries L)(ip \<mapsto> fail_entry L t (entry_of L ip))"
  "max_failures (record_failure_at L ip t) = max_failures L" "block_seconds (record_failure_at L ip t) = block_seconds L"
  by (simp_all add: record_failure_at_def entry_of_def Let_def)

lemma is_blocked_entry: "0 < max_failures L \<Longrightarrow> 0 \<le> t \<Longrightarrow> is_blocked L ip t \<longleftrightarrow> t < blocked_until (entry_of L ip)"
  by (simp add: is_blocked_def entry_of_def new_entry_def split: option.splits)

lemma fail_entry_counts:
  "failures e + 1 < max_failures L \<Longrightarrow> failures (fail_entry L t e) = failures e + 1 \<and> blocked_until (fail_entry L t e) = blocked_until e"
  "max_failures L \<le> failures e + 1 \<Longrightarrow> 0 < block_seconds L \<Longrightarrow>
     failures (fail_entry L t e) = 0 \<and> t + block_seconds L \<le> blocked_until (fail_entry L t e)"
  by (simp_all add: fail_entry_def Let_def block_duration_ge)

text \<open>After \<open>n\<close> guesses: \<open>k\<close> full runs, each of which ended in a block, and the run that is open.\<close>

definition paced :: "int \<Rightarrow> int \<Rightarrow> rate_limiter \<Rightarrow> rate_entry \<Rightarrow> bool" where
  "paced t0 n L e \<longleftrightarrow> 0 \<le> failures e \<and> failures e < max_failures L \<and> (\<exists>k \<ge> 0. n = max_failures L * k + failures e \<and>
     (k = 0 \<and> blocked_until e = 0 \<or> t0 + k * block_seconds L \<le> blocked_until e))"

lemma paced_guess:
  assumes "paced t0 n L e" "blocked_until e \<le> t" "t0 \<le> t" "t \<le> t1" "0 < block_seconds L"
  shows "paced t0 (n + 1) L (fail_entry L t e) \<and> n + 1 \<le> max_failures L * (1 + (t1 - t0) div block_seconds L)"
proof -
  obtain k where k: "0 \<le> k" "n = max_failures L * k + failures e"
    "k = 0 \<and> blocked_until e = 0 \<or> t0 + k * block_seconds L \<le> blocked_until e"
    and f: "0 \<le> failures e" "failures e < max_failures L"
    using assms(1) by (auto simp: paced_def)
  have reached: "t0 + k * block_seconds L \<le> t"
    using k(3) assms(2,3) by auto
  then have "k \<le> (t1 - t0) div block_seconds L"
    using assms(4,5) zdiv_mono1 [of "k * block_seconds L" "t1 - t0" "block_seconds L"] by simp
  then have "max_failures L * (1 + k) \<le> max_failures L * (1 + (t1 - t0) div block_seconds L)"
    using f by (intro mult_left_mono) auto
  moreover have "n + 1 \<le> max_failures L * (1 + k)"
    using k(2) f by (simp add: distrib_left)
  ultimately have bound: "n + 1 \<le> max_failures L * (1 + (t1 - t0) div block_seconds L)"
    by linarith
  have "paced t0 (n + 1) L (fail_entry L t e)"
  proof (cases "failures e + 1 < max_failures L")
    case True
    then show ?thesis
      using k f fail_entry_counts(1) [OF True, of t] by (auto simp: paced_def)
  next
    case False
    then have "n + 1 = max_failures L * (k + 1)" "t0 + (k + 1) * block_seconds L \<le> t + block_seconds L"
      using k(2) f reached by (auto simp: distrib_left distrib_right)
    then show ?thesis
      using k(1) f fail_entry_counts(2) [of L e t] False assms(5) by (auto simp: paced_def intro!: exI [of _ "k + 1"])
  qed
  with bound show ?thesis by blast
qed

definition allowed_event :: "string \<Rightarrow> int \<Rightarrow> int \<Rightarrow> login_event \<Rightarrow> bool" where
  "allowed_event ip t0 t1 ev \<longleftrightarrow> (case ev of Wrong ip' t \<Rightarrow> ip' = ip \<longrightarrow> t0 \<le> t \<and> t \<le> t1 | Right ip' t \<Rightarrow> ip' \<noteq> ip)"

lemma other_login:
  assumes "allowed_event ip t0 t1 ev" "\<not> is_wrong ip ev"
  shows "entry_of (snd (try_login ev L)) ip = entry_of L ip" "max_failures (snd (try_login ev L)) = max_failures L"
    "block_seconds (snd (try_login ev L)) = block_seconds L"
  using assms by (cases ev;
    auto simp: allowed_event_def entry_of_def record_failure_at_def record_success_def Let_def split: if_splits)+

lemma guesses_paced:
  assumes "\<forall>ev \<in> set evs. allowed_event ip t0 t1 ev" "paced t0 n L (entry_of L ip)" "0 < block_seconds L" "0 \<le> t0"
    and "n \<le> max_failures L * (1 + (t1 - t0) div block_seconds L)"
  shows "n + guesses ip evs L \<le> max_failures L * (1 + (t1 - t0) div block_seconds L)"
  using assms
proof (induction evs arbitrary: n L)
  case (Cons ev evs)
  let ?L = "snd (try_login ev L)"
  have allowed: "allowed_event ip t0 t1 ev"
    using Cons.prems(1) by simp
  show ?case
  proof (cases "fst (try_login ev L) \<and> is_wrong ip ev")
    case True
    then obtain t where ev: "ev = Wrong ip t" "\<not> is_blocked L ip t"
      by (cases ev) (auto split: if_splits)
    then have L: "?L = record_failure_at L ip t" and t: "t0 \<le> t" "t \<le> t1"
      using allowed by (auto simp: allowed_event_def)
    have M: "0 < max_failures L"
      using Cons.prems(2) by (auto simp: paced_def)
    have "blocked_until (entry_of L ip) \<le> t"
      using ev(2) M t(1) Cons.prems(4) by (simp add: is_blocked_entry)
    from paced_guess [OF Cons.prems(2) this t Cons.prems(3)]
    have "paced t0 (n + 1) ?L (entry_of ?L ip)" "n + 1 \<le> max_failures L * (1 + (t1 - t0) div block_seconds L)"
      using M by (auto simp: L record_failure_entry paced_def entry_of_def)
    with Cons.IH [of "n + 1" ?L] Cons.prems True show ?thesis
      by (simp add: L record_failure_entry split_beta)
  next
    case False
    have "entry_of ?L ip = entry_of L ip \<and> max_failures ?L = max_failures L \<and> block_seconds ?L = block_seconds L"
    proof (cases "is_wrong ip ev")
      case True
      with False show ?thesis by (cases ev) (auto split: if_splits)
    qed (use other_login [OF allowed] in auto)
    with Cons.IH [of n ?L] Cons.prems False show ?thesis
      by (auto simp: split_beta paced_def)
  qed
qed simp

lemma guesses_bound:
  assumes "0 < max_failures L" and "0 < block_seconds L" and "rl_entries L ip = None" and "0 \<le> t0" and "t0 \<le> t1"
    and "\<forall>ev \<in> set evs. allowed_event ip t0 t1 ev"
  shows "guesses ip evs L \<le> max_failures L * (1 + (t1 - t0) div block_seconds L)"
proof -
  have "paced t0 0 L (entry_of L ip)"
    using assms(1,3) by (simp add: paced_def entry_of_def new_entry_def)
  moreover have "0 \<le> max_failures L * (1 + (t1 - t0) div block_seconds L)"
    using assms(1,2,5) by (intro mult_nonneg_nonneg) (auto simp: pos_imp_zdiv_nonneg_iff intro: add_nonneg_nonneg)
  ultimately show ?thesis
    using guesses_paced [OF assms(6) _ assms(2,4), of 0] by simp
qed

text \<open>
  The limiter bounds a guesser: whatever mixture of logins arrives from all addresses, an
  address that never logs in successfully gets at most \<^verbatim>\<open>max failures\<close> passwords checked, and
  that many again for every full \<^verbatim>\<open>block seconds\<close> between its first and its last attempt.
\<close>

theorem guess_rate_bounded:
  assumes "0 < max_failures L" and "0 < block_seconds L" and "rl_entries L ip = None" and "0 \<le> t0" and "t0 \<le> t1"
    and "\<forall>ev \<in> set evs. allowed_event ip t0 t1 ev"
  shows "guesses ip evs L \<le> max_failures L * (1 + (t1 - t0) div block_seconds L)"
  using assms by (rule guesses_bound)

theorem guess_rate_bounded_witness:
  "guesses ''10.0.0.1'' (map (Wrong ''10.0.0.1'') [1000..1059]) new_limiter \<le> 10"
  using guess_rate_bounded [of new_limiter "''10.0.0.1''" 1000 1059 "map (Wrong ''10.0.0.1'') [1000..1059]"]
  by (simp add: new_limiter_def kDefaultMaxFailures_def kDefaultBlockSeconds_def allowed_event_def)

section \<open>Slow clients\<close>

lemma slow_run_keeps_base:
  assumes "1 < max_failures L" "0 < block_seconds L" "failures e = max_failures L - 1"
    and "kBurstGapSeconds * (max_failures L - 1) \<le> now - first_failure e"
  shows "blocked_until (fail_entry L now e) = now + block_seconds L"
  using assms by (simp add: fail_entry_def Let_def is_burst_def mult.commute block_duration_first)



end
