(* ===== verification/Web_Sessions.thy ===== *)
theory Web_Sessions
  imports Web_Tokens Web_Users Allowed_Hosts Auth_Rate_Limiter
begin

text \<open>
  Who may do what on the web server (\<^verbatim>\<open>modules/WEBServer/session_manager_interface.cpp\<close>, with the
  parts of \<^verbatim>\<open>libs/mongoose-cpp/Request.cpp\<close>, \<^verbatim>\<open>Response.cpp\<close> and \<^verbatim>\<open>Helpers.cpp\<close> it reads requests and writes
  responses with). A request is checked against the list of allowed hosts, the rate limiter, the
  users, the session tokens and the grants, in the order of the code. Log lines are left out; the
  grant that let a request in is the result of a check, \<^term>\<open>None\<close> is refusal. The clock and the
  random token are read once for each request.
\<close>

section \<open>Requests and responses\<close>

definition tolower :: "char \<Rightarrow> char" where
  "tolower c = (if 65 \<le> (of_char c :: nat) \<and> (of_char c :: nat) \<le> 90 then char_of (of_char c + 32 :: nat) else c)"

text \<open>
  The header map compares its keys without regard to case: it is keyed by their lower case.
\<close>

record http_request =
  rq_ip :: string
  rq_headers :: "string \<rightharpoonup> string"
  rq_query :: string

definition read_header :: "http_request \<Rightarrow> string \<Rightarrow> string" where
  "read_header r key = (case rq_headers r (map tolower key) of None \<Rightarrow> [] | Some v \<Rightarrow> v)"

definition has_variable :: "http_request \<Rightarrow> string \<Rightarrow> bool" where
  "has_variable r key \<longleftrightarrow> rq_headers r (map tolower key) \<noteq> None"

fun url_decode :: "bool \<Rightarrow> string \<Rightarrow> string" where
  "url_decode form [] = []"
| "url_decode form (c # cs) =
     (if c = CHR ''+'' \<and> form then CHR '' '' # url_decode form cs
      else if c = CHR ''%'' then
        (case cs of
           h # l # rest \<Rightarrow>
             (if hex_digit h \<ge> 0 \<and> hex_digit l \<ge> 0
              then char_of (push_bit 4 (hex_digit h) OR hex_digit l) # url_decode form rest
              else c # url_decode form cs)
         | _ \<Rightarrow> c # url_decode form cs)
      else c # url_decode form cs)"

function read_variable :: "string \<Rightarrow> string \<Rightarrow> string option" where
  "read_variable query key =
     (if query = [] then None
      else let pair = upto_sep (CHR ''&'') query
           in if CHR ''='' \<in> set pair \<and> url_decode True (upto_sep (CHR ''='') pair) = key
              then Some (url_decode True (after_sep (CHR ''='') pair))
              else if CHR ''&'' \<in> set query then read_variable (after_sep (CHR ''&'') query) key else None)"
  by pat_completeness auto
termination
  by (relation "measure (\<lambda>(q, k). length q)") (auto simp: after_sep_def intro!: diff_less)

declare read_variable.simps [simp del]

definition request_get :: "http_request \<Rightarrow> string \<Rightarrow> string" where
  "request_get r key = (case read_variable (rq_query r) key of None \<Rightarrow> [] | Some v \<Rightarrow> v)"

record stream_response =
  rs_code :: int
  rs_reason :: string
  rs_body :: string
  rs_context :: "string \<rightharpoonup> string"

definition new_response :: stream_response where
  "new_response = \<lparr>rs_code = 200, rs_reason = ''OK'', rs_body = [], rs_context = Map.empty\<rparr>"

definition setCodeForbidden :: "string \<Rightarrow> stream_response \<Rightarrow> stream_response" where
  "setCodeForbidden msg rs = rs\<lparr>rs_code := 403, rs_reason := ''Forbidden'', rs_body := rs_body rs @ msg\<rparr>"

definition setCodeServerError :: "string \<Rightarrow> stream_response \<Rightarrow> stream_response" where
  "setCodeServerError msg rs = rs\<lparr>rs_code := 500, rs_reason := ''Error'', rs_body := rs_body rs @ msg\<rparr>"

definition setContext :: "string \<Rightarrow> string \<Rightarrow> stream_response \<Rightarrow> stream_response" where
  "setContext key v rs = rs\<lparr>rs_context := (rs_context rs)(key \<mapsto> v)\<rparr>"

definition getContext :: "stream_response \<Rightarrow> string \<Rightarrow> string" where
  "getContext rs key = (case rs_context rs key of None \<Rightarrow> [] | Some v \<Rightarrow> v)"

definition NOT_ALLOWED :: string where "NOT_ALLOWED = ''403 You're not allowed''"

section \<open>The session manager\<close>

record session_manager =
  sm_tokens :: token_map
  sm_grants :: grant_store
  sm_allowed_hosts :: allowed_hosts_manager
  sm_users :: user_table
  sm_rate_limiter :: rate_limiter
  allow_anonymous :: bool
  legacy_query_auth_user_agents :: "string list"

text \<open>The library, the clock and what \<^verbatim>\<open>generate_token(32)\<close> returned for this request.\<close>

record web_env =
  we_tokens :: token_env
  we_net :: net_env
  we_pw :: pw_env
  we_to_lower_copy :: "string \<Rightarrow> string"
  we_now :: int
  we_random :: string

type_synonym web_ctx = "session_manager \<times> stream_response"

definition forbid :: "(web_ctx, string option) ev" where
  "forbid = bindE (modify (\<lambda>(sm, rs). (sm, setCodeForbidden NOT_ALLOWED rs))) (\<lambda>_. ret None)"

definition trim_blanks :: "string \<Rightarrow> string" where
  "trim_blanks s = (let p = dropWhile (\<lambda>c. c \<in> set blanks) s in rev (dropWhile (\<lambda>c. c \<in> set blanks) (rev p)))"

definition split_trimmed :: "char \<Rightarrow> string \<Rightarrow> string list" where
  "split_trimmed key s = filter (\<lambda>p. p \<noteq> []) (map trim_blanks (split_lst key s))"

definition set_legacy_query_auth_user_agents :: "string \<Rightarrow> session_manager \<Rightarrow> session_manager" where
  "set_legacy_query_auth_user_agents csv sm = sm\<lparr>legacy_query_auth_user_agents := split_trimmed (CHR '','') csv\<rparr>"

definition client_allows_legacy_query_auth :: "web_env \<Rightarrow> session_manager \<Rightarrow> string \<Rightarrow> bool" where
  "client_allows_legacy_query_auth E sm user_agent =
     (if user_agent = [] \<or> legacy_query_auth_user_agents sm = [] then False
      else list_ex (\<lambda>pat. pat \<noteq> [] \<and> contains_str (we_to_lower_copy E pat) (we_to_lower_copy E user_agent))
        (legacy_query_auth_user_agents sm))"

definition find_token :: "web_env \<Rightarrow> session_manager \<Rightarrow> http_request \<Rightarrow> string" where
  "find_token E sm r =
     (if read_header r ''TOKEN'' \<noteq> [] then read_header r ''TOKEN''
      else if read_header r ''X-Auth-Token'' \<noteq> [] then read_header r ''X-Auth-Token''
      else let query_token = (if request_get r ''TOKEN'' \<noteq> [] then request_get r ''TOKEN'' else request_get r ''__TOKEN'')
           in if query_token = [] then []
              else if client_allows_legacy_query_auth E sm (read_header r ''User-Agent'') then query_token
              else [])"

definition get_auth_header :: "http_request \<Rightarrow> string" where
  "get_auth_header r =
     (let auth = read_header r ''Authorization'' in if auth \<noteq> [] then auth else read_header r ''authorization'')"

definition has_auth_header :: "http_request \<Rightarrow> bool" where
  "has_auth_header r \<longleftrightarrow> has_variable r ''Authorization'' \<or> has_variable r ''authorization''"

definition is_basic_auth :: "string \<Rightarrow> bool" where
  "is_basic_auth auth \<longleftrightarrow> starts_with ''Basic '' auth"

definition is_bearer_auth :: "string \<Rightarrow> bool" where
  "is_bearer_auth auth \<longleftrightarrow> starts_with ''Bearer '' auth"

section \<open>Checking a request\<close>

definition has_grant :: "session_manager \<Rightarrow> string \<Rightarrow> stream_response \<Rightarrow> bool" where
  "has_grant sm grant rs =
     (let uid = getContext rs ''uid''
      in if uid = [] then allow_anonymous sm \<and> gs_validate (sm_grants sm) ''anonymous'' grant
         else gs_validate (sm_grants sm) uid grant)"

definition can :: "string list \<Rightarrow> (web_ctx, string option) ev" where
  "can grants = bindE (getE (\<lambda>(sm, rs). find (\<lambda>grant. has_grant sm grant rs) grants)) (\<lambda>g.
     case g of Some grant \<Rightarrow> ret (Some grant) | None \<Rightarrow> forbid)"

definition fingerprint_for_user :: "web_env \<Rightarrow> session_manager \<Rightarrow> string \<Rightarrow> string" where
  "fingerprint_for_user E sm user =
     (if user = [] \<or> \<not> um_has_user (sm_users sm) user then []
      else te_hash_token (we_tokens E) (gs_get_role (sm_grants sm) user @ [CHR 0x0A] @ um_get_hash (sm_users sm) user))"

definition store_user_in_response :: "web_env \<Rightarrow> string \<Rightarrow> bool \<Rightarrow> (web_ctx, bool) ev" where
  "store_user_in_response E user issue_token =
     (if \<not> issue_token then bindE (modify (\<lambda>(sm, rs). (sm, setContext ''uid'' user rs))) (\<lambda>_. ret True)
      else (\<lambda>(sm, rs).
        let (token, tokens') = tk_generate_for (we_tokens E) (we_random E) user (fingerprint_for_user E sm user) (we_now E) (sm_tokens sm);
            sm' = sm\<lparr>sm_tokens := tokens'\<rparr>
        in if token = [] then (Inr False, (sm', rs))
           else (Inr True, (sm', setContext ''uid'' user (setContext ''token'' token rs)))))"

definition store_session_in_response :: "string \<Rightarrow> string \<Rightarrow> stream_response \<Rightarrow> stream_response" where
  "store_session_in_response token user rs = setContext ''uid'' user (setContext ''token'' token rs)"

definition login_failed :: "web_env \<Rightarrow> string \<Rightarrow> (web_ctx, string option) ev" where
  "login_failed E ip =
     bindE (modify (\<lambda>(sm, rs). (sm\<lparr>sm_rate_limiter := record_failure_at (sm_rate_limiter sm) ip (we_now E)\<rparr>, rs))) (\<lambda>_. forbid)"

definition password_accepted :: "web_env \<Rightarrow> string \<Rightarrow> string \<Rightarrow> bool \<Rightarrow> string list \<Rightarrow> (web_ctx, string option) ev" where
  "password_accepted E ip user issue_token grants =
     seqE (modify (\<lambda>(sm, rs). (sm\<lparr>sm_rate_limiter := record_success (sm_rate_limiter sm) ip\<rparr>, rs)))
       (bindE (store_user_in_response E user issue_token) (\<lambda>ok.
          if \<not> ok then bindE (modify (\<lambda>(sm, rs). (sm, setCodeServerError ''500 Failed to issue token'' rs))) (\<lambda>_. ret None)
          else can grants))"

definition validate_token_of :: "web_env \<Rightarrow> string \<Rightarrow> (web_ctx, string option) ev" where
  "validate_token_of E token = (\<lambda>(sm, rs).
     let (user, tokens') = tk_validate (we_tokens E) token (we_now E) (sm_tokens sm) in (Inr user, (sm\<lparr>sm_tokens := tokens'\<rparr>, rs)))"

definition process_auth_header :: "web_env \<Rightarrow> string list \<Rightarrow> http_request \<Rightarrow> bool \<Rightarrow> (web_ctx, string option) ev" where
  "process_auth_header E grants r issue_token =
     bindE (getE (\<lambda>(sm, rs). is_blocked (sm_rate_limiter sm) (rq_ip r) (we_now E))) (\<lambda>blocked.
     if blocked then forbid
     else let auth = get_auth_header r
     in if length auth > 8 * 1024 then login_failed E (rq_ip r)
     else if is_basic_auth auth then
       (let (user, password) = split2 (CHR '':'') (decode_b64 (drop 6 auth))
        in bindE (getE (\<lambda>(sm, rs). um_validate_user (we_pw E) (sm_users sm) user password)) (\<lambda>valid.
           if \<not> valid then login_failed E (rq_ip r)
           else password_accepted E (rq_ip r) user issue_token grants))
     else if is_bearer_auth auth then
       (let token = drop 7 auth
        in bindE (validate_token_of E token) (\<lambda>session. case session of
             None \<Rightarrow> login_failed E (rq_ip r)
           | Some user \<Rightarrow>
               seqE (modify (\<lambda>(sm, rs). (sm\<lparr>sm_rate_limiter := record_success (sm_rate_limiter sm) (rq_ip r)\<rparr>,
                                          store_session_in_response token user rs)))
                 (can grants)))
     else forbid)"

definition process_password_header ::
  "web_env \<Rightarrow> string list \<Rightarrow> http_request \<Rightarrow> string \<Rightarrow> bool \<Rightarrow> (web_ctx, string option) ev" where
  "process_password_header E grants r password issue_token =
     bindE (getE (\<lambda>(sm, rs). is_blocked (sm_rate_limiter sm) (rq_ip r) (we_now E))) (\<lambda>blocked.
     if blocked then forbid
     else if length password > 8 * 1024 then login_failed E (rq_ip r)
     else bindE (getE (\<lambda>(sm, rs). um_validate_user (we_pw E) (sm_users sm) ''admin'' password)) (\<lambda>valid.
       if \<not> valid then login_failed E (rq_ip r)
       else password_accepted E (rq_ip r) ''admin'' issue_token grants))"

text \<open>The call of \<^verbatim>\<open>allowed_hosts.is_allowed\<close> on the list of the session manager; its errors are only logged.\<close>

definition host_allowed :: "web_env \<Rightarrow> ip_address \<Rightarrow> (web_ctx, bool) ev" where
  "host_allowed E remote = (\<lambda>(sm, rs).
     let (result, h, errors) = is_allowed (we_net E) remote (sm_allowed_hosts sm, [])
     in (result, (sm\<lparr>sm_allowed_hosts := h\<rparr>, rs)))"

definition token_check :: "web_env \<Rightarrow> string list \<Rightarrow> http_request \<Rightarrow> (web_ctx, string option) ev" where
  "token_check E grants r = bindE (getE (\<lambda>(sm, rs). find_token E sm r)) (\<lambda>token.
     if token = [] then forbid
     else bindE (validate_token_of E token) (\<lambda>session. case session of
            None \<Rightarrow> forbid
          | Some user \<Rightarrow>
              seqE (modify (\<lambda>(sm, rs). (sm, store_session_in_response token user rs)))
                (bindE (can grants) (\<lambda>g. case g of None \<Rightarrow> forbid | Some grant \<Rightarrow> ret (Some grant)))))"

definition is_logged_in :: "web_env \<Rightarrow> string list \<Rightarrow> http_request \<Rightarrow> bool \<Rightarrow> (web_ctx, string option) ev" where
  "is_logged_in E grants r issue_token =
     (case ne_make_address (we_net E) (rq_ip r) of
        Inl msg \<Rightarrow> throw (Std_Exception msg)
      | Inr remote \<Rightarrow>
          bindE (host_allowed E remote) (\<lambda>allowed.
          if \<not> allowed then forbid
          else if has_auth_header r then process_auth_header E grants r issue_token
          else let password = read_header r ''password''
          in if password \<noteq> [] then process_password_header E grants r password issue_token
          else token_check E grants r))"

definition log_in :: "web_env \<Rightarrow> string \<Rightarrow> http_request \<Rightarrow> (web_ctx, string option) ev" where
  "log_in E grant r = is_logged_in E [grant] r True"

section \<open>Administration and restarts\<close>

definition add_user :: "web_env \<Rightarrow> string \<Rightarrow> string \<Rightarrow> string \<Rightarrow> session_manager \<Rightarrow> session_manager" where
  "add_user E user role password sm =
     sm\<lparr>sm_tokens := tk_revoke_tokens_for_user user (sm_tokens sm),
        sm_grants := gs_add_user user role (sm_grants sm),
        sm_users := um_add_user (we_pw E) user password (sm_users sm)\<rparr>"

definition add_grant :: "string \<Rightarrow> string \<Rightarrow> session_manager \<Rightarrow> session_manager" where
  "add_grant role grant sm =
     (if role = ''anonymous'' \<and> \<not> allow_anonymous sm then sm
      else sm\<lparr>sm_grants := gs_add_role role grant (sm_grants sm)\<rparr>)"

definition export_sessions :: "web_env \<Rightarrow> session_manager \<Rightarrow> persisted_session list" where
  "export_sessions E sm = tk_snapshot (we_tokens E) (we_now E) (sm_tokens sm)"

text \<open>One stored session: the table, the fingerprints already computed and the count of restored sessions.\<close>

definition import_session ::
  "web_env \<Rightarrow> session_manager \<Rightarrow> token_map \<times> (string \<rightharpoonup> string) \<times> nat \<Rightarrow> persisted_session \<Rightarrow> token_map \<times> (string \<rightharpoonup> string) \<times> nat" where
  "import_session E sm acc session =
     (let (tokens, fingerprints, restored) = acc;
          fingerprints' = (case fingerprints (ps_user session) of
             Some f \<Rightarrow> fingerprints
           | None \<Rightarrow> fingerprints(ps_user session \<mapsto> fingerprint_for_user E sm (ps_user session)));
          f = the (fingerprints' (ps_user session))
      in if f = [] \<or> ps_fingerprint session \<noteq> f then (tokens, fingerprints', restored)
         else let rec = (if ps_created session > we_now E then session\<lparr>ps_created := we_now E\<rparr> else session);
                  (ok, tokens') = tk_restore (we_tokens E) rec (we_now E) tokens
              in (tokens', fingerprints', if ok then Suc restored else restored))"

definition import_sessions :: "web_env \<Rightarrow> persisted_session list \<Rightarrow> session_manager \<Rightarrow> nat \<times> session_manager" where
  "import_sessions E sessions sm =
     (let (tokens, fingerprints, restored) = foldl (import_session E sm) (sm_tokens sm, Map.empty, 0) sessions
      in (restored, sm\<lparr>sm_tokens := tokens\<rparr>))"

definition revoke_token :: "web_env \<Rightarrow> string \<Rightarrow> session_manager \<Rightarrow> session_manager" where
  "revoke_token E token sm = sm\<lparr>sm_tokens := tk_revoke (we_tokens E) token (sm_tokens sm)\<rparr>"

definition revoke_tokens_for_user :: "string \<Rightarrow> session_manager \<Rightarrow> session_manager" where
  "revoke_tokens_for_user user sm = sm\<lparr>sm_tokens := tk_revoke_tokens_for_user user (sm_tokens sm)\<rparr>"

section \<open>Who is let in\<close>

text \<open>
  The policy the code implements. A token is a session when it is in the table and not expired; a
  request proves who sent it with a password or a session; a user is permitted what the rules of
  its role say, and a session of no user what the anonymous role says where that is enabled.
\<close>

definition live_session :: "web_env \<Rightarrow> session_manager \<Rightarrow> string \<Rightarrow> string \<Rightarrow> bool" where
  "live_session E sm token user \<longleftrightarrow>
     (case map_of (sm_tokens sm) (key_for (we_tokens E) token) of
        None \<Rightarrow> False
      | Some e \<Rightarrow> te_user e = user \<and> \<not> has_token_expired (te_created e) (we_now E))"

inductive proves_identity :: "web_env \<Rightarrow> session_manager \<Rightarrow> http_request \<Rightarrow> string \<Rightarrow> bool" for E sm r where
  basic: "has_auth_header r \<Longrightarrow> \<not> is_blocked (sm_rate_limiter sm) (rq_ip r) (we_now E) \<Longrightarrow>
    get_auth_header r = ''Basic '' @ encoded \<Longrightarrow> length (get_auth_header r) \<le> 8192 \<Longrightarrow>
    split2 (CHR '':'') (decode_b64 encoded) = (user, password) \<Longrightarrow>
    um_validate_user (we_pw E) (sm_users sm) user password \<Longrightarrow> proves_identity E sm r user"
| bearer: "has_auth_header r \<Longrightarrow> \<not> is_blocked (sm_rate_limiter sm) (rq_ip r) (we_now E) \<Longrightarrow>
    get_auth_header r = ''Bearer '' @ token \<Longrightarrow> length (get_auth_header r) \<le> 8192 \<Longrightarrow>
    live_session E sm token user \<Longrightarrow> proves_identity E sm r user"
| header: "\<not> has_auth_header r \<Longrightarrow> \<not> is_blocked (sm_rate_limiter sm) (rq_ip r) (we_now E) \<Longrightarrow>
    length (read_header r ''password'') \<le> 8192 \<Longrightarrow>
    um_validate_user (we_pw E) (sm_users sm) ''admin'' (read_header r ''password'') \<Longrightarrow> proves_identity E sm r ''admin''"
| session: "\<not> has_auth_header r \<Longrightarrow> read_header r ''password'' = [] \<Longrightarrow> find_token E sm r \<noteq> [] \<Longrightarrow>
    live_session E sm (find_token E sm r) user \<Longrightarrow> proves_identity E sm r user"

inductive_cases proves_identityE: "proves_identity E sm r user"

definition permitted :: "session_manager \<Rightarrow> string \<Rightarrow> string \<Rightarrow> bool" where
  "permitted sm user grant \<longleftrightarrow>
     (if user = [] then allow_anonymous sm \<and> gs_validate (sm_grants sm) ''anonymous'' grant
      else gs_validate (sm_grants sm) user grant)"

lemma forbid_run [simp]: "forbid (sm, rs) = (Inr None, (sm, setCodeForbidden NOT_ALLOWED rs))"
  by (simp add: forbid_def)

lemma can_run:
  "can grants (sm, rs) = (Inr (find (\<lambda>grant. has_grant sm grant rs) grants),
     (sm, if find (\<lambda>grant. has_grant sm grant rs) grants = None then setCodeForbidden NOT_ALLOWED rs else rs))"
  by (simp add: can_def split: option.split)

lemma has_grant_uid [simp]:
  "(\<lambda>grant. has_grant sm grant (setContext ''uid'' user rs)) = permitted sm user"
  by (simp add: fun_eq_iff has_grant_def permitted_def setContext_def getContext_def)

lemma permitted_frame [simp]:
  "permitted (sm\<lparr>sm_tokens := t\<rparr>) = permitted sm" "permitted (sm\<lparr>sm_rate_limiter := l\<rparr>) = permitted sm"
  "permitted (sm\<lparr>sm_allowed_hosts := h\<rparr>) = permitted sm"
  by (simp_all add: fun_eq_iff permitted_def)

lemma login_failed_fst [simp]: "fst (login_failed E ip (sm, rs)) = Inr None"
  by (simp add: login_failed_def)

lemma password_accepted_fst: "fst (password_accepted E ip user False grants (sm, rs)) = Inr (find (permitted sm user) grants)"
  by (simp add: password_accepted_def store_user_in_response_def bindE_def can_run)

lemma validate_token_run:
  "validate_token_of E token (sm, rs) = (Inr (fst (tk_validate (we_tokens E) token (we_now E) (sm_tokens sm))),
     (sm\<lparr>sm_tokens := snd (tk_validate (we_tokens E) token (we_now E) (sm_tokens sm))\<rparr>, rs))"
  by (simp add: validate_token_of_def split: prod.split)

lemma tk_validate_live: "fst (tk_validate (we_tokens E) token (we_now E) (sm_tokens sm)) = Some user \<longleftrightarrow> live_session E sm token user"
  by (auto simp: tk_validate_def live_session_def Let_def split: option.split)

lemma basic_or_bearer:
  "is_basic_auth auth \<longleftrightarrow> auth = ''Basic '' @ drop 6 auth" "is_bearer_auth auth \<longleftrightarrow> auth = ''Bearer '' @ drop 7 auth"
  "is_basic_auth auth \<Longrightarrow> \<not> is_bearer_auth auth"
  by (auto simp: is_basic_auth_def is_bearer_auth_def starts_with_iff)

lemma auth_basic_fst:
  assumes "is_basic_auth (get_auth_header r)" "split2 (CHR '':'') (decode_b64 (drop 6 (get_auth_header r))) = (user, password)"
    "\<not> is_blocked (sm_rate_limiter sm) (rq_ip r) (we_now E)" "length (get_auth_header r) \<le> 8192"
  shows "fst (process_auth_header E grants r False (sm, rs)) =
    Inr (if um_validate_user (we_pw E) (sm_users sm) user password then find (permitted sm user) grants else None)"
  using assms by (simp add: process_auth_header_def Let_def password_accepted_fst)

lemma auth_bearer_fst:
  assumes "is_bearer_auth (get_auth_header r)"
    "\<not> is_blocked (sm_rate_limiter sm) (rq_ip r) (we_now E)" "length (get_auth_header r) \<le> 8192"
  shows "fst (process_auth_header E grants r False (sm, rs)) = Inr (Some g) \<longleftrightarrow>
    (\<exists>user. live_session E sm (drop 7 (get_auth_header r)) user \<and> find (permitted sm user) grants = Some g)"
proof -
  have "\<not> is_basic_auth (get_auth_header r)"
    using assms(1) basic_or_bearer(3) by blast
  then show ?thesis
    unfolding tk_validate_live [symmetric] using assms
    by (cases "fst (tk_validate (we_tokens E) (drop 7 (get_auth_header r)) (we_now E) (sm_tokens sm))")
      (simp_all add: process_auth_header_def Let_def bindE_def validate_token_run store_session_in_response_def can_run seqE_def)
qed

lemma auth_other_fst:
  assumes "is_blocked (sm_rate_limiter sm) (rq_ip r) (we_now E) \<or> length (get_auth_header r) > 8192 \<or>
    \<not> is_basic_auth (get_auth_header r) \<and> \<not> is_bearer_auth (get_auth_header r)"
  shows "fst (process_auth_header E grants r issue (sm, rs)) = Inr None"
  using assms by (auto simp: process_auth_header_def Let_def)

lemma auth_identity:
  assumes "has_auth_header r"
  shows "fst (process_auth_header E grants r False (sm, rs)) = Inr (Some g) \<longleftrightarrow>
    (\<exists>user. proves_identity E sm r user \<and> find (permitted sm user) grants = Some g)" (is "?L \<longleftrightarrow> ?R")
proof -
  let ?auth = "get_auth_header r"
  have other: "\<not> proves_identity E sm r user"
    if "is_blocked (sm_rate_limiter sm) (rq_ip r) (we_now E) \<or> length ?auth > 8192 \<or> \<not> is_basic_auth ?auth \<and> \<not> is_bearer_auth ?auth" for user
    using that assms by (auto elim!: proves_identityE simp: is_basic_auth_def is_bearer_auth_def starts_with_iff)
  consider "is_blocked (sm_rate_limiter sm) (rq_ip r) (we_now E) \<or> length ?auth > 8192 \<or> \<not> is_basic_auth ?auth \<and> \<not> is_bearer_auth ?auth"
    | (b) "is_basic_auth ?auth" "\<not> is_blocked (sm_rate_limiter sm) (rq_ip r) (we_now E)" "length ?auth \<le> 8192"
    | (t) "is_bearer_auth ?auth" "\<not> is_blocked (sm_rate_limiter sm) (rq_ip r) (we_now E)" "length ?auth \<le> 8192"
    by linarith
  then show ?thesis
  proof cases
    case 1
    then show ?thesis using other auth_other_fst by simp
  next
    case b
    obtain u p where up: "split2 (CHR '':'') (decode_b64 (drop 6 ?auth)) = (u, p)" by fastforce
    have "proves_identity E sm r user \<longleftrightarrow> user = u \<and> um_validate_user (we_pw E) (sm_users sm) u p" for user
      using b up assms basic_or_bearer(1) [of ?auth]
      by (auto elim!: proves_identityE intro: proves_identity.basic)
    then show ?thesis using auth_basic_fst [OF b(1) up b(2,3)] by auto
  next
    case t
    have "proves_identity E sm r user \<longleftrightarrow> live_session E sm (drop 7 ?auth) user" for user
      using t assms basic_or_bearer(2) [of ?auth]
      by (auto elim!: proves_identityE intro: proves_identity.bearer)
    then show ?thesis using auth_bearer_fst [OF t] by simp
  qed
qed

lemma password_identity:
  assumes "\<not> has_auth_header r" "read_header r ''password'' \<noteq> []"
  shows "fst (process_password_header E grants r (read_header r ''password'') False (sm, rs)) = Inr (Some g) \<longleftrightarrow>
    (\<exists>user. proves_identity E sm r user \<and> find (permitted sm user) grants = Some g)"
proof -
  let ?ok = "\<not> is_blocked (sm_rate_limiter sm) (rq_ip r) (we_now E) \<and> length (read_header r ''password'') \<le> 8192 \<and>
    um_validate_user (we_pw E) (sm_users sm) ''admin'' (read_header r ''password'')"
  have "proves_identity E sm r user \<longleftrightarrow> user = ''admin'' \<and> ?ok" for user
    using assms by (auto elim!: proves_identityE intro: proves_identity.header)
  moreover have "fst (process_password_header E grants r (read_header r ''password'') False (sm, rs)) =
      Inr (if ?ok then find (permitted sm ''admin'') grants else None)"
    by (auto simp: process_password_header_def password_accepted_fst)
  ultimately show ?thesis by auto
qed

lemma token_identity:
  assumes "\<not> has_auth_header r" "read_header r ''password'' = []"
  shows "fst (token_check E grants r (sm, rs)) = Inr (Some g) \<longleftrightarrow>
    (\<exists>user. proves_identity E sm r user \<and> find (permitted sm user) grants = Some g)"
proof -
  let ?t = "find_token E sm r"
  have id: "proves_identity E sm r user \<longleftrightarrow> ?t \<noteq> [] \<and> live_session E sm ?t user" for user
    using assms by (auto elim!: proves_identityE intro: proves_identity.session simp: um_validate_user_def)
  show ?thesis
  proof (cases "?t = []")
    case False
    then show ?thesis
      unfolding id tk_validate_live [symmetric]
      by (cases "fst (tk_validate (we_tokens E) ?t (we_now E) (sm_tokens sm))")
        (auto simp: token_check_def bindE_def validate_token_run store_session_in_response_def can_run seqE_def split: option.split)
  qed (simp add: id token_check_def)
qed

lemma find_token_frame [simp]: "find_token E (sm\<lparr>sm_allowed_hosts := h\<rparr>) r = find_token E sm r"
proof -
  have "client_allows_legacy_query_auth E (sm\<lparr>sm_allowed_hosts := h\<rparr>) = client_allows_legacy_query_auth E sm"
    by (simp add: fun_eq_iff client_allows_legacy_query_auth_def)
  then show ?thesis by (simp only: find_token_def)
qed

lemma proves_identity_frame: "proves_identity E (sm\<lparr>sm_allowed_hosts := h\<rparr>) r user \<longleftrightarrow> proves_identity E sm r user"
  unfolding proves_identity.simps by (simp add: live_session_def)

lemma is_logged_in_allowed:
  assumes "ne_make_address (we_net E) (rq_ip r) = Inr remote"
    "is_allowed (we_net E) remote (sm_allowed_hosts sm, []) = (Inr True, (h, errors))"
  shows "is_logged_in E grants r issue (sm, rs) =
    (if has_auth_header r then process_auth_header E grants r issue
     else if read_header r ''password'' \<noteq> [] then process_password_header E grants r (read_header r ''password'') issue
     else token_check E grants r) (sm\<lparr>sm_allowed_hosts := h\<rparr>, rs)"
  using assms by (simp add: is_logged_in_def host_allowed_def bindE_def)

lemma is_logged_in_refused:
  assumes "ne_make_address (we_net E) (rq_ip r) = Inr remote"
    "fst (is_allowed (we_net E) remote (sm_allowed_hosts sm, [])) \<noteq> Inr True"
  shows "fst (is_logged_in E grants r issue (sm, rs)) \<noteq> Inr (Some g)"
  using assms by (cases "is_allowed (we_net E) remote (sm_allowed_hosts sm, [])")
    (auto simp: is_logged_in_def host_allowed_def bindE_def split: sum.splits)


definition sample_web :: web_env where
  "sample_web = \<lparr>we_tokens = sample_tokens, we_net = sample_net, we_pw = sample_pw, we_to_lower_copy = map tolower,
     we_now = 1000, we_random = ''t''\<rparr>"

definition sample_manager :: session_manager where
  "sample_manager = \<lparr>sm_tokens = [], sm_grants = \<lparr>gs_roles = [''full'' \<mapsto> [''*'']], gs_users = [''admin'' \<mapsto> ''full'']\<rparr>,
     sm_allowed_hosts = new_allowed_hosts\<lparr>entries_v4 := [\<lparr>hr_host = ''127.0.0.1'', hr_addr = [127, 0, 0, 1], hr_mask = [255, 255, 255, 255]\<rparr>]\<rparr>,
     sm_users = [''admin'' \<mapsto> ''secret''], sm_rate_limiter = new_limiter, allow_anonymous = False,
     legacy_query_auth_user_agents = []\<rparr>"

definition sample_request :: http_request where
  "sample_request = \<lparr>rq_ip = ''127.0.0.1'', rq_headers = [''password'' \<mapsto> ''secret''], rq_query = []\<rparr>"

lemma sample_request_facts:
  "ne_make_address (we_net sample_web) (rq_ip sample_request) = Inr (V4 [127, 0, 0, 1])"
  "read_header sample_request ''password'' = ''secret''" "\<not> has_auth_header sample_request"
  "fst (is_allowed (we_net sample_web) (V4 [127, 0, 0, 1]) (sm_allowed_hosts sample_manager, [])) = Inr True"
  "um_validate_user (we_pw sample_web) (sm_users sample_manager) ''admin'' ''secret''"
  "\<not> is_blocked (sm_rate_limiter sample_manager) (rq_ip sample_request) (we_now sample_web)"
  "find (permitted sample_manager ''admin'') [''queries.execute''] = Some ''queries.execute''"
  by code_simp+

lemma sample_identity: "proves_identity sample_web sample_manager sample_request ''admin''"
  by (rule proves_identity.header) (simp_all add: sample_request_facts)


section \<open>A login gives a session\<close>

lemma password_accepted_issue:
  assumes "password_accepted E ip user True grants (sm, rs) = (Inr (Some g), (sm', rs'))"
  shows "key_for (we_tokens E) (we_random E) \<noteq> []" "rs' = setContext ''uid'' user (setContext ''token'' (we_random E) rs)"
    "sm_tokens sm' = put_token (we_tokens E) (key_for (we_tokens E) (we_random E))
       \<lparr>te_user = user, te_created = we_now E, te_fingerprint = fingerprint_for_user E sm user\<rparr>
       (sweep_expired_locked (we_now E) (sm_tokens sm))"
  using assms
  by (auto simp: password_accepted_def store_user_in_response_def bindE_def tk_generate_for_def Let_def can_run fingerprint_for_user_def
    split: if_splits)

lemma password_login:
  assumes "is_logged_in E grants r True (sm, rs) = (Inr (Some g), (sm', rs'))"
    and "if has_auth_header r then is_basic_auth (get_auth_header r) else read_header r ''password'' \<noteq> []"
  obtains user sm1 where "password_accepted E (rq_ip r) user True grants (sm1, rs) = (Inr (Some g), (sm', rs'))" "sm_tokens sm1 = sm_tokens sm"
proof -
  obtain remote where remote: "ne_make_address (we_net E) (rq_ip r) = Inr remote"
    using assms(1) by (cases "ne_make_address (we_net E) (rq_ip r)") (auto simp: is_logged_in_def)
  then have "fst (is_allowed (we_net E) remote (sm_allowed_hosts sm, [])) = Inr True"
    using is_logged_in_refused [OF remote, of sm grants True rs g] assms(1) by auto
  then obtain h errors where a: "is_allowed (we_net E) remote (sm_allowed_hosts sm, []) = (Inr True, (h, errors))"
    by (metis prod.collapse)
  let ?sm = "sm\<lparr>sm_allowed_hosts := h\<rparr>"
  obtain u p where up: "split2 (CHR '':'') (decode_b64 (drop 6 (get_auth_header r))) = (u, p)" by fastforce
  have failed: "login_failed E ip (sm1, rs) \<noteq> (Inr (Some g), x)" for ip sm1 x
    by (metis fst_conv login_failed_fst option.distinct(1) sum.inject(2))
  have "\<exists>user. password_accepted E (rq_ip r) user True grants (?sm, rs) = (Inr (Some g), (sm', rs'))"
    using assms unfolding is_logged_in_allowed [OF remote a]
    by (auto simp: process_auth_header_def process_password_header_def Let_def up failed split: if_splits)
  then show thesis using that by auto
qed

text \<open>
  C9. A login gives a session: when a login with a password succeeds, the token in the response is a
  session of the user in the response, at once and for the eight hours that follow.
\<close>

theorem login_gives_session:
  assumes "rehash_ok (we_tokens E)" and "distinct (map fst (sm_tokens sm))"
    and "log_in E grant r (sm, rs) = (Inr (Some g), (sm', rs'))"
    and "if has_auth_header r then is_basic_auth (get_auth_header r) else read_header r ''password'' \<noteq> []"
    and "we_tokens E' = we_tokens E" and "we_now E \<le> we_now E'" and "we_now E' \<le> we_now E + 28800"
  shows "live_session E' sm' (getContext rs' ''token'') (getContext rs' ''uid'')"
proof -
  obtain user sm1 where acc: "password_accepted E (rq_ip r) user True [grant] (sm1, rs) = (Inr (Some g), (sm', rs'))" "sm_tokens sm1 = sm_tokens sm"
    using password_login assms(3,4) unfolding log_in_def by metis
  obtain P where "sweep_expired_locked (we_now E) (sm_tokens sm) = filter P (sm_tokens sm)"
    using sweep_filter by blast
  then have "distinct (map fst (sweep_expired_locked (we_now E) (sm_tokens sm)))"
    using assms(2) by (simp add: distinct_map_filter)
  from map_of_put_token [OF assms(1) this] show ?thesis
    using password_accepted_issue [OF acc(1)] assms(5-7)
    by (simp add: live_session_def acc(2) setContext_def getContext_def has_token_expired_def HOURS_TO_SECONDS_def TOKEN_EXPIRATION_HOURS_def)
qed

theorem login_gives_session_witness:
  "\<exists>sm' rs'. log_in sample_web ''queries.execute'' sample_request (sample_manager, new_response) = (Inr (Some ''queries.execute''), (sm', rs')) \<and>
     live_session sample_web sm' (getContext rs' ''token'') (getContext rs' ''uid'')"
proof -
  have "fst (log_in sample_web ''queries.execute'' sample_request (sample_manager, new_response)) = Inr (Some ''queries.execute'')"
    by code_simp
  then obtain sm' rs' where l: "log_in sample_web ''queries.execute'' sample_request (sample_manager, new_response) = (Inr (Some ''queries.execute''), (sm', rs'))"
    by (metis prod.collapse)
  moreover have "rehash_ok (we_tokens sample_web)" "distinct (map fst (sm_tokens sample_manager))"
    by (simp_all add: sample_web_def sample_tokens_def rehash_ok_def sample_manager_def)
  ultimately show ?thesis
    using login_gives_session [of sample_web sample_manager, OF _ _ l, of sample_web] sample_request_facts(2,3) by auto
qed

section \<open>Changed credentials and restarts\<close>

text \<open>A session that the storage format can hold, as the digest of OpenSSL and plain user names make it.\<close>

definition persistable :: "string \<times> token_entry \<Rightarrow> bool" where
  "persistable t \<longleftrightarrow> is_hash (fst t) \<and> te_user (snd t) \<noteq> [] \<and> \<not> has_delimiter (te_user (snd t)) \<and>
     (te_fingerprint (snd t) = [] \<or> is_hash (te_fingerprint (snd t))) \<and> 0 < te_created (snd t) \<and> te_created (snd t) < 2 ^ 63"

definition session_of :: "string \<times> token_entry \<Rightarrow> persisted_session" where
  "session_of t = \<lparr>ps_hash = fst t, ps_user = te_user (snd t), ps_created = te_created (snd t), ps_fingerprint = te_fingerprint (snd t)\<rparr>"

definition stored_entry :: "persisted_session \<Rightarrow> token_entry" where
  "stored_entry s = \<lparr>te_user = ps_user s, te_created = ps_created s, te_fingerprint = ps_fingerprint s\<rparr>"

lemma session_of_inverse: "ps_hash (session_of t) = fst t" "stored_entry (session_of t) = snd t"
  by (cases t; cases "snd t"; simp add: session_of_def stored_entry_def)+

definition exported :: "int \<Rightarrow> token_map \<Rightarrow> token_map" where
  "exported now ts = filter (\<lambda>t. \<not> has_token_expired (te_created (snd t)) now \<and> te_fingerprint (snd t) \<noteq> []) ts"

lemma export_sessions_eq: "te_has_hashing (we_tokens E) \<Longrightarrow> export_sessions E sm = map session_of (exported (we_now E) (sm_tokens sm))"
  by (simp add: export_sessions_def tk_snapshot_def exported_def session_of_def case_prod_unfold)

lemma hash_last: "is_hash f \<Longrightarrow> last f \<noteq> CHR 0x0D"
proof -
  assume h: "is_hash f"
  then have "f \<noteq> []" by (auto simp: is_hash_def)
  then have "last f \<in> set f" by (rule last_in_set)
  with h have "last f \<in> set ''0123456789abcdef''"
    unfolding is_hash_def list_all_iff by blast
  moreover have "CHR 0x0D \<notin> set ''0123456789abcdef''" by simp
  ultimately show ?thesis by metis
qed

lemma persistable_session:
  assumes "persistable t"
  shows "serializable (session_of t)" "storable (session_of t)"
proof -
  have "\<not> has_delimiter (te_fingerprint (snd t))"
    using assms hash_no_delimiter by (auto simp: persistable_def has_delimiter_def)
  with assms show "serializable (session_of t)"
    by (simp add: serializable_def session_of_def persistable_def)
  show "storable (session_of t)"
    using assms hash_last by (auto simp: storable_def session_of_def persistable_def)
qed

lemma parse_exported:
  assumes "te_has_hashing (we_tokens E)" "\<forall>t \<in> set (sm_tokens sm). persistable t"
  shows "parse_sessions (serialize_sessions (export_sessions E sm)) = map session_of (exported (we_now E) (sm_tokens sm))"
proof -
  have "\<forall>s \<in> set (map session_of (exported (we_now E) (sm_tokens sm))). storable s \<and> serializable s"
    using assms(2) persistable_session by (auto simp: exported_def)
  then show ?thesis
    unfolding export_sessions_eq [OF assms(1)] by (subst parse_serialize) simp_all
qed

text \<open>What an import takes over: the session of a known user whose credentials are the same.\<close>

definition accepted :: "web_env \<Rightarrow> session_manager \<Rightarrow> persisted_session \<Rightarrow> bool" where
  "accepted E sm s \<longleftrightarrow> fingerprint_for_user E sm (ps_user s) \<noteq> [] \<and> ps_fingerprint s = fingerprint_for_user E sm (ps_user s) \<and>
     \<not> has_token_expired (ps_created s) (we_now E)"

definition cache_ok :: "web_env \<Rightarrow> session_manager \<Rightarrow> (string \<rightharpoonup> string) \<Rightarrow> bool" where
  "cache_ok E sm fingerprints \<longleftrightarrow> (\<forall>u f. fingerprints u = Some f \<longrightarrow> f = fingerprint_for_user E sm u)"

lemma fingerprint_user: "fingerprint_for_user E sm u \<noteq> [] \<Longrightarrow> u \<noteq> []"
  by (auto simp: fingerprint_for_user_def)

lemma import_session_run:
  assumes "cache_ok E sm fps" "ps_created s \<le> we_now E" "length ts < kMaxTokens" "ps_hash s \<notin> fst ` set ts" "ps_hash s \<noteq> []"
  obtains fps' n' where "cache_ok E sm fps'"
    "import_session E sm (ts, fps, n) s = (if accepted E sm s then put_token (we_tokens E) (ps_hash s) (stored_entry s) ts else ts, fps', n')"
proof -
  define fps' where "fps' = (case fps (ps_user s) of Some f \<Rightarrow> fps | None \<Rightarrow> fps(ps_user s \<mapsto> fingerprint_for_user E sm (ps_user s)))"
  have c: "cache_ok E sm fps'"
    using assms(1) by (auto simp: cache_ok_def fps'_def split: option.splits)
  have f: "the (fps' (ps_user s)) = fingerprint_for_user E sm (ps_user s)"
    using assms(1) by (auto simp: cache_ok_def fps'_def split: option.splits)
  have "\<exists>n'. import_session E sm (ts, fps, n) s = (if accepted E sm s then put_token (we_tokens E) (ps_hash s) (stored_entry s) ts else ts, fps', n')"
    unfolding import_session_def Let_def prod.case fps'_def [symmetric] f
    using assms(2-5) fingerprint_user [of E sm "ps_user s"]
    by (auto simp: accepted_def tk_restore_def Let_def stored_entry_def)
  with c that show thesis by blast
qed

lemma put_token_new:
  assumes "rehash_ok E" "key \<notin> fst ` set ts"
  shows "set (put_token E key e ts) = insert (key, e) (set ts)" "length (put_token E key e ts) = Suc (length ts)"
    "distinct (map fst (put_token E key e ts)) \<longleftrightarrow> distinct (map fst ts)"
  using assms by (auto simp: put_token_def rehash_facts)

lemma import_fold:
  assumes "rehash_ok (we_tokens E)" "cache_ok E sm fps" "distinct (map fst ts)" "length ts + length ss \<le> kMaxTokens"
    and "distinct (map ps_hash ss)" "\<forall>s \<in> set ss. ps_hash s \<notin> fst ` set ts \<and> ps_hash s \<noteq> [] \<and> ps_created s \<le> we_now E"
  shows "distinct (map fst (fst (foldl (import_session E sm) (ts, fps, n) ss))) \<and>
    set (fst (foldl (import_session E sm) (ts, fps, n) ss)) = set ts \<union> {(ps_hash s, stored_entry s) |s. s \<in> set ss \<and> accepted E sm s}"
  using assms(2-)
proof (induction ss arbitrary: ts fps n)
  case (Cons s ss)
  obtain fps' n' where c: "cache_ok E sm fps'" and
    run: "import_session E sm (ts, fps, n) s = (if accepted E sm s then put_token (we_tokens E) (ps_hash s) (stored_entry s) ts else ts, fps', n')"
    using Cons.prems by (auto intro: import_session_run [of E sm fps s ts n])
  let ?ts = "if accepted E sm s then put_token (we_tokens E) (ps_hash s) (stored_entry s) ts else ts"
  note new = put_token_new [OF assms(1), of "ps_hash s" ts "stored_entry s"]
  have ts: "set ?ts = set ts \<union> {(ps_hash s', stored_entry s') |s'. s' = s \<and> accepted E sm s}"
    "length ?ts \<le> Suc (length ts)" "distinct (map fst ?ts)"
    using new Cons.prems(2,5) by auto
  have d: "\<forall>s' \<in> set ss. ps_hash s' \<notin> fst ` set ?ts \<and> ps_hash s' \<noteq> [] \<and> ps_created s' \<le> we_now E"
    using Cons.prems(4,5) unfolding ts(1) by (auto simp: image_iff)
  have "length ?ts + length ss \<le> kMaxTokens" "distinct (map ps_hash ss)"
    using ts(2) Cons.prems(3,4) by auto
  from Cons.IH [OF c ts(3) this d, of n'] show ?case
    unfolding foldl.simps run ts(1) by auto
qed simp

lemma exported_facts:
  assumes "tokens_ok ts"
  shows "distinct (map fst (exported now ts))" "length (exported now ts) \<le> kMaxTokens" "map_of ts k = Some e \<longleftrightarrow> (k, e) \<in> set ts"
proof -
  show "distinct (map fst (exported now ts))" "length (exported now ts) \<le> kMaxTokens"
    using filter_tokens_ok [OF assms] by (auto simp: exported_def tokens_ok_def)
  show "map_of ts k = Some e \<longleftrightarrow> (k, e) \<in> set ts"
    using assms by (auto simp: tokens_ok_def dest: map_of_SomeD)
qed

lemma import_exported:
  assumes "rehash_ok (we_tokens E')" "tokens_ok ts" "\<forall>t \<in> set ts. persistable t" "sm_tokens sm' = []" "now \<le> we_now E'"
  shows "map_of (sm_tokens (snd (import_sessions E' (map session_of (exported now ts)) sm'))) k = Some e \<longleftrightarrow>
    map_of ts k = Some e \<and> \<not> has_token_expired (te_created e) now \<and> \<not> has_token_expired (te_created e) (we_now E') \<and>
    te_fingerprint e \<noteq> [] \<and> te_fingerprint e = fingerprint_for_user E' sm' (te_user e)"
proof -
  let ?ss = "map session_of (exported now ts)"
  define res where "res = foldl (import_session E' sm') ([], Map.empty, 0) ?ss"
  have "\<forall>s \<in> set ?ss. ps_hash s \<notin> fst ` set [] \<and> ps_hash s \<noteq> [] \<and> ps_created s \<le> we_now E'"
    using assms(3,5) by (auto simp: exported_def session_of_def persistable_def is_hash_def has_token_expired_def)
  moreover have "distinct (map ps_hash ?ss)" "length [] + length ?ss \<le> kMaxTokens"
    using exported_facts [OF assms(2)] by (simp_all add: session_of_def comp_def)
  ultimately have r: "distinct (map fst (fst res))"
    "set (fst res) = {(ps_hash s, stored_entry s) |s. s \<in> set ?ss \<and> accepted E' sm' s}"
    using import_fold [OF assms(1), of sm' Map.empty "[]" ?ss 0] by (simp_all add: res_def cache_ok_def)
  have "sm_tokens (snd (import_sessions E' ?ss sm')) = fst res"
    using assms(4) by (simp add: import_sessions_def res_def case_prod_unfold Let_def)
  moreover have "map_of (fst res) k = Some e \<longleftrightarrow> (k, e) \<in> set (fst res)"
    using r(1) by (auto dest: map_of_SomeD)
  moreover have "(k, e) \<in> set (fst res) \<longleftrightarrow>
      (\<exists>t \<in> set (exported now ts). (ps_hash (session_of t), stored_entry (session_of t)) = (k, e) \<and> accepted E' sm' (session_of t))"
    unfolding r(2) by auto
  then have "(k, e) \<in> set (fst res) \<longleftrightarrow> (k, e) \<in> set (exported now ts) \<and> accepted E' sm' (session_of (k, e))"
    unfolding session_of_inverse prod.collapse by blast
  ultimately show ?thesis
    using exported_facts(3) [OF assms(2), of k e] by (auto simp: exported_def accepted_def session_of_def)
qed

text \<open>
  C8. A restart keeps exactly the sessions whose credentials are unchanged: when the table is written
  at shutdown and read by a process with the same digest and a clock that has not gone back, a token is a
  session of the new process exactly when it was one of the old process, has not expired since, and the
  user is still configured with the role and the stored password the session was issued for.
\<close>

theorem restart_keeps_unchanged_sessions:
  assumes "te_has_hashing (we_tokens E)" and "we_tokens E' = we_tokens E" and "rehash_ok (we_tokens E)" and "we_now E \<le> we_now E'"
    and "tokens_ok (sm_tokens sm)" and "\<forall>t \<in> set (sm_tokens sm). persistable t" and "sm_tokens sm' = []"
  shows "live_session E' (snd (import_sessions E' (parse_sessions (serialize_sessions (export_sessions E sm))) sm')) token user \<longleftrightarrow>
    live_session E sm token user \<and> live_session E' sm token user \<and>
    (\<exists>e. map_of (sm_tokens sm) (key_for (we_tokens E) token) = Some e \<and> te_fingerprint e \<noteq> [] \<and>
       te_fingerprint e = fingerprint_for_user E' sm' user)"
proof -
  let ?k = "key_for (we_tokens E) token"
  let ?new = "snd (import_sessions E' (map session_of (exported (we_now E) (sm_tokens sm))) sm')"
  have "live_session E' ?new token user \<longleftrightarrow>
      (\<exists>e. map_of (sm_tokens ?new) ?k = Some e \<and> te_user e = user \<and> \<not> has_token_expired (te_created e) (we_now E'))"
    by (simp add: live_session_def assms(2) split: option.split)
  also have "\<dots> \<longleftrightarrow> (\<exists>e. map_of (sm_tokens sm) ?k = Some e \<and> te_user e = user \<and> \<not> has_token_expired (te_created e) (we_now E) \<and>
      \<not> has_token_expired (te_created e) (we_now E') \<and> te_fingerprint e \<noteq> [] \<and> te_fingerprint e = fingerprint_for_user E' sm' user)"
    using import_exported [of E' "sm_tokens sm" sm' "we_now E" ?k] assms by auto
  also have "\<dots> \<longleftrightarrow> live_session E sm token user \<and> live_session E' sm token user \<and>
      (\<exists>e. map_of (sm_tokens sm) ?k = Some e \<and> te_fingerprint e \<noteq> [] \<and> te_fingerprint e = fingerprint_for_user E' sm' user)"
    by (auto simp: live_session_def assms(2) split: option.splits)
  finally show ?thesis
    unfolding parse_exported [OF assms(1,6)] .
qed

definition restart_web :: "int \<Rightarrow> web_env" where
  "restart_web now = sample_web\<lparr>we_tokens := \<lparr>te_has_hashing = True, te_hash_token = (\<lambda>s. replicate 64 CHR ''a''), te_rehash = rev\<rparr>, we_now := now\<rparr>"

definition old_manager :: session_manager where
  "old_manager = sample_manager\<lparr>sm_tokens :=
     [(replicate 64 CHR ''a'', \<lparr>te_user = ''admin'', te_created = 900, te_fingerprint = replicate 64 CHR ''a''\<rparr>)]\<rparr>"

theorem restart_keeps_unchanged_sessions_witness:
  "live_session (restart_web 2000) (snd (import_sessions (restart_web 2000)
     (parse_sessions (serialize_sessions (export_sessions (restart_web 1000) old_manager))) sample_manager)) ''t'' ''admin''"
proof -
  let ?E = "restart_web 1000" and ?E' = "restart_web 2000"
  have "te_has_hashing (we_tokens ?E)" "we_tokens ?E' = we_tokens ?E" "rehash_ok (we_tokens ?E)" "we_now ?E \<le> we_now ?E'"
    by (simp_all add: restart_web_def rehash_ok_def)
  moreover have "tokens_ok (sm_tokens old_manager)" "sm_tokens sample_manager = []"
    by (simp_all add: old_manager_def sample_manager_def tokens_ok_def kMaxTokens_def)
  moreover have "\<forall>t \<in> set (sm_tokens old_manager). persistable t"
    by (simp add: old_manager_def persistable_def is_hash_def list_all_iff has_delimiter_def kSeparator_def kNewline_def)
  ultimately show ?thesis
    by (subst restart_keeps_unchanged_sessions [of ?E ?E'])
      (simp_all add: live_session_def restart_web_def old_manager_def key_for_def has_token_expired_def HOURS_TO_SECONDS_def
        TOKEN_EXPIRATION_HOURS_def fingerprint_for_user_def sample_manager_def um_has_user_def)
qed

text \<open>
  New credentials end old sessions: adding a user again leaves that user without a single live
  session, whatever the password and the role, and the sessions of every other user as they were.
\<close>

theorem add_user_ends_sessions:
  assumes "distinct (map fst (sm_tokens sm))"
  shows "live_session E (add_user E' user role password sm) token u \<longleftrightarrow> u \<noteq> user \<and> live_session E sm token u"
proof -
  let ?P = "\<lambda>t. te_user (snd t) \<noteq> user"
  have "map_of (filter ?P ts) k = (case map_of ts k of None \<Rightarrow> None | Some e \<Rightarrow> if te_user e \<noteq> user then Some e else None)"
    if "distinct (map fst ts)" for ts :: token_map and k
    using that by (induction ts) (auto simp: map_of_eq_None_iff split: option.split)
  from this [OF assms] show ?thesis
    by (auto simp: live_session_def add_user_def tk_revoke_tokens_for_user_def split: option.splits if_splits)
qed

theorem add_user_ends_sessions_witness:
  "live_session (restart_web 1000) old_manager ''t'' ''admin'' \<and>
   \<not> live_session (restart_web 1000) (add_user (restart_web 1000) ''admin'' ''full'' ''changed'' old_manager) ''t'' ''admin''"
  using add_user_ends_sessions [of old_manager "restart_web 1000" "restart_web 1000" "''admin''" "''full''" "''changed''" "''t''" "''admin''"]
  by (simp add: old_manager_def restart_web_def live_session_def key_for_def has_token_expired_def HOURS_TO_SECONDS_def
    TOKEN_EXPIRATION_HOURS_def)

end
