(* ===== verification/Spec2Isabelle.thy ===== *)
theory Spec2Isabelle
  imports Number_Format Str_Time Str_Units Where_Perf Modern_Filter Where_Logic Nrpe_Handler Nsca
    Cron Web_Sessions
begin

text \<open>
  \<^bold>\<open>NSClient++\<close>, a monitoring agent. A check collects records from the machine, filters and rates them
  with an expression language and renders a message. Servers (NRPE, NSCA, the web server) let a
  monitoring host ask for checks or submit results; clients do the opposite; a scheduler starts checks
  at the times of a cron expression. This library models the parts in which the agent decides
  something: the expression language and the verdict of a check, the wire formats and the connection
  state machines, and the way a peer is let in. All paths below are under \<^verbatim>\<open>src/\<close>.

  \<^bold>\<open>Numbers and text.\<close>
  \<^item> \<open>Prelude\<close>: exceptions, computations with a state and exceptions (\<^verbatim>\<open>throw\<close>, \<^verbatim>\<open>catch\<close>), their Hoare
    triples, lemmas on lists and strings.
  \<^item> \<open>Cpp_Double\<close>: \<^verbatim>\<open>long long\<close> and \<^verbatim>\<open>double\<close> (binary64, with rounding), \<^verbatim>\<open>include/str/saturate.hpp\<close>.
    Saturating conversion truncates and clamps.
  \<^item> \<open>Str_Format\<close>, \<open>Str_Time\<close>, \<open>Str_Units\<close>, \<open>Number_Format\<close>, \<open>Str_Split\<close>: \<^verbatim>\<open>include/str\<close>. Durations are decoded
    exactly or refused, the day count of a date counts days, byte units scale by 1024, printing with a
    precision rounds to the nearest decimal.
  \<^item> \<open>Nagios_Status\<close>: return codes (\<^verbatim>\<open>include/nscapi/nscapi_helper.cpp\<close>). The three escalations are
    interpretations of the locale \<open>escalation\<close>: each is the join with a level.

  \<^bold>\<open>The expression language\<close> (\<^verbatim>\<open>include/parsers/where\<close>, \<^verbatim>\<open>include/parsers/operators.cpp\<close>).
  \<^item> \<open>Where_Value\<close>, \<open>Where_Node\<close>, \<open>Where_Operators\<close>: values with their certainty, the syntax tree with one
    constructor for each node class, the operators.
  \<^item> \<open>Where_Context\<close>: the state of an evaluation, the counters of a check, the budget and the cache of
    regular expressions. The cache is transparent and bounded.
  \<^item> \<open>Where_Engine\<close>: limits on an expression and matching (\<^verbatim>\<open>where.cpp\<close>, \<^verbatim>\<open>engine.cpp\<close>).
  \<^item> \<open>Where_Frame\<close>, \<open>Where_Logic\<close>: what evaluation leaves alone; the connectives are Kleene's three-valued
    logic, and a sure verdict reached without a record holds for every record.
  \<^item> \<open>Where_Perf\<close>: performance data of variables.
  \<^item> \<open>Modern_Filter\<close>: a whole check run (\<^verbatim>\<open>include/parsers/filter/modern_filter.hpp\<close>). Every record is counted
    once, every match is ok, warning or critical, and the status is no better than the worst row.

  \<^bold>\<open>Wire formats and connections.\<close> The locale \<open>wire_codec\<close> of \<open>Bytes_Crc\<close> is the contract of an encoding:
  what is sendable is encoded, and decoding gives back what was sent. It is interpreted on NRPE packets,
  on both NSCA packets, on base64 and on the hexadecimal form of a digest.
  \<^item> \<open>Bytes_Crc\<close>: \<^verbatim>\<open>include/bytes/crc32.cpp\<close>. The table driven checksum is the remainder of a polynomial
    division, computed bit by bit.
  \<^item> \<open>Nrpe_Packet\<close>, \<open>Nrpe_Server\<close>, \<open>Nrpe_Handler\<close>: \<^verbatim>\<open>include/net/nrpe\<close> and \<^verbatim>\<open>modules/NRPEServer\<close>. Packets of all
    versions survive the wire, a changed byte is noticed, the parser finds a request however the
    network cuts it up and never holds more than its limit, the responses drain, long answers arrive in
    pieces, and no metacharacter reaches the core when they are forbidden.
  \<^item> \<open>Nscp_Crypt\<close>, \<open>Nsca\<close>: \<^verbatim>\<open>libs/nscpcrypt\<close>, \<^verbatim>\<open>include/net/nsca\<close> and \<^verbatim>\<open>modules/NSCAServer\<close>. The locales
    \<open>message_cipher\<close> and \<open>cryptopp_build\<close> are the contract of an engine and of the build it needs; with
    them a submission encrypted by the client is what the server submits.
  \<^item> \<open>Base64\<close>: \<^verbatim>\<open>include/bytes/base64.c\<close> and its wrappers; decoding inverts encoding for all text.

  \<^bold>\<open>Access.\<close>
  \<^item> \<open>Allowed_Hosts\<close>: \<^verbatim>\<open>include/net/socket/allowed_hosts.cpp\<close>. A peer is accepted exactly when it lies in the
    network of an entry of the list.
  \<^item> \<open>Auth_Rate_Limiter\<close>: \<^verbatim>\<open>include/net/auth_rate_limiter.hpp\<close>, lockout with its backoff.
  \<^item> \<open>Web_Users\<close>, \<open>Web_Tokens\<close>, \<open>Web_Sessions\<close>: \<^verbatim>\<open>modules/WEBServer\<close> (users, grants, tokens, sessions) with
    \<^verbatim>\<open>include/nscp/password_hash.cpp\<close>. A stored password accepts exactly what derives the same key, the token
    table is bounded, a request is permitted only with an identity whose role grants it, a login gives a
    session that later requests can use, and a restart keeps the sessions of users whose credentials
    did not change, and no others.
  \<^item> \<open>Cron\<close>: \<^verbatim>\<open>include/parsers/cron/cron_parser.hpp\<close>. The next run is the first matching minute.

  \<^bold>\<open>This theory\<close> composes them: an exchange between an NRPE client and server, and the requests of a web
  server as its rate limiter sees them.

  \<^bold>\<open>How state corresponds to the code.\<close> An object is a record with the members of its class; a method
  takes and returns it, or is a computation over the pair of objects it changes. An exception is the
  left value of a sum. Byte buffers are strings, protocol integers are words of their width. \<^verbatim>\<open>long long\<close>
  is an integer with its overflow checks written out as the code has them. Clock readings and random
  bytes are arguments.

  \<^bold>\<open>Parameters.\<close> Code outside the sources is a field of a record: \<open>env\<close> (regular expressions, \<^verbatim>\<open>lexical_cast\<close>),
  \<open>crypt_env\<close> (Crypto++, law \<open>cfb_law\<close>), \<open>net_env\<close> (Boost addresses and the resolver), \<open>pw_env\<close> and the token
  environment (OpenSSL), \<open>calendar\<close> (Boost dates). The witnesses give each a concrete value.

  \<^bold>\<open>Bounds and fuel.\<close> Loops are structural or have a termination proof; the measure is the input that is
  left, the responses not yet sent, or the entries not yet evicted. The split of a long NRPE answer is a
  \<open>partial_function\<close>, since a payload length of 1 makes it run for ever; that it returns for longer ones is
  part of what is proved. Numeric bounds are the constants of the code: seven steps of byte scaling, the
  doubling limit of a lockout, 16 cached patterns. The number of buffers \<open>server_sends\<close> collects is
  unbounded in the theorem about it: any number above that of the answers will do.

  \<^bold>\<open>Not modelled.\<close>
  \<^item> The grammar of expressions, templates and performance configuration (Boost.Spirit): trees and
    templates are the arguments of the model. Type inference and binding of a tree belong to it.
  \<^item> The checks themselves (\<^verbatim>\<open>modules/Check*\<close>, \<^verbatim>\<open>include/win\<close>): they read the operating system, databases or
    remote services, and give the records to the modelled engine.
  \<^item> Sockets, TLS, HTTP servers and clients (\<^verbatim>\<open>include/net/socket\<close>, \<^verbatim>\<open>include/net/http\<close>, \<^verbatim>\<open>libs/mongoose-cpp\<close>):
    Boost.Asio, Boost.Beast, mongoose and OpenSSL. The connections start from the bytes they deliver.
  \<^item> The core, plugin loading, settings, logging and messages (\<^verbatim>\<open>service\<close>, \<^verbatim>\<open>include/nscapi\<close>,
    \<^verbatim>\<open>include/settings\<close>, \<^verbatim>\<open>libs/settings_manager\<close>): shared libraries, files and generated protobuf code. What a
    component loads from settings is in its state; the core is the query function of a handler.
  \<^item> Script hosts, the other clients and servers, the scheduler's threads, metrics, onboarding, the
    installer and the browser interface: embedded runtimes, timers and input and output.
  \<^item> Locks: every operation runs under the lock of its object in the code and is one step here.
\<close>

section \<open>An NRPE exchange\<close>

text \<open>
  The two ends of a connection: what the server hands to the transport until it has nothing to send,
  and what the client makes of it, each buffer arriving at the start of its own.
\<close>

fun server_sends :: "handler \<Rightarrow> nat \<Rightarrow> read_protocol \<Rightarrow> string list" where
  "server_sends H 0 s = []"
| "server_sends H (Suc n) s = (if has_data s then rp_data s # server_sends H n (on_write H s) else [])"

definition client_receives :: "(string \<Rightarrow> string) \<Rightarrow> nrpe_client \<Rightarrow> string \<Rightarrow> nrpe_client" where
  "client_receives f c data = snd (cl_on_read f (length data) (c\<lparr>cl_buffer := data @ drop (length data) (cl_buffer c)\<rparr>))"

lemma queue_next_sendable:
  assumes "rp_responses s = r # rs" "get_buffer r = Inr b"
  shows "queue_next H s = s\<lparr>rp_responses := rs, rp_data := b, rp_state := if rs \<noteq> [] then proto_has_more else proto_last_packet\<rparr>"
  using assms by (simp add: queue_next_def queue_loop.simps [of H False s])

lemma server_sends_all:
  assumes "rp_responses s = rs" "\<forall>r \<in> set rs. sendable r" "length rs < n"
  shows "map Inr (server_sends H n (queue_next H s)) = map get_buffer rs"
  using assms
proof (induction rs arbitrary: s n)
  case Nil
  then obtain m where "n = Suc m" by (cases n) auto
  with Nil show ?case
    by (simp add: queue_next_def queue_loop.simps [of H False s] has_data_def)
next
  case (Cons r rs)
  obtain m where n: "n = Suc m" using Cons.prems by (cases n) auto
  obtain b where b: "get_buffer r = Inr b" using nrpe.encodes Cons.prems by auto
  let ?s = "s\<lparr>rp_responses := rs, rp_data := b, rp_state := if rs \<noteq> [] then proto_has_more else proto_last_packet\<rparr>"
  have "queue_next H s = ?s"
    using queue_next_sendable [OF Cons.prems(1) b] .
  moreover have "map Inr (server_sends H m (on_write H ?s)) = map get_buffer rs"
  proof (cases "rs = []")
    case True
    then show ?thesis by (cases m) (simp_all add: on_write_def has_data_def)
  next
    case False
    then have "on_write H ?s = queue_next H ?s" by (simp add: on_write_def)
    with Cons.IH [of ?s m] Cons.prems n show ?thesis by simp
  qed
  ultimately show ?case
    using n b by (simp add: has_data_def)
qed

lemma client_receives_one:
  assumes "sendable r" "get_buffer r = Inr b" "length b \<le> length (cl_buffer c)"
  shows "\<exists>q. message_of q = message_of r \<and> cl_responses (client_receives f c b) = cl_responses c @ [q] \<and>
    cl_state (client_receives f c b) = (if pk_type r = moreResponsePacket then cl_has_more else cl_connected) \<and>
    length (cl_buffer (client_receives f c b)) = length (cl_buffer c)"
  using client_reads [of r b "c\<lparr>cl_buffer := b @ drop (length b) (cl_buffer c)\<rparr>" f] assms by (auto simp: client_receives_def)

lemma client_receives_all:
  assumes "\<forall>r \<in> set rs. sendable r" "map get_buffer rs = map Inr bs" "\<forall>b \<in> set bs. length b \<le> length (cl_buffer c)"
  shows "map message_of (cl_responses (foldl (client_receives f) c bs)) = map message_of (cl_responses c) @ map message_of rs \<and>
    (rs \<noteq> [] \<longrightarrow> cl_state (foldl (client_receives f) c bs) = (if pk_type (last rs) = moreResponsePacket then cl_has_more else cl_connected))"
  using assms
proof (induction rs arbitrary: c bs)
  case (Cons r rs)
  then obtain b bs' where bs: "bs = b # bs'" "get_buffer r = Inr b" "map get_buffer rs = map Inr bs'" by auto
  obtain q where q: "message_of q = message_of r" "cl_responses (client_receives f c b) = cl_responses c @ [q]"
    "cl_state (client_receives f c b) = (if pk_type r = moreResponsePacket then cl_has_more else cl_connected)"
    "length (cl_buffer (client_receives f c b)) = length (cl_buffer c)"
    using client_receives_one [OF _ bs(2), of c f] Cons.prems bs(1) by auto
  with Cons.IH [of bs' "client_receives f c b"] Cons.prems bs show ?case
    by (cases rs) auto
qed simp


definition reply_handler :: handler where
  "reply_handler = echo_handler\<lparr>h_handle := \<lambda>p peer. Inr [create_response version2 0 ''ok'' 4], h_payload_length := 4\<rparr>"


section \<open>The web server and its rate limiter\<close>

text \<open>
  What a request is to the limiter: an attempt that fails, one that succeeds, or neither. A request
  that is turned away for its address, or brings a token without an authorization header, is neither.
\<close>

definition auth_event :: "web_env \<Rightarrow> session_manager \<Rightarrow> http_request \<Rightarrow> login_event option" where
  "auth_event E sm r =
     (let auth = get_auth_header r; wrong = Wrong (rq_ip r) (we_now E); right = Right (rq_ip r) (we_now E)
      in if length auth > 8192 then Some wrong
         else if is_basic_auth auth then
           (case split2 (CHR '':'') (decode_b64 (drop 6 auth)) of (user, password) \<Rightarrow>
              Some (if um_validate_user (we_pw E) (sm_users sm) user password then right else wrong))
         else if is_bearer_auth auth then
           Some (case fst (tk_validate (we_tokens E) (drop 7 auth) (we_now E) (sm_tokens sm)) of None \<Rightarrow> wrong | Some user \<Rightarrow> right)
         else None)"

definition password_event :: "web_env \<Rightarrow> session_manager \<Rightarrow> http_request \<Rightarrow> login_event" where
  "password_event E sm r =
     (if length (read_header r ''password'') \<le> 8192 \<and>
         um_validate_user (we_pw E) (sm_users sm) ''admin'' (read_header r ''password'')
      then Right (rq_ip r) (we_now E) else Wrong (rq_ip r) (we_now E))"

definition limiter_event :: "web_env \<Rightarrow> session_manager \<Rightarrow> http_request \<Rightarrow> login_event option" where
  "limiter_event E sm r = (case ne_make_address (we_net E) (rq_ip r) of
       Inl _ \<Rightarrow> None
     | Inr remote \<Rightarrow>
         if fst (is_allowed (we_net E) remote (sm_allowed_hosts sm, [])) \<noteq> Inr True then None
         else if has_auth_header r then auth_event E sm r
         else if read_header r ''password'' \<noteq> [] then Some (password_event E sm r)
         else None)"

definition after_event :: "login_event option \<Rightarrow> rate_limiter \<Rightarrow> rate_limiter" where
  "after_event ev L = (case ev of None \<Rightarrow> L | Some e \<Rightarrow> snd (try_login e L))"

lemma can_limiter: "sm_rate_limiter (fst (snd (can grants (sm, rs)))) = sm_rate_limiter sm"
  by (simp add: can_run)

lemma store_limiter: "store_user_in_response E user issue (sm, rs) = (res, (sm', rs')) \<Longrightarrow> sm_rate_limiter sm' = sm_rate_limiter sm"
  by (auto simp: store_user_in_response_def Let_def split: if_splits prod.splits)

lemma accepted_limiter:
  "sm_rate_limiter (fst (snd (password_accepted E ip user issue grants (sm, rs)))) = record_success (sm_rate_limiter sm) ip"
proof -
  let ?sm = "sm\<lparr>sm_rate_limiter := record_success (sm_rate_limiter sm) ip\<rparr>"
  obtain res sm' rs' where s: "store_user_in_response E user issue (?sm, rs) = (res, (sm', rs'))"
    by (metis prod.collapse)
  then have "sm_rate_limiter sm' = record_success (sm_rate_limiter sm) ip"
    using store_limiter [OF s] by simp
  then show ?thesis
    by (cases res) (simp_all add: password_accepted_def bindE_def s can_limiter)
qed

lemma failed_limiter: "sm_rate_limiter (fst (snd (login_failed E ip (sm, rs)))) = record_failure_at (sm_rate_limiter sm) ip (we_now E)"
  by (simp add: login_failed_def)

lemma auth_limiter:
  "sm_rate_limiter (fst (snd (process_auth_header E grants r issue (sm, rs)))) = after_event (auth_event E sm r) (sm_rate_limiter sm)"
proof (cases "is_blocked (sm_rate_limiter sm) (rq_ip r) (we_now E)")
  case True
  then show ?thesis
    by (auto simp: process_auth_header_def after_event_def auth_event_def Let_def split: prod.split option.split)
next
  case False
  then show ?thesis
    by (auto simp: process_auth_header_def after_event_def auth_event_def Let_def failed_limiter accepted_limiter bindE_def
      validate_token_run seqE_def can_limiter split: prod.split option.split)
qed

lemma password_limiter:
  "sm_rate_limiter (fst (snd (process_password_header E grants r (read_header r ''password'') issue (sm, rs)))) =
     after_event (Some (password_event E sm r)) (sm_rate_limiter sm)"
  by (auto simp: process_password_header_def after_event_def password_event_def failed_limiter accepted_limiter)

lemma token_limiter: "sm_rate_limiter (fst (snd (token_check E grants r (sm, rs)))) = sm_rate_limiter sm"
  by (auto simp: token_check_def bindE_def validate_token_run seqE_def can_run split: option.split)

lemma auth_event_frame: "auth_event E (sm\<lparr>sm_allowed_hosts := h\<rparr>) r = auth_event E sm r"
  "password_event E (sm\<lparr>sm_allowed_hosts := h\<rparr>) r = password_event E sm r"
  by (simp_all add: auth_event_def password_event_def Let_def)

lemma request_limiter:
  "sm_rate_limiter (fst (snd (is_logged_in E grants r issue (sm, rs)))) = after_event (limiter_event E sm r) (sm_rate_limiter sm)"
proof (cases "ne_make_address (we_net E) (rq_ip r)")
  case (Inl msg)
  then show ?thesis by (simp add: is_logged_in_def limiter_event_def after_event_def)
next
  case (Inr remote)
  obtain res h errors where a: "is_allowed (we_net E) remote (sm_allowed_hosts sm, []) = (res, (h, errors))"
    by (metis prod.collapse)
  show ?thesis
  proof (cases "res = Inr True")
    case True
    show ?thesis
      unfolding is_logged_in_allowed [OF Inr a [unfolded True]]
      by (simp add: limiter_event_def Inr a True auth_limiter password_limiter token_limiter auth_event_frame)
        (simp add: after_event_def)
  next
    case False
    then show ?thesis
      by (cases res) (auto simp: is_logged_in_def host_allowed_def bindE_def limiter_event_def Inr a after_event_def)
  qed
qed

type_synonym web_call = "web_env \<times> string list \<times> http_request \<times> bool"

text \<open>
  The requests a server answers one after the other, what the limiter sees of them, and how many
  wrong credentials an address gets checked.
\<close>

fun web_trace :: "web_call list \<Rightarrow> session_manager \<Rightarrow> login_event list" where
  "web_trace [] sm = []"
| "web_trace ((E, grants, r, issue) # calls) sm =
     (case limiter_event E sm r of None \<Rightarrow> [] | Some ev \<Rightarrow> [ev]) @
     web_trace calls (fst (snd (is_logged_in E grants r issue (sm, new_response))))"

fun web_guesses :: "string \<Rightarrow> web_call list \<Rightarrow> session_manager \<Rightarrow> int" where
  "web_guesses ip [] sm = 0"
| "web_guesses ip ((E, grants, r, issue) # calls) sm =
     (if limiter_event E sm r = Some (Wrong ip (we_now E)) \<and> \<not> is_blocked (sm_rate_limiter sm) ip (we_now E) then 1 else 0) +
     web_guesses ip calls (fst (snd (is_logged_in E grants r issue (sm, new_response))))"

lemma event_time: "limiter_event E sm r = Some ev \<Longrightarrow> ev = Wrong (rq_ip r) (we_now E) \<or> ev = Right (rq_ip r) (we_now E)"
  by (auto simp: limiter_event_def auth_event_def password_event_def Let_def split: sum.splits if_splits prod.splits option.splits)

lemma web_guesses_trace: "web_guesses ip calls sm = guesses ip (web_trace calls sm) (sm_rate_limiter sm)"
proof (induction ip calls sm rule: web_guesses.induct)
  case (2 ip E grants r issue calls sm)
  let ?sm = "fst (snd (is_logged_in E grants r issue (sm, new_response)))"
  have L: "sm_rate_limiter ?sm = after_event (limiter_event E sm r) (sm_rate_limiter sm)"
    by (rule request_limiter)
  show ?case
  proof (cases "limiter_event E sm r")
    case None
    with 2 L show ?thesis by (simp add: after_event_def)
  next
    case (Some ev)
    have "limiter_event E sm r = Some (Wrong ip (we_now E)) \<and> \<not> is_blocked (sm_rate_limiter sm) ip (we_now E) \<longleftrightarrow>
        fst (try_login ev (sm_rate_limiter sm)) \<and> is_wrong ip ev"
      using event_time [OF Some] Some by auto
    with 2 L Some show ?thesis
      by (simp add: after_event_def split_beta del: try_login.simps)
  qed
qed simp


definition wrong_request :: http_request where
  "wrong_request = sample_request\<lparr>rq_headers := [''password'' \<mapsto> ''guess'']\<rparr>"

definition sample_calls :: "web_call list" where
  "sample_calls = [(sample_web, [''queries.execute''], wrong_request, False),
     (sample_web\<lparr>we_now := 1001\<rparr>, [''queries.execute''], wrong_request, True)]"


text \<open>
  With a success in time, the limiter never blocks: an address that fails one time less than the limit
  and then succeeds can go on for ever, within the same second.
\<close>

lemma wrong_run:
  assumes "int n < max_failures L" "rl_entries L ip = e" "case e of None \<Rightarrow> True | Some x \<Rightarrow> failures x = k \<and> blocked_until x = 0"
    "k = (case e of None \<Rightarrow> 0 | Some x \<Rightarrow> failures x)" "0 \<le> k" "k + int n < max_failures L" "0 \<le> t"
  shows "\<exists>L'. max_failures L' = max_failures L \<and> block_seconds L' = block_seconds L \<and> \<not> is_blocked L' ip t \<and>
    (\<forall>evs. guesses ip (replicate n (Wrong ip t) @ evs) L = int n + guesses ip evs L')"
  using assms
proof (induction n arbitrary: L e k)
  case 0
  then show ?case
    by (intro exI [of _ L]) (auto simp: is_blocked_def split: option.splits)
next
  case (Suc n)
  let ?L = "record_failure_at L ip t"
  have M: "0 < max_failures L" using Suc.prems by linarith
  have nb: "\<not> is_blocked L ip t"
    using Suc.prems by (auto simp: is_blocked_def split: option.splits)
  have entry: "failures (entry_of L ip) = k" "blocked_until (entry_of L ip) = 0"
    using Suc.prems by (auto simp: entry_of_def new_entry_def split: option.splits)
  then have f: "failures (fail_entry L t (entry_of L ip)) = k + 1" "blocked_until (fail_entry L t (entry_of L ip)) = 0"
    using fail_entry_counts(1) [of "entry_of L ip" L t] Suc.prems(6) by auto
  note IH = Suc.IH [of ?L "Some (fail_entry L t (entry_of L ip))" "k + 1"]
  obtain L' where "max_failures L' = max_failures ?L" "block_seconds L' = block_seconds ?L" "\<not> is_blocked L' ip t"
    "\<forall>evs. guesses ip (replicate n (Wrong ip t) @ evs) ?L = int n + guesses ip evs L'"
    using IH Suc.prems f M by (auto simp: record_failure_entry)
  then show ?case
    using nb by (intro exI [of _ L']) (auto simp: record_failure_entry)
qed

lemma resets_defeat_limiter:
  assumes "0 < max_failures L" "rl_entries L ip = None" "0 \<le> t"
  shows "guesses ip (concat (replicate k (replicate (nat (max_failures L - 1)) (Wrong ip t) @ [Right ip t]))) L
    = int k * (max_failures L - 1)"
  using assms
proof (induction k arbitrary: L)
  case (Suc k)
  obtain L' where L': "max_failures L' = max_failures L" "\<not> is_blocked L' ip t"
    "\<forall>evs. guesses ip (replicate (nat (max_failures L - 1)) (Wrong ip t) @ evs) L = int (nat (max_failures L - 1)) + guesses ip evs L'"
    using wrong_run [of "nat (max_failures L - 1)" L ip None 0 t] Suc.prems by auto
  have "rl_entries (record_success L' ip) ip = None" "max_failures (record_success L' ip) = max_failures L"
    using L'(1) by (simp_all add: record_success_def)
  with Suc.IH [of "record_success L' ip"] Suc.prems L' show ?case
    by (simp add: distrib_right)
qed simp

text \<open>
  C14. A session of any user clears the failures of its address: a bearer token that is a live session
  erases what the limiter holds against the address, even when the session does not permit what was
  asked. Whoever has a session can so go on guessing the password of another user without ever being
  locked out.
\<close>

theorem session_clears_failures:
  assumes "ne_make_address (we_net E) (rq_ip r) = Inr remote" and "fst (is_allowed (we_net E) remote (sm_allowed_hosts sm, [])) = Inr True"
    and "has_auth_header r" and "get_auth_header r = ''Bearer '' @ token" and "length (get_auth_header r) \<le> 8192"
    and "live_session E sm token user" and "\<not> is_blocked (sm_rate_limiter sm) (rq_ip r) (we_now E)"
  shows "rl_entries (sm_rate_limiter (fst (snd (is_logged_in E grants r issue (sm, rs))))) (rq_ip r) = None"
proof -
  have "fst (tk_validate (we_tokens E) token (we_now E) (sm_tokens sm)) = Some user"
    using assms(6) by (simp add: tk_validate_live)
  then have "limiter_event E sm r = Some (Right (rq_ip r) (we_now E))"
    using assms(1-5) by (simp add: limiter_event_def auth_event_def Let_def is_basic_auth_def is_bearer_auth_def)
  then show ?thesis
    using assms(7) by (simp add: request_limiter after_event_def record_success_def)
qed

definition failed_manager :: session_manager where
  "failed_manager = old_manager\<lparr>sm_rate_limiter := record_failure_at new_limiter ''127.0.0.1'' 999\<rparr>"

definition session_request :: http_request where
  "session_request = sample_request\<lparr>rq_headers := [''authorization'' \<mapsto> ''Bearer t'']\<rparr>"

theorem session_clears_failures_witness:
  "rl_entries (sm_rate_limiter failed_manager) ''127.0.0.1'' \<noteq> None \<and>
   rl_entries (sm_rate_limiter (fst (snd (is_logged_in (restart_web 1000) [] session_request False (failed_manager, new_response))))) ''127.0.0.1'' = None"
proof -
  have "ne_make_address (we_net (restart_web 1000)) (rq_ip session_request) = Inr (V4 [127, 0, 0, 1])"
    "fst (is_allowed (we_net (restart_web 1000)) (V4 [127, 0, 0, 1]) (sm_allowed_hosts failed_manager, [])) = Inr True"
    "has_auth_header session_request" "get_auth_header session_request = ''Bearer '' @ ''t''"
    "\<not> is_blocked (sm_rate_limiter failed_manager) (rq_ip session_request) (we_now (restart_web 1000))"
    "rl_entries (sm_rate_limiter failed_manager) ''127.0.0.1'' \<noteq> None" "rq_ip session_request = ''127.0.0.1''"
    by code_simp+
  moreover have "live_session (restart_web 1000) failed_manager ''t'' ''admin''"
    by (simp add: live_session_def restart_web_def failed_manager_def old_manager_def key_for_def has_token_expired_def
      HOURS_TO_SECONDS_def TOKEN_EXPIRATION_HOURS_def)
  ultimately show ?thesis
    using session_clears_failures [of "restart_web 1000" session_request "V4 [127, 0, 0, 1]" failed_manager "''t''" "''admin''" "[]" False new_response]
    by simp
qed

end
